(* ===== verification/TW_Prelude.thy ===== *)
theory TW_Prelude
  imports Main "HOL-Library.Word"
begin

text \<open>
  Shared vocabulary of the development: the machine integers of the C sources, the status codes of
  \<^verbatim>\<open>include/turbowasm/status.h\<close>, the convention for pointers, the generic lemmas on bits, lists and
  words that several components use, the interface of the tables that issue handles, and the byte arrays.

  Conventions of the translation.
  \<^item> \<^verbatim>\<open>uint8_t\<close>, \<^verbatim>\<open>uint32_t\<close>, \<^verbatim>\<open>uint64_t\<close> are the words \<open>u8\<close>, \<open>u32\<close>, \<open>u64\<close>, whose arithmetic wraps. The signed types
    are the same words read through \<open>sint\<close>.
  \<^item> Loop counters, array indices and \<^verbatim>\<open>size_t\<close> lengths are \<open>nat\<close>; where the source tests for or relies on a
    wrap of such a number the width is written out.
  \<^item> A mutated object is passed in and returned. A function of the source that stores through an
    \<^verbatim>\<open>out\<close> pointer returns the stored value, inside an option or beside a status. The pointers
    that only name the caller's storage are valid, so the \<^verbatim>\<open>== NULL\<close> guards on them have no
    counterpart; a pointer for which NULL is data (an object, a borrow scope, a destructor, an
    initializer, a definition) is an option or an explicit address.
  \<^item> Heap objects that several structures share are kept in explicit stores indexed by an \<open>addr\<close>.
  \<^item> An allocation that the allocator may refuse is decided by a parameter of the model.
\<close>

unbundle bit_operations_syntax

subsection \<open>Types\<close>

type_synonym u8 = "8 word"
type_synonym u16 = "16 word"
type_synonym u32 = "32 word"
type_synonym u64 = "64 word"

text \<open>An address of a caller-owned, stable object. A pointer that may be NULL is an \<open>addr option\<close>.\<close>

type_synonym addr = nat

datatype turbowasm_status =
    TURBOWASM_OK
  | TURBOWASM_INVALID_ARGUMENT
  | TURBOWASM_MALFORMED_MODULE
  | TURBOWASM_UNSUPPORTED
  | TURBOWASM_OUT_OF_MEMORY
  | TURBOWASM_TYPE_MISMATCH
  | TURBOWASM_TRAPPED
  | TURBOWASM_FUEL_EXHAUSTED
  | TURBOWASM_INTERRUPTED
  | TURBOWASM_LINK_ERROR
  | TURBOWASM_EXCEPTION
  | TURBOWASM_YIELDED

abbreviation UINT32_MAX :: nat where "UINT32_MAX \<equiv> 4294967295"
abbreviation UINT64_MAX :: nat where "UINT64_MAX \<equiv> 18446744073709551615"
abbreviation U32_MAX :: u32 where "U32_MAX \<equiv> 0xffffffff"
abbreviation U64_MAX :: u64 where "U64_MAX \<equiv> 0xffffffffffffffff"

named_theorems tw_defs \<open>definitions of the modelled operations that case analyses unfold\<close>
named_theorems tw_frame \<open>what an operation leaves unchanged\<close>

subsection \<open>Bits\<close>

lemma nat_or_push_bit:
  fixes a p s :: nat
  assumes "a < 2 ^ s"
  shows "a OR push_bit s p = a + 2 ^ s * p"
proof -
  have "a AND push_bit s p = 0"
  proof (rule bit_eqI)
    fix n
    have "\<not> bit a n" if "s \<le> n"
    proof -
      have "a < 2 ^ n"
        using assms that by (meson less_le_trans one_le_numeral power_increasing)
      then show ?thesis
        by (simp add: bit_iff_odd)
    qed
    then show "bit (a AND push_bit s p) n = bit (0::nat) n"
      by (auto simp: bit_and_iff bit_push_bit_iff)
  qed
  then have "a + push_bit s p = a OR push_bit s p"
    by (rule disjunctive_add_eq_or)
  then show ?thesis
    by (simp add: push_bit_eq_mult mult.commute)
qed

lemma word_or_push_bit:
  assumes "a < 2 ^ s"
  shows "(of_nat a :: 'a::len word) OR push_bit s (of_nat p) = of_nat (a + 2 ^ s * p)"
proof -
  have "(of_nat a :: 'a word) OR push_bit s (of_nat p) = of_nat (a OR push_bit s p)"
    by (simp only: of_nat_or_eq of_nat_push_bit)
  also have "a OR push_bit s p = a + 2 ^ s * p"
    using assms by (rule nat_or_push_bit)
  finally show ?thesis .
qed

text \<open>A property of all bytes can be evaluated: there are 256 of them.\<close>

lemma all_u8:
  assumes "list_all (\<lambda>n. P (word_of_nat n)) [0..<256]"
  shows "P (b :: u8)"
proof -
  have "unat b \<in> set [0..<256]"
    using unsigned_less [of b] by simp
  then have "P (word_of_nat (unat b))"
    using assms by (simp only: list_all_iff)
  then show ?thesis by simp
qed

lemma unat_and_127: "unat ((b::u8) AND 127) = unat b mod 128"
proof -
  have "b AND 127 = b AND mask 7"
    by (simp add: mask_eq_exp_minus_1)
  then have "unat (b AND 127) = unat (take_bit 7 b)"
    by (simp only: take_bit_eq_mask)
  also have "\<dots> = take_bit 7 (unat b)"
    by (rule unsigned_take_bit_eq)
  finally show ?thesis
    by (simp add: take_bit_eq_mod)
qed

lemma unat_u8_less: "unat (b::u8) < 256"
  using unsigned_less [of b] by simp

lemma word_bit_iff_unat: "bit (w :: 'a::len word) k \<longleftrightarrow> odd (unat w div 2 ^ k)"
proof -
  have "bit w k \<longleftrightarrow> bit (unat w) k"
    using bit_imp_le_length [of w k] by (auto simp: bit_unsigned_iff)
  then show ?thesis
    by (simp add: bit_iff_odd)
qed

lemma word_and_exp_eq_0: "(w :: 'a::len word) AND 2 ^ k = 0 \<longleftrightarrow> even (unat w div 2 ^ k)"
  using and_exp_eq_0_iff_not_bit [of w k] word_bit_iff_unat [of w k] by simp

lemma even_div_iff_mod_less:
  fixes n m :: nat
  assumes "0 < m"
  shows "even (n div m) \<longleftrightarrow> n mod (m * 2) < m"
proof -
  have "n mod (m * 2) = m * (n div m mod 2) + n mod m"
    by (rule mod_mult2_eq)
  moreover have "n mod m < m"
    using assms by simp
  ultimately show ?thesis
    by (cases "even (n div m)") (simp_all add: even_iff_mod_2_eq_zero odd_iff_mod_2_eq_one)
qed

lemma word_and_exp_eq_0': "(w :: 'a::len word) AND 2 ^ k = 0 \<longleftrightarrow> unat w mod (2 ^ k * 2) < 2 ^ k"
  by (simp only: word_and_exp_eq_0 even_div_iff_mod_less zero_less_power zero_less_numeral)

lemma and_128_eq_0: "(b::u8) AND 128 = 0 \<longleftrightarrow> unat b < 128"
  using word_and_exp_eq_0' [of b 7] unat_u8_less [of b] by simp

lemma and_64_eq_0: "(b::u8) AND 64 = 0 \<longleftrightarrow> unat b mod 128 < 64"
  using word_and_exp_eq_0' [of b 6] by simp

lemma int_or_push_bit:
  fixes a p :: int
  assumes "0 \<le> a" and "a < 2 ^ s"
  shows "a OR push_bit s p = a + 2 ^ s * p"
proof -
  have "a AND push_bit s p = 0"
  proof (rule bit_eqI)
    fix n
    have "\<not> bit a n" if "s \<le> n"
    proof -
      have "a < 2 ^ n"
        using assms(2) that by (meson less_le_trans one_le_numeral power_increasing)
      then show ?thesis
        using assms(1) by (simp add: bit_iff_odd)
    qed
    then show "bit (a AND push_bit s p) n = bit (0::int) n"
      by (auto simp: bit_and_iff bit_push_bit_iff)
  qed
  then have "a + push_bit s p = a OR push_bit s p"
    by (rule disjunctive_add_eq_or)
  then show ?thesis
    by (simp add: push_bit_eq_mult mult.commute)
qed

text \<open>Sign extension as the sources write it: or-ing the shifted all-ones word.\<close>

lemma word_sign_extend_or:
  assumes "a < 2 ^ s"
  shows "(of_nat a :: 'a::len word) OR push_bit s (NOT 0) = of_int (int a - 2 ^ s)"
proof -
  have "(of_nat a :: 'a word) OR push_bit s (NOT 0) = of_int (int a OR push_bit s (- 1))"
    by (simp only: of_int_or_eq of_int_push_bit) simp
  also have "int a OR push_bit s (- 1) = int a + 2 ^ s * (- 1)"
    using assms by (intro int_or_push_bit) simp_all
  finally show ?thesis by simp
qed

lemma word_or_high_ones:
  "(w :: 'a::len word) OR push_bit s (NOT 0) = take_bit s w OR push_bit s (NOT 0)"
  by (rule bit_word_eqI) (auto simp: bit_or_iff bit_push_bit_iff bit_take_bit_iff bit_not_iff bit_mask_iff)

lemma word_and_not_mask_eq_0: "(w :: 'a::len word) AND NOT (mask n) = 0 \<longleftrightarrow> unat w < 2 ^ n"
proof -
  have "w AND NOT (mask n) = 0 \<longleftrightarrow> (\<forall>k. bit w k \<longrightarrow> k < n)"
    by (auto simp: bit_eq_iff bit_and_iff bit_not_iff bit_mask_iff dest: bit_imp_le_length)
  also have "\<dots> \<longleftrightarrow> take_bit n w = w"
    by (auto simp: bit_eq_iff bit_take_bit_iff dest: bit_imp_le_length)
  also have "\<dots> \<longleftrightarrow> take_bit n (unat w) = unat w"
    by (simp only: word_unat_eq_iff unsigned_take_bit_eq)
  also have "\<dots> \<longleftrightarrow> unat w < 2 ^ n"
    by (rule take_bit_nat_eq_self_iff)
  finally show ?thesis .
qed

subsection \<open>Arithmetic\<close>

lemma mixed_radix_less:
  fixes u P p q :: int
  assumes "0 \<le> u" and "u < P"
  shows "u + P * p < P * q \<longleftrightarrow> p < q"
proof
  assume "u + P * p < P * q"
  with assms(1) have "P * p < P * q" by linarith
  with assms show "p < q" by (simp add: mult_less_cancel_left)
next
  assume "p < q"
  then have "P * (p + 1) \<le> P * q"
    using assms by (intro mult_left_mono) simp_all
  then show "u + P * p < P * q"
    using assms(2) by (simp add: algebra_simps)
qed

lemma mixed_radix_ge:
  fixes u P p q :: int
  assumes "0 \<le> u" and "u < P"
  shows "P * q \<le> u + P * p \<longleftrightarrow> q \<le> p"
  using mixed_radix_less [OF assms, of p q] by linarith

lemma int_less_pow: "n < 2 ^ k \<Longrightarrow> int n < 2 ^ k"
  by (metis of_nat_less_iff of_nat_numeral of_nat_power)

lemma word_le_one_cases:
  fixes x :: "'a::len word"
  assumes "x \<le> 1" and "x \<noteq> 0"
  shows "x = 1"
proof -
  have "unat x \<noteq> 0" using assms(2) by (simp add: unat_eq_0)
  moreover have "unat x \<le> 1" using assms(1) by (simp add: word_le_nat_alt)
  ultimately have "unat x = 1" by simp
  then have "unat x = unat (1 :: 'a word)" by simp
  then show ?thesis by (simp only: word_unat_eq_iff)
qed

lemma unat_or_push_bit:
  fixes c p :: "'a::len word"
  assumes "unat c < 2 ^ s" and "unat c + 2 ^ s * unat p < 2 ^ LENGTH('a)"
  shows "unat (c OR push_bit s p) = unat c + 2 ^ s * unat p"
  using word_or_push_bit [OF assms(1), of "unat p", where 'a = 'a] assms(2)
  by (simp add: unat_of_nat del: of_nat_add of_nat_mult)

lemma packed_fields:
  fixes c p :: "'a::len word"
  assumes "unat c < 2 ^ s" and "unat c + 2 ^ s * unat p < 2 ^ LENGTH('a)"
  shows packed_low: "(c OR push_bit s p) AND mask s = c" and packed_high: "drop_bit s (c OR push_bit s p) = p"
proof -
  note u = unat_or_push_bit [OF assms]
  have "unat ((c OR push_bit s p) AND mask s) = take_bit s (unat (c OR push_bit s p))"
    by (simp only: take_bit_eq_mask [symmetric] unsigned_take_bit_eq)
  also have "\<dots> = unat c"
    using u assms(1) by (simp add: take_bit_eq_mod)
  finally have "unat ((c OR push_bit s p) AND mask s) = unat c" .
  then show "(c OR push_bit s p) AND mask s = c" by (simp only: word_unat_eq_iff)
  have "unat (drop_bit s (c OR push_bit s p)) = unat p"
    unfolding unat_drop_bit_eq u using assms(1) by (simp add: drop_bit_eq_div)
  then show "drop_bit s (c OR push_bit s p) = p" by (simp only: word_unat_eq_iff)
qed

lemma unat_plus_one:
  fixes x :: "'a::len word"
  assumes "Suc (unat x) < 2 ^ LENGTH('a)"
  shows "unat (x + 1) = Suc (unat x)"
  using assms by (simp add: unat_word_ariths)

lemma unat_minus_one:
  fixes x :: "'a::len word"
  assumes "x \<noteq> 0"
  shows "unat (x - 1) = unat x - 1"
proof -
  have "1 \<le> x" using assms by (metis word_gt_0 word_le_nat_alt word_less_nat_alt unat_0 unat_1 Suc_leI One_nat_def)
  then show ?thesis by (simp add: unat_sub)
qed

lemma unat_less_exp:
  fixes x :: "'a::len word" shows "unat x < 2 ^ LENGTH('a)" by simp

lemma word_split_at:
  fixes h :: "'a::len word"
  shows "unat h = unat (h AND mask s) + 2 ^ s * unat (drop_bit s h)"
proof -
  have "unat (h AND mask s) = unat h mod 2 ^ s"
    by (simp only: take_bit_eq_mask [symmetric] unsigned_take_bit_eq) (simp add: take_bit_eq_mod)
  moreover have "unat (drop_bit s h) = unat h div 2 ^ s"
    by (simp add: unat_drop_bit_eq drop_bit_eq_div [of s "unat h"])
  ultimately show ?thesis by simp
qed


lemma length_filter_update:
  assumes "i < length xs"
  shows "length (filter P (xs[i := x])) + (if P (xs ! i) then 1 else 0) = length (filter P xs) + (if P x then 1 else 0)"
  using assms
proof (induction xs arbitrary: i)
  case (Cons y ys)
  then show ?case by (cases i) auto
qed simp

subsection \<open>Handle tables\<close>

text \<open>
  The contract of a table whose handles are generation checked. Whatever operation runs, a handle
  that resolves was issued, an issued handle counts as issued for ever, and an issued handle that no
  longer resolves does not resolve again.
\<close>

locale handle_table =
  fixes inv :: "'s \<Rightarrow> bool" and lookup :: "'s \<Rightarrow> 'h \<rightharpoonup> 'e" and spent :: "'s \<Rightarrow> 'h \<Rightarrow> bool" and step :: "'op \<Rightarrow> 's \<Rightarrow> 's"
  assumes step_inv: "inv s \<Longrightarrow> inv (step a s)"
    and live_spent: "inv s \<Longrightarrow> lookup s h \<noteq> None \<Longrightarrow> spent s h"
    and step_spent: "inv s \<Longrightarrow> spent s h \<Longrightarrow> spent (step a s) h"
    and step_dead: "inv s \<Longrightarrow> spent s h \<Longrightarrow> lookup s h = None \<Longrightarrow> lookup (step a s) h = None"
begin

lemma run_inv: "inv s \<Longrightarrow> inv (fold step as s)"
  by (induction as arbitrary: s) (simp_all add: step_inv)

lemma run_spent: "inv s \<Longrightarrow> spent s h \<Longrightarrow> spent (fold step as s) h"
  by (induction as arbitrary: s) (simp_all add: step_inv step_spent)

lemma run_dead: "inv s \<Longrightarrow> spent s h \<Longrightarrow> lookup s h = None \<Longrightarrow> lookup (fold step as s) h = None"
  by (induction as arbitrary: s) (simp_all add: step_inv step_spent step_dead)

text \<open>A handle that was live and is gone after some operations stays gone.\<close>

lemma run_no_revival:
  assumes "inv s" and "lookup s h \<noteq> None" and "lookup (fold step as s) h = None"
  shows "lookup (fold step bs (fold step as s)) h = None"
  using assms live_spent run_dead run_inv run_spent by blast

end

subsection \<open>Byte arrays\<close>

text \<open>Copying out of and into an array of bytes: \<open>n\<close> bytes from position \<open>e\<close>, and a list of bytes to position \<open>e\<close>.\<close>

definition bytes_get :: "u8 list \<Rightarrow> nat \<Rightarrow> nat \<Rightarrow> u8 list" where
  "bytes_get data e n = take n (drop e data)"

definition bytes_put :: "u8 list \<Rightarrow> nat \<Rightarrow> u8 list \<Rightarrow> u8 list" where
  "bytes_put data e bs = take e data @ bs @ drop (e + length bs) data"

lemma length_bytes_put [simp]: "e + length bs \<le> length data \<Longrightarrow> length (bytes_put data e bs) = length data"
  by (simp add: bytes_put_def)

lemma bytes_get_put: "e + length bs \<le> length data \<Longrightarrow> n = length bs \<Longrightarrow> bytes_get (bytes_put data e bs) e n = bs"
  by (simp add: bytes_get_def bytes_put_def)

lemma bytes_put_nth:
  "e + length bs \<le> length data \<Longrightarrow> j < length data \<Longrightarrow>
     bytes_put data e bs ! j = (if e \<le> j \<and> j < e + length bs then bs ! (j - e) else data ! j)"
  by (auto simp: bytes_put_def nth_append min_def)

lemma length_bytes_get [simp]: "e + n \<le> length data \<Longrightarrow> length (bytes_get data e n) = n"
  by (simp add: bytes_get_def)

lemma bytes_get_nth: "e + n \<le> length data \<Longrightarrow> j < n \<Longrightarrow> bytes_get data e n ! j = data ! (e + j)"
  by (simp add: bytes_get_def)

lemma bytes_put_get: "e + n \<le> length data \<Longrightarrow> bytes_put data e (bytes_get data e n) = data"
  by (simp add: bytes_put_def bytes_get_def take_add [symmetric] append_assoc [symmetric] del: append_assoc)

lemma bytes_get_Cons: "c < length bytes \<Longrightarrow> bytes_get bytes c (Suc n) = bytes ! c # bytes_get bytes (c + 1) n"
  by (simp add: bytes_get_def Cons_nth_drop_Suc [symmetric])

lemma bytes_get_add: "bytes_get data e (m + n) = bytes_get data e m @ bytes_get data (e + m) n"
  by (simp add: bytes_get_def take_add add.commute)

lemma bytes_get_all: "bytes_get raw c (length raw - c) = drop c raw"
  by (simp add: bytes_get_def)

lemma bytes_get_take: "k \<le> n \<Longrightarrow> bytes_get data e k = take k (bytes_get data e n)"
  by (simp add: bytes_get_def min_def)

lemma bytes_put_region:
  assumes "p + length buf \<le> length data" "off + length bs \<le> length buf" "bytes_get data p (length buf) = buf"
  shows "bytes_get (bytes_put data (p + off) bs) p (length buf) = bytes_put buf off bs"
proof (rule nth_equalityI)
  show "length (bytes_get (bytes_put data (p + off) bs) p (length buf)) = length (bytes_put buf off bs)" using assms(1,2) by simp
  fix j assume "j < length (bytes_get (bytes_put data (p + off) bs) p (length buf))"
  then have j: "j < length buf" using assms(1,2) by simp
  then have "data ! (p + j) = buf ! j" using assms(1,3) by (metis bytes_get_nth)
  then show "bytes_get (bytes_put data (p + off) bs) p (length buf) ! j = bytes_put buf off bs ! j"
    using assms(1,2) j by (simp add: bytes_get_nth bytes_put_nth)
qed

lemma bytes_put_put: "d + length xs + length ys \<le> length buf \<Longrightarrow> bytes_put (bytes_put buf d xs) (d + length xs) ys = bytes_put buf d (xs @ ys)"
  by (simp add: bytes_put_def drop_append ac_simps)

lemma bytes_put_before: "d + length xs + length ys \<le> length buf \<Longrightarrow> bytes_put (bytes_put buf (d + length xs) ys) d xs = bytes_put buf d (xs @ ys)"
  by (simp add: bytes_put_def min_def take_append drop_append add.assoc)

lemma take_bytes_put: "length enc + length bs \<le> length buf \<Longrightarrow> take (length enc) buf = enc \<Longrightarrow>
    take (length (enc @ bs)) (bytes_put buf (length enc) bs) = enc @ bs"
  by (simp add: bytes_put_def)

lemma take_bytes_put_0: "length bs \<le> length buf \<Longrightarrow> take (length bs) (bytes_put buf 0 bs) = bs"
  by (simp add: bytes_put_def)

text \<open>The number that a list of bytes denotes.\<close>

fun le_nat :: "u8 list \<Rightarrow> nat" where
  "le_nat [] = 0"
| "le_nat (b # bs) = unat b + 256 * le_nat bs"

lemma bit_le_nat: "bit (le_nat bs) j \<longleftrightarrow> j < 8 * length bs \<and> bit (bs ! (j div 8)) (j mod 8)"
proof (induction bs arbitrary: j)
  case Nil
  then show ?case by simp
next
  case (Cons b bs)
  have b: "unat b < 256" using unat_less_exp [of b] by simp
  have t: "take_bit 8 (le_nat (b # bs)) = unat b" "drop_bit 8 (le_nat (b # bs)) = le_nat bs"
    using b by (simp_all add: take_bit_eq_mod drop_bit_eq_div)
  show ?case
  proof (cases "j < 8")
    case True
    then have "bit (le_nat (b # bs)) j \<longleftrightarrow> bit (take_bit 8 (le_nat (b # bs))) j" by (simp add: bit_take_bit_iff)
    then show ?thesis using True by (simp add: t(1) bit_unsigned_iff del: le_nat.simps)
  next
    case False
    then have "bit (le_nat (b # bs)) j \<longleftrightarrow> bit (drop_bit 8 (le_nat (b # bs))) (j - 8)" by (simp add: bit_drop_bit_eq)
    then have "bit (le_nat (b # bs)) j \<longleftrightarrow> j - 8 < 8 * length bs \<and> bit (bs ! ((j - 8) div 8)) ((j - 8) mod 8)"
      by (simp only: t(2) Cons.IH)
    moreover have "j div 8 = Suc ((j - 8) div 8)" "(j - 8) mod 8 = j mod 8" using False by (simp_all add: le_div_geq le_mod_geq)
    ultimately show ?thesis using False by auto
  qed
qed

lemma le_nat_less: "le_nat bs < 2 ^ (8 * length bs)"
proof (induction bs)
  case Nil
  then show ?case by simp
next
  case (Cons b bs)
  have "unat b < 256" using unat_less_exp [of b] by simp
  then have "le_nat (b # bs) < 256 * (le_nat bs + 1)" by simp
  also have "\<dots> \<le> 256 * 2 ^ (8 * length bs)" using Cons.IH by (intro mult_le_mono2) simp
  finally show ?case by (simp add: power_add)
qed

end
