(* ===== verification/TW_Async.thy ===== *)
theory TW_Async
  imports TW_Prelude
begin

text \<open>
  The notification states of \<^verbatim>\<open>src/src/component_async_state.c\<close>: the life cycle of a subtask and of a
  stream or future end, each a small state machine that its owner embeds. An operation returns the
  boolean of the C function (or the event it hands out) beside the state; a refused operation
  returns the state unchanged.

  The lemmas give the invariant of each machine, that a pending event can always be taken and is
  taken once, that a terminal event is neither lost nor repeated, and how the result word of a copy
  is packed.
\<close>

subsection \<open>Event sources\<close>

text \<open>
  What the owner of a notification state relies on: in every state of the machine an event can be
  taken exactly when one is pending, and taking it clears the pending flag.
\<close>

locale event_source =
  fixes inv :: "'s \<Rightarrow> bool" and pending :: "'s \<Rightarrow> bool" and take_ev :: "'s \<Rightarrow> 'e option \<times> 's"
  assumes take_iff: "inv s \<Longrightarrow> fst (take_ev s) \<noteq> None \<longleftrightarrow> pending s"
    and take_inv: "inv s \<Longrightarrow> inv (snd (take_ev s))"
    and take_clears: "inv s \<Longrightarrow> \<not> pending (snd (take_ev s))"
    and take_refused: "fst (take_ev s) = None \<Longrightarrow> snd (take_ev s) = s"
begin

lemma take_pending: "inv s \<Longrightarrow> pending s \<Longrightarrow> \<exists>e s'. take_ev s = (Some e, s') \<and> inv s' \<and> \<not> pending s'"
  using take_iff [of s] take_inv [of s] take_clears [of s] by (cases "take_ev s") auto

lemma take_not_pending: "inv s \<Longrightarrow> \<not> pending s \<Longrightarrow> take_ev s = (None, s)"
  using take_iff [of s] take_refused [of s] by (cases "take_ev s") auto

lemma take_twice: "inv s \<Longrightarrow> take_ev s = (Some e, s') \<Longrightarrow> take_ev s' = (None, s')"
  using take_inv [of s] take_clears [of s] take_not_pending [of s'] by simp

end

subsection \<open>Subtasks\<close>

datatype turbowasm_component_subtask_phase =
    SUBTASK_STARTING
  | SUBTASK_STARTED
  | SUBTASK_RETURNED
  | SUBTASK_CANCELLED_BEFORE_STARTED
  | SUBTASK_CANCELLED_BEFORE_RETURNED

text \<open>The value of the C enumerator, which the sources compare and publish.\<close>

fun subtask_phase_code :: "turbowasm_component_subtask_phase \<Rightarrow> nat" where
  "subtask_phase_code SUBTASK_STARTING = 0"
| "subtask_phase_code SUBTASK_STARTED = 1"
| "subtask_phase_code SUBTASK_RETURNED = 2"
| "subtask_phase_code SUBTASK_CANCELLED_BEFORE_STARTED = 3"
| "subtask_phase_code SUBTASK_CANCELLED_BEFORE_RETURNED = 4"

record turbowasm_component_subtask_state =
  subtask_phase :: turbowasm_component_subtask_phase
  cancellation_requested :: bool
  subtask_pending_event :: bool
  resolve_delivered :: bool

definition subtask_live :: "turbowasm_component_subtask_state \<Rightarrow> bool" where
  "subtask_live s \<longleftrightarrow> subtask_phase s = SUBTASK_STARTING \<or> subtask_phase s = SUBTASK_STARTED"

definition turbowasm_component_subtask_start ::
    "turbowasm_component_subtask_state \<Rightarrow> bool \<times> turbowasm_component_subtask_state" where
  "turbowasm_component_subtask_start s =
     (if \<not> subtask_live s \<or> subtask_phase s \<noteq> SUBTASK_STARTING then (False, s)
      else (True, s\<lparr>subtask_phase := SUBTASK_STARTED, subtask_pending_event := True\<rparr>))"

definition turbowasm_component_subtask_request_cancel ::
    "turbowasm_component_subtask_state \<Rightarrow> bool \<times> turbowasm_component_subtask_state" where
  "turbowasm_component_subtask_request_cancel s =
     (if resolve_delivered s \<or> cancellation_requested s then (False, s)
      else
        (subtask_phase_code SUBTASK_STARTING \<le> subtask_phase_code (subtask_phase s) \<and>
         subtask_phase_code (subtask_phase s) \<le> subtask_phase_code SUBTASK_CANCELLED_BEFORE_RETURNED,
         if subtask_live s then s\<lparr>cancellation_requested := True\<rparr> else s))"

definition turbowasm_component_subtask_resolve ::
    "turbowasm_component_subtask_state \<Rightarrow> bool \<Rightarrow> bool \<times> turbowasm_component_subtask_state" where
  "turbowasm_component_subtask_resolve s cancelled =
     (if \<not> subtask_live s \<or>
         (cancelled \<and> \<not> cancellation_requested s) \<or>
         (\<not> cancelled \<and> subtask_phase s \<noteq> SUBTASK_STARTED)
      then (False, s)
      else
        (True,
         s\<lparr>subtask_phase :=
             (if cancelled
              then (if subtask_phase s = SUBTASK_STARTING
                    then SUBTASK_CANCELLED_BEFORE_STARTED else SUBTASK_CANCELLED_BEFORE_RETURNED)
              else SUBTASK_RETURNED),
           subtask_pending_event := True\<rparr>))"

definition turbowasm_component_subtask_take_event ::
    "turbowasm_component_subtask_state \<Rightarrow>
     turbowasm_component_subtask_phase option \<times> turbowasm_component_subtask_state" where
  "turbowasm_component_subtask_take_event s =
     (if \<not> subtask_pending_event s \<or> resolve_delivered s \<or>
         subtask_phase_code (subtask_phase s) < subtask_phase_code SUBTASK_STARTED \<or>
         subtask_phase_code (subtask_phase s) > subtask_phase_code SUBTASK_CANCELLED_BEFORE_RETURNED
      then (None, s)
      else
        let s1 = s\<lparr>subtask_pending_event := False\<rparr>;
            s2 = (if \<not> subtask_live s1 then s1\<lparr>resolve_delivered := True\<rparr> else s1)
        in (Some (subtask_phase s2), s2))"

text \<open>
  The store to the pending flag in \<^verbatim>\<open>turbowasm_component_subtask_publish\<close>: an unresolved subtask is handed to the guest
  together with its phase, so a \<open>STARTED\<close> notification is not queued a second time.
\<close>

definition subtask_published :: "turbowasm_component_subtask_state \<Rightarrow> bool \<times> turbowasm_component_subtask_state" where
  "subtask_published s = (if subtask_live s then (True, s\<lparr>subtask_pending_event := False\<rparr>) else (False, s))"

lemmas subtask_defs =
  subtask_published_def turbowasm_component_subtask_start_def turbowasm_component_subtask_request_cancel_def
  turbowasm_component_subtask_resolve_def turbowasm_component_subtask_take_event_def subtask_live_def

subsection \<open>Stream and future ends\<close>

datatype turbowasm_component_endpoint_phase =
    ENDPOINT_IDLE
  | ENDPOINT_COPYING
  | ENDPOINT_CANCELLING
  | ENDPOINT_DONE

abbreviation COPY_COMPLETED :: u32 where "COPY_COMPLETED \<equiv> 0"
abbreviation COPY_DROPPED :: u32 where "COPY_DROPPED \<equiv> 1"
abbreviation COPY_CANCELLED :: u32 where "COPY_CANCELLED \<equiv> 2"
abbreviation COPY_MAX_LENGTH :: u32 where "COPY_MAX_LENGTH \<equiv> 0x0fffffff"

record turbowasm_component_endpoint_state =
  endpoint_phase :: turbowasm_component_endpoint_phase
  progress :: u32
  future :: bool
  peer_dropped :: bool
  endpoint_pending_event :: bool

definition turbowasm_component_endpoint_begin_copy ::
    "turbowasm_component_endpoint_state \<Rightarrow> bool \<times> turbowasm_component_endpoint_state" where
  "turbowasm_component_endpoint_begin_copy s =
     (if endpoint_phase s \<noteq> ENDPOINT_IDLE \<or> (endpoint_pending_event s \<and> \<not> peer_dropped s)
      then (False, s)
      else (True, s\<lparr>endpoint_phase := ENDPOINT_COPYING, progress := 0\<rparr>))"

definition turbowasm_component_endpoint_notify ::
    "turbowasm_component_endpoint_state \<Rightarrow> u32 \<Rightarrow> bool \<times> turbowasm_component_endpoint_state" where
  "turbowasm_component_endpoint_notify s n =
     (if (endpoint_phase s \<noteq> ENDPOINT_COPYING \<and> endpoint_phase s \<noteq> ENDPOINT_CANCELLING \<and>
          \<not> (endpoint_phase s = ENDPOINT_IDLE \<and> peer_dropped s)) \<or>
         n > COPY_MAX_LENGTH \<or>
         (endpoint_phase s = ENDPOINT_IDLE \<and> n \<noteq> 0) \<or>
         (future s \<and> (n > 1 \<or>
            (n = 0 \<and> \<not> peer_dropped s \<and> endpoint_phase s \<noteq> ENDPOINT_CANCELLING))) \<or>
         (endpoint_pending_event s \<and> n < progress s)
      then (False, s)
      else (True, s\<lparr>progress := n, endpoint_pending_event := True\<rparr>))"

definition turbowasm_component_endpoint_request_cancel ::
    "turbowasm_component_endpoint_state \<Rightarrow> bool \<Rightarrow> bool \<times> turbowasm_component_endpoint_state" where
  "turbowasm_component_endpoint_request_cancel s defer_ack =
     (if endpoint_phase s \<noteq> ENDPOINT_COPYING then (False, s)
      else
        let s1 = s\<lparr>endpoint_phase := ENDPOINT_CANCELLING\<rparr> in
        (True, if \<not> endpoint_pending_event s1 \<and> \<not> defer_ack
               then s1\<lparr>progress := 0, endpoint_pending_event := True\<rparr> else s1))"

definition turbowasm_component_endpoint_peer_dropped ::
    "turbowasm_component_endpoint_state \<Rightarrow> bool \<times> turbowasm_component_endpoint_state" where
  "turbowasm_component_endpoint_peer_dropped s =
     (if peer_dropped s then (False, s)
      else
        let s1 = s\<lparr>peer_dropped := True\<rparr> in
        (True, if endpoint_phase s1 \<noteq> ENDPOINT_DONE \<and> \<not> endpoint_pending_event s1
               then s1\<lparr>progress := 0, endpoint_pending_event := True\<rparr> else s1))"

text \<open>The result code and the next phase of a delivery, by precedence; \<open>None\<close> is the final refusal.\<close>

definition endpoint_outcome ::
    "turbowasm_component_endpoint_state \<Rightarrow> (u32 \<times> turbowasm_component_endpoint_phase) option" where
  "endpoint_outcome s =
     (if future s \<and> progress s = 1 then Some (COPY_COMPLETED, ENDPOINT_DONE)
      else if peer_dropped s then Some (COPY_DROPPED, ENDPOINT_DONE)
      else if endpoint_phase s = ENDPOINT_CANCELLING then Some (COPY_CANCELLED, ENDPOINT_IDLE)
      else if \<not> future s \<and> endpoint_phase s = ENDPOINT_COPYING then Some (COPY_COMPLETED, ENDPOINT_IDLE)
      else None)"

definition turbowasm_component_endpoint_take_event ::
    "turbowasm_component_endpoint_state \<Rightarrow> u32 option \<times> turbowasm_component_endpoint_state" where
  "turbowasm_component_endpoint_take_event s =
     (if \<not> endpoint_pending_event s \<or> endpoint_phase s = ENDPOINT_DONE then (None, s)
      else case endpoint_outcome s of
        None \<Rightarrow> (None, s)
      | Some (code, next_phase) \<Rightarrow>
          (Some (if \<not> future s then code OR push_bit 4 (progress s) else code),
           s\<lparr>endpoint_phase := next_phase, endpoint_pending_event := False\<rparr>))"

lemmas endpoint_defs =
  turbowasm_component_endpoint_begin_copy_def turbowasm_component_endpoint_notify_def
  turbowasm_component_endpoint_request_cancel_def turbowasm_component_endpoint_peer_dropped_def
  turbowasm_component_endpoint_take_event_def endpoint_outcome_def Let_def

subsection \<open>The subtask machine\<close>

text \<open>
  The operations an owner performs on an embedded subtask state.
\<close>

datatype subtask_op = SubtaskStart | SubtaskCancel | SubtaskResolve bool | SubtaskTake | SubtaskPublished

definition subtask_init :: turbowasm_component_subtask_state where
  "subtask_init = \<lparr>subtask_phase = SUBTASK_STARTING, cancellation_requested = False,
     subtask_pending_event = False, resolve_delivered = False\<rparr>"

text \<open>What an operation returns: whether it was accepted, the event that it hands out and the state.\<close>

fun subtask_apply :: "subtask_op \<Rightarrow> turbowasm_component_subtask_state \<Rightarrow>
    bool \<times> turbowasm_component_subtask_phase option \<times> turbowasm_component_subtask_state" where
  "subtask_apply SubtaskStart s = (case turbowasm_component_subtask_start s of (b, s1) \<Rightarrow> (b, None, s1))"
| "subtask_apply SubtaskCancel s = (case turbowasm_component_subtask_request_cancel s of (b, s1) \<Rightarrow> (b, None, s1))"
| "subtask_apply (SubtaskResolve c) s = (case turbowasm_component_subtask_resolve s c of (b, s1) \<Rightarrow> (b, None, s1))"
| "subtask_apply SubtaskTake s = (case turbowasm_component_subtask_take_event s of (e, s1) \<Rightarrow> (e \<noteq> None, e, s1))"
| "subtask_apply SubtaskPublished s = (case subtask_published s of (b, s1) \<Rightarrow> (b, None, s1))"

text \<open>The notifications that a sequence of operations delivers, in order, and the final state.\<close>

fun subtask_run :: "subtask_op list \<Rightarrow> turbowasm_component_subtask_state \<Rightarrow>
    turbowasm_component_subtask_phase list \<times> turbowasm_component_subtask_state" where
  "subtask_run [] s = ([], s)"
| "subtask_run (a # as) s =
     (case subtask_apply a s of (b, e, s1) \<Rightarrow>
      case subtask_run as s1 of (es, s2) \<Rightarrow> (case e of None \<Rightarrow> es | Some x \<Rightarrow> x # es, s2))"

definition subtask_terminal :: "turbowasm_component_subtask_phase \<Rightarrow> bool" where
  "subtask_terminal p \<longleftrightarrow> p \<noteq> SUBTASK_STARTING \<and> p \<noteq> SUBTASK_STARTED"

definition subtask_inv :: "turbowasm_component_subtask_state \<Rightarrow> bool" where
  "subtask_inv s \<longleftrightarrow>
     (case subtask_phase s of
        SUBTASK_STARTING \<Rightarrow> \<not> subtask_pending_event s \<and> \<not> resolve_delivered s
      | SUBTASK_STARTED \<Rightarrow> \<not> resolve_delivered s
      | SUBTASK_RETURNED \<Rightarrow> subtask_pending_event s = (\<not> resolve_delivered s)
      | SUBTASK_CANCELLED_BEFORE_STARTED \<Rightarrow>
          cancellation_requested s \<and> subtask_pending_event s = (\<not> resolve_delivered s)
      | SUBTASK_CANCELLED_BEFORE_RETURNED \<Rightarrow>
          cancellation_requested s \<and> subtask_pending_event s = (\<not> resolve_delivered s))"

lemma subtask_inv_init: "subtask_inv subtask_init"
  by (simp add: subtask_inv_def subtask_init_def subtask_terminal_def)

lemma subtask_inv_apply: "subtask_inv s \<Longrightarrow> subtask_inv (snd (snd (subtask_apply a s)))"
  by (cases a; cases "subtask_phase s"; simp add: subtask_inv_def subtask_terminal_def subtask_defs Let_def)

lemma subtask_inv_run: "subtask_inv s \<Longrightarrow> subtask_inv (snd (subtask_run as s))"
  by (induction as arbitrary: s) (simp_all add: split_beta subtask_inv_apply)

interpretation subtask_events: event_source subtask_inv subtask_pending_event turbowasm_component_subtask_take_event
proof
  fix s
  assume inv: "subtask_inv s"
  show "fst (turbowasm_component_subtask_take_event s) \<noteq> None \<longleftrightarrow> subtask_pending_event s"
    using inv by (cases "subtask_phase s"; simp add: subtask_inv_def subtask_terminal_def subtask_defs Let_def)
  show "subtask_inv (snd (turbowasm_component_subtask_take_event s))"
    using subtask_inv_apply [OF inv, of SubtaskTake] by (simp add: split_beta)
  show "\<not> subtask_pending_event (snd (turbowasm_component_subtask_take_event s))"
    using inv by (cases "subtask_phase s"; simp add: subtask_inv_def subtask_terminal_def subtask_defs Let_def)
qed (auto simp: turbowasm_component_subtask_take_event_def Let_def split: if_splits)

text \<open>The notifications delivered before a state: at most \<open>STARTED\<close> and then one terminal phase.\<close>

definition subtask_history :: "turbowasm_component_subtask_phase list \<Rightarrow> turbowasm_component_subtask_state \<Rightarrow> bool" where
  "subtask_history es s \<longleftrightarrow>
     (if resolve_delivered s
      then es = [subtask_phase s] \<or>
           es = [SUBTASK_STARTED, subtask_phase s] \<and> subtask_phase s \<noteq> SUBTASK_CANCELLED_BEFORE_STARTED
      else es = [] \<or>
           es = [SUBTASK_STARTED] \<and> subtask_phase s \<noteq> SUBTASK_STARTING \<and>
             subtask_phase s \<noteq> SUBTASK_CANCELLED_BEFORE_STARTED \<and>
             (subtask_phase s = SUBTASK_STARTED \<longrightarrow> \<not> subtask_pending_event s))"

lemma subtask_history_apply:
  assumes "subtask_inv s" and "subtask_history es s" and "subtask_apply a s = (b, e, s')"
  shows "subtask_history (es @ (case e of None \<Rightarrow> [] | Some x \<Rightarrow> [x])) s'"
  using assms
  by (cases a; cases "subtask_phase s";
      auto simp add: subtask_inv_def subtask_history_def subtask_terminal_def subtask_defs Let_def split: if_splits)

lemma subtask_history_run:
  "subtask_inv s \<Longrightarrow> subtask_history es s \<Longrightarrow> subtask_run as s = (fs, s') \<Longrightarrow> subtask_history (es @ fs) s'"
proof (induction as arbitrary: s es fs)
  case Nil
  then show ?case by simp
next
  case (Cons a as)
  obtain b e s1 where a: "subtask_apply a s = (b, e, s1)" by (cases "subtask_apply a s")
  obtain gs where gs: "subtask_run as s1 = (gs, s')" and fs: "fs = (case e of None \<Rightarrow> [] | Some x \<Rightarrow> [x]) @ gs"
    using Cons.prems(3) a by (auto split: prod.splits option.splits)
  have "subtask_inv s1"
    using subtask_inv_apply [OF Cons.prems(1), of a] a by simp
  from Cons.IH [OF this subtask_history_apply [OF Cons.prems(1,2) a] gs] show ?case
    by (simp add: fs)
qed

text \<open>
  C29. Subtask notifications are delivered in order and once. Whatever an owner does to a fresh subtask
  (start, cancel, resolve, publish and take, in any order and number), the phases it has taken are
  at most one \<open>STARTED\<close> followed by at most one terminal phase; a terminal phase has been taken exactly when
  \<open>resolve_delivered\<close> is set, and it is the phase of the subtask; \<open>STARTED\<close> is never reported for a subtask that was
  cancelled before it started.
\<close>

theorem subtask_notifications_once:
  assumes "subtask_run as subtask_init = (es, s)"
  shows "subtask_history es s \<and> (resolve_delivered s \<longleftrightarrow> (\<exists>p \<in> set es. subtask_terminal p))"
proof -
  have h: "subtask_history es s"
    using subtask_history_run [OF subtask_inv_init, of "[]"] assms
    by (simp add: subtask_history_def subtask_init_def)
  have inv: "subtask_inv s"
    using subtask_inv_run [OF subtask_inv_init, of as] assms by simp
  show ?thesis
    using h inv
    by (cases "subtask_phase s"; auto simp: subtask_history_def subtask_inv_def subtask_terminal_def split: if_splits)
qed

theorem subtask_notifications_once_witness:
  "subtask_run [SubtaskStart, SubtaskTake, SubtaskCancel, SubtaskResolve True, SubtaskTake, SubtaskTake] subtask_init =
     ([SUBTASK_STARTED, SUBTASK_CANCELLED_BEFORE_RETURNED],
      \<lparr>subtask_phase = SUBTASK_CANCELLED_BEFORE_RETURNED, cancellation_requested = True,
       subtask_pending_event = False, resolve_delivered = True\<rparr>) \<and>
   subtask_history [SUBTASK_STARTED, SUBTASK_CANCELLED_BEFORE_RETURNED]
      \<lparr>subtask_phase = SUBTASK_CANCELLED_BEFORE_RETURNED, cancellation_requested = True,
       subtask_pending_event = False, resolve_delivered = True\<rparr>"
proof -
  have run: "subtask_run [SubtaskStart, SubtaskTake, SubtaskCancel, SubtaskResolve True, SubtaskTake, SubtaskTake] subtask_init =
     ([SUBTASK_STARTED, SUBTASK_CANCELLED_BEFORE_RETURNED],
      \<lparr>subtask_phase = SUBTASK_CANCELLED_BEFORE_RETURNED, cancellation_requested = True,
       subtask_pending_event = False, resolve_delivered = True\<rparr>)"
    by (simp add: subtask_init_def subtask_defs Let_def)
  with subtask_notifications_once [OF run] show ?thesis by simp
qed

text \<open>
  C30. A terminal event is never lost: in every state reached from a fresh subtask, a resolved subtask whose
  resolution is not yet delivered has its event pending, taking it succeeds with the terminal phase
  and marks it delivered, and no other operation starts or resolves it again or withdraws the event. After the
  delivery every operation is refused, hands out nothing and changes nothing.
\<close>

theorem subtask_terminal_delivery:
  assumes "subtask_run as subtask_init = (es, s)" and "subtask_terminal (subtask_phase s)"
  shows "(\<not> resolve_delivered s \<longrightarrow>
            turbowasm_component_subtask_take_event s =
              (Some (subtask_phase s), s\<lparr>subtask_pending_event := False, resolve_delivered := True\<rparr>) \<and>
            turbowasm_component_subtask_start s = (False, s) \<and> (\<forall>c. turbowasm_component_subtask_resolve s c = (False, s)) \<and>
            turbowasm_component_subtask_request_cancel s = (\<not> cancellation_requested s, s)) \<and>
         (resolve_delivered s \<longrightarrow> (\<forall>a. subtask_apply a s = (False, None, s)))"
proof -
  have inv: "subtask_inv s"
    using subtask_inv_run [OF subtask_inv_init, of as] assms(1) by simp
  have "subtask_apply a s = (False, None, s)" if "resolve_delivered s" for a
    using that inv assms(2)
    by (cases a; cases "subtask_phase s"; simp add: subtask_inv_def subtask_terminal_def subtask_defs)
  moreover have "turbowasm_component_subtask_take_event s =
      (Some (subtask_phase s), s\<lparr>subtask_pending_event := False, resolve_delivered := True\<rparr>)"
    "turbowasm_component_subtask_request_cancel s = (\<not> cancellation_requested s, s)"
    if "\<not> resolve_delivered s"
    using that inv assms(2)
    by (cases "subtask_phase s"; simp add: subtask_inv_def subtask_terminal_def subtask_defs Let_def)+
  moreover have "turbowasm_component_subtask_start s = (False, s)" "\<And>c. turbowasm_component_subtask_resolve s c = (False, s)"
    using assms(2) by (auto simp: subtask_terminal_def subtask_defs)
  ultimately show ?thesis by blast
qed

theorem subtask_terminal_delivery_witness:
  "turbowasm_component_subtask_take_event
     \<lparr>subtask_phase = SUBTASK_RETURNED, cancellation_requested = False,
      subtask_pending_event = True, resolve_delivered = False\<rparr> =
     (Some SUBTASK_RETURNED,
      \<lparr>subtask_phase = SUBTASK_RETURNED, cancellation_requested = False,
       subtask_pending_event = False, resolve_delivered = True\<rparr>) \<and>
   turbowasm_component_subtask_request_cancel
     \<lparr>subtask_phase = SUBTASK_RETURNED, cancellation_requested = False,
      subtask_pending_event = False, resolve_delivered = True\<rparr> =
     (False, \<lparr>subtask_phase = SUBTASK_RETURNED, cancellation_requested = False,
      subtask_pending_event = False, resolve_delivered = True\<rparr>)"
proof -
  have run: "subtask_run [SubtaskStart, SubtaskResolve False] subtask_init =
     ([], \<lparr>subtask_phase = SUBTASK_RETURNED, cancellation_requested = False,
      subtask_pending_event = True, resolve_delivered = False\<rparr>)"
    by (simp add: subtask_init_def subtask_defs Let_def)
  have run': "subtask_run [SubtaskStart, SubtaskResolve False, SubtaskTake] subtask_init =
     ([SUBTASK_RETURNED], \<lparr>subtask_phase = SUBTASK_RETURNED, cancellation_requested = False,
      subtask_pending_event = False, resolve_delivered = True\<rparr>)"
    by (simp add: subtask_init_def subtask_defs Let_def)
  have "subtask_apply SubtaskCancel \<lparr>subtask_phase = SUBTASK_RETURNED, cancellation_requested = False,
      subtask_pending_event = False, resolve_delivered = True\<rparr> = (False, None, \<lparr>subtask_phase = SUBTASK_RETURNED, cancellation_requested = False,
      subtask_pending_event = False, resolve_delivered = True\<rparr>)"
    using subtask_terminal_delivery [OF run'] by (simp add: subtask_terminal_def del: subtask_apply.simps)
  with subtask_terminal_delivery [OF run] show ?thesis
    by (simp add: subtask_terminal_def split: prod.splits)
qed

subsection \<open>The endpoint machine\<close>

datatype endpoint_op = EndpointBegin | EndpointNotify u32 | EndpointCancel bool | EndpointPeerDropped | EndpointTake

definition endpoint_init :: "bool \<Rightarrow> turbowasm_component_endpoint_state" where
  "endpoint_init f = \<lparr>endpoint_phase = ENDPOINT_IDLE, progress = 0, future = f, peer_dropped = False,
     endpoint_pending_event = False\<rparr>"

fun endpoint_apply :: "endpoint_op \<Rightarrow> turbowasm_component_endpoint_state \<Rightarrow> turbowasm_component_endpoint_state" where
  "endpoint_apply EndpointBegin s = snd (turbowasm_component_endpoint_begin_copy s)"
| "endpoint_apply (EndpointNotify n) s = snd (turbowasm_component_endpoint_notify s n)"
| "endpoint_apply (EndpointCancel d) s = snd (turbowasm_component_endpoint_request_cancel s d)"
| "endpoint_apply EndpointPeerDropped s = snd (turbowasm_component_endpoint_peer_dropped s)"
| "endpoint_apply EndpointTake s = snd (turbowasm_component_endpoint_take_event s)"

definition endpoint_run :: "endpoint_op list \<Rightarrow> turbowasm_component_endpoint_state \<Rightarrow> turbowasm_component_endpoint_state" where
  "endpoint_run ops s = fold endpoint_apply ops s"

definition endpoint_inv :: "turbowasm_component_endpoint_state \<Rightarrow> bool" where
  "endpoint_inv s \<longleftrightarrow>
     progress s \<le> COPY_MAX_LENGTH \<and> (future s \<longrightarrow> progress s \<le> 1) \<and>
     (case endpoint_phase s of
        ENDPOINT_IDLE \<Rightarrow> endpoint_pending_event s = peer_dropped s \<and> (peer_dropped s \<longrightarrow> progress s = 0)
      | ENDPOINT_COPYING \<Rightarrow>
          (peer_dropped s \<longrightarrow> endpoint_pending_event s) \<and>
          (future s \<and> endpoint_pending_event s \<longrightarrow> progress s = 1 \<or> peer_dropped s)
      | ENDPOINT_CANCELLING \<Rightarrow> (peer_dropped s \<longrightarrow> endpoint_pending_event s)
      | ENDPOINT_DONE \<Rightarrow> \<not> endpoint_pending_event s)"

lemma endpoint_inv_init: "endpoint_inv (endpoint_init f)"
  by (simp add: endpoint_inv_def endpoint_init_def)

lemma endpoint_inv_apply:
  assumes "endpoint_inv s"
  shows "endpoint_inv (endpoint_apply a s)"
  using assms
  by (cases a; cases "endpoint_phase s"; cases "peer_dropped s"; cases "endpoint_pending_event s"; cases "future s")
     (simp_all add: endpoint_inv_def endpoint_defs not_less word_le_one_cases)

lemma endpoint_inv_run: "endpoint_inv s \<Longrightarrow> endpoint_inv (endpoint_run as s)"
  unfolding endpoint_run_def by (induction as arbitrary: s) (simp_all add: endpoint_inv_apply)

interpretation endpoint_events: event_source endpoint_inv endpoint_pending_event turbowasm_component_endpoint_take_event
proof
  fix s
  assume inv: "endpoint_inv s"
  show "fst (turbowasm_component_endpoint_take_event s) \<noteq> None \<longleftrightarrow> endpoint_pending_event s"
    using inv
    by (cases "endpoint_phase s"; cases "peer_dropped s"; cases "endpoint_pending_event s"; cases "future s")
       (simp_all add: endpoint_inv_def endpoint_defs)
  show "endpoint_inv (snd (turbowasm_component_endpoint_take_event s))"
    using endpoint_inv_apply [OF inv, of EndpointTake] by simp
  show "\<not> endpoint_pending_event (snd (turbowasm_component_endpoint_take_event s))"
    using inv
    by (cases "endpoint_phase s"; cases "peer_dropped s"; cases "endpoint_pending_event s"; cases "future s")
       (simp_all add: endpoint_inv_def endpoint_defs)
qed (auto simp: turbowasm_component_endpoint_take_event_def split: if_splits option.splits)

lemma endpoint_done_absorbing:
  "endpoint_phase s = ENDPOINT_DONE \<Longrightarrow> endpoint_phase (endpoint_apply a s) = ENDPOINT_DONE"
  by (cases a) (simp_all add: endpoint_defs)

lemma copy_result_fields:
  assumes "c < 16" and "p \<le> COPY_MAX_LENGTH"
  shows "(c OR push_bit 4 p) AND 15 = c" and "drop_bit 4 (c OR push_bit 4 p) = p"
proof -
  have b: "unat c < 2 ^ 4" "unat c + 2 ^ 4 * unat p < 2 ^ LENGTH(32)"
    using assms by (simp_all add: word_less_nat_alt word_le_nat_alt)
  have m: "(15 :: u32) = mask 4" by (simp add: mask_eq_exp_minus_1)
  show "(c OR push_bit 4 p) AND 15 = c" and "drop_bit 4 (c OR push_bit 4 p) = p"
    using packed_low [OF b] packed_high [OF b] by (simp_all add: m)
qed

text \<open>
  C31. Every completion of a copy is delivered with the right result. In every state a stream or future end
  reaches from its creation, by any sequence of copies, notifications, cancellations, peer drops and
  deliveries, a pending event can be taken; its low four bits are the outcome by precedence (a
  future that has its value is complete, then a dropped peer, then a cancellation), the upper bits of
  a stream are its progress, undamaged, and those of a future are zero; the end becomes idle again or is done.
\<close>

theorem endpoint_event_delivered:
  assumes "endpoint_run ops (endpoint_init f) = s" and "endpoint_pending_event s"
  shows "\<exists>r s'. turbowasm_component_endpoint_take_event s = (Some r, s') \<and>
     r AND 15 = (if future s \<and> progress s = 1 then COPY_COMPLETED
                 else if peer_dropped s then COPY_DROPPED
                 else if endpoint_phase s = ENDPOINT_CANCELLING then COPY_CANCELLED
                 else COPY_COMPLETED) \<and>
     drop_bit 4 r = (if future s then 0 else progress s) \<and>
     endpoint_phase s' = (if peer_dropped s \<or> (future s \<and> progress s = 1) then ENDPOINT_DONE else ENDPOINT_IDLE) \<and>
     \<not> endpoint_pending_event s'"
proof -
  have inv: "endpoint_inv s"
    using endpoint_inv_run [OF endpoint_inv_init] assms(1) by blast
  obtain r s' where t: "turbowasm_component_endpoint_take_event s = (Some r, s')" and n: "\<not> endpoint_pending_event s'"
    using endpoint_events.take_pending [OF inv assms(2)] by blast
  have p: "progress s \<le> COPY_MAX_LENGTH" using inv by (simp add: endpoint_inv_def)
  obtain c ph where o: "endpoint_outcome s = Some (c, ph)" and c: "c < 16"
    using t by (auto simp: endpoint_defs split: if_splits)
  have r: "r = (if future s then c else c OR push_bit 4 (progress s))" and ph: "endpoint_phase s' = ph"
    using t o by (auto simp: turbowasm_component_endpoint_take_event_def split: if_splits)
  have "r AND 15 = c" and "drop_bit 4 r = (if future s then 0 else progress s)"
    using copy_result_fields [OF c p] copy_result_fields [OF c, of 0] r by auto
  moreover have "c = (if future s \<and> progress s = 1 then COPY_COMPLETED
                 else if peer_dropped s then COPY_DROPPED
                 else if endpoint_phase s = ENDPOINT_CANCELLING then COPY_CANCELLED
                 else COPY_COMPLETED)"
    and "ph = (if peer_dropped s \<or> (future s \<and> progress s = 1) then ENDPOINT_DONE else ENDPOINT_IDLE)"
    using o by (auto simp: endpoint_outcome_def split: if_splits)
  ultimately show ?thesis using t n ph by simp
qed

theorem endpoint_event_delivered_witness:
  "\<exists>r s'. turbowasm_component_endpoint_take_event
       \<lparr>endpoint_phase = ENDPOINT_CANCELLING, progress = 7, future = False, peer_dropped = False,
        endpoint_pending_event = True\<rparr> = (Some r, s') \<and>
     r AND 15 = COPY_CANCELLED \<and> drop_bit 4 r = 7 \<and> endpoint_phase s' = ENDPOINT_IDLE"
proof -
  have run: "endpoint_run [EndpointBegin, EndpointNotify 7, EndpointCancel False] (endpoint_init False) =
      \<lparr>endpoint_phase = ENDPOINT_CANCELLING, progress = 7, future = False, peer_dropped = False,
        endpoint_pending_event = True\<rparr>"
    by (simp add: endpoint_run_def endpoint_init_def endpoint_defs)
  from endpoint_event_delivered [OF run] show ?thesis by auto
qed

text \<open>
  C32. Progress is not lost before delivery. While an event waits, no sequence of further notifications,
  cancellations, copies or peer drops withdraws it or lowers the progress it will report.
\<close>

theorem endpoint_progress_kept:
  assumes "endpoint_run ops (endpoint_init f) = s" and "endpoint_pending_event s" and "EndpointTake \<notin> set later"
  shows "endpoint_pending_event (endpoint_run later s) \<and> progress s \<le> progress (endpoint_run later s)"
proof -
  have step: "endpoint_pending_event (endpoint_apply a t) \<and> progress t \<le> progress (endpoint_apply a t)"
    if "endpoint_inv t" "endpoint_pending_event t" "a \<noteq> EndpointTake" for a t
    using that
    by (cases a; cases "endpoint_phase t"; cases "peer_dropped t")
       (simp_all add: endpoint_inv_def endpoint_defs not_less)
  have "endpoint_inv s"
    using endpoint_inv_run [OF endpoint_inv_init] assms(1) by blast
  with assms(2,3) show ?thesis
    unfolding endpoint_run_def
  proof (induction later arbitrary: s)
    case Nil
    then show ?case by simp
  next
    case (Cons a as)
    then have "endpoint_pending_event (endpoint_apply a s) \<and> progress s \<le> progress (endpoint_apply a s)"
      by (intro step) auto
    with Cons.IH [of "endpoint_apply a s"] Cons.prems endpoint_inv_apply [of s a] show ?case
      by (auto intro: order_trans)
  qed
qed

theorem endpoint_progress_kept_witness:
  "progress (endpoint_run [EndpointPeerDropped, EndpointCancel True, EndpointNotify 2] 
      \<lparr>endpoint_phase = ENDPOINT_COPYING, progress = 7, future = False, peer_dropped = False,
        endpoint_pending_event = True\<rparr>) \<ge> 7"
proof -
  have run: "endpoint_run [EndpointBegin, EndpointNotify 7] (endpoint_init False) =
      \<lparr>endpoint_phase = ENDPOINT_COPYING, progress = 7, future = False, peer_dropped = False,
        endpoint_pending_event = True\<rparr>"
    by (simp add: endpoint_run_def endpoint_init_def endpoint_defs)
  from endpoint_progress_kept [OF run, of "[EndpointPeerDropped, EndpointCancel True, EndpointNotify 2]"]
  show ?thesis by simp
qed

end
