(* ===== verification/TW_Value.thy ===== *)
theory TW_Value
  imports TW_Prelude
begin

text \<open>
  The value carrier of \<^verbatim>\<open>src/include/turbowasm/value.h\<close>. The C struct is a kind tag and a union; here it is a
  datatype with one constructor per tag. Integers are words that signed operations read in two's
  complement, floats are their bit patterns, pointers that only serve as identities are addresses.
  \<open>VALUE_CLEARED\<close> is the value that \<^verbatim>\<open>memset\<close> leaves behind: its tag is zero, which is no value kind.
\<close>

datatype turbowasm_value_kind =
    TURBOWASM_VALUE_I32
  | TURBOWASM_VALUE_I64
  | TURBOWASM_VALUE_F32
  | TURBOWASM_VALUE_F64
  | TURBOWASM_VALUE_V128
  | TURBOWASM_VALUE_FUNCREF
  | TURBOWASM_VALUE_EXTERNREF
  | TURBOWASM_VALUE_GCREF
  | TURBOWASM_VALUE_EXNREF
  | TURBOWASM_VALUE_MANAGED_EXTERNREF

text \<open>The numbers of the enumerators; those below \<^verbatim>\<open>0x100\<close> are the bytes of the binary format.\<close>

fun value_kind_code :: "turbowasm_value_kind \<Rightarrow> nat" where
  "value_kind_code TURBOWASM_VALUE_I32 = 0x7f"
| "value_kind_code TURBOWASM_VALUE_I64 = 0x7e"
| "value_kind_code TURBOWASM_VALUE_F32 = 0x7d"
| "value_kind_code TURBOWASM_VALUE_F64 = 0x7c"
| "value_kind_code TURBOWASM_VALUE_V128 = 0x7b"
| "value_kind_code TURBOWASM_VALUE_FUNCREF = 0x70"
| "value_kind_code TURBOWASM_VALUE_EXTERNREF = 0x6f"
| "value_kind_code TURBOWASM_VALUE_GCREF = 0x6e"
| "value_kind_code TURBOWASM_VALUE_EXNREF = 0x69"
| "value_kind_code TURBOWASM_VALUE_MANAGED_EXTERNREF = 0x100"

datatype turbowasm_v128_shape =
    TURBOWASM_V128_RAW
  | TURBOWASM_V128_I8X16 | TURBOWASM_V128_U8X16
  | TURBOWASM_V128_I16X8 | TURBOWASM_V128_U16X8
  | TURBOWASM_V128_I32X4 | TURBOWASM_V128_U32X4
  | TURBOWASM_V128_I64X2 | TURBOWASM_V128_U64X2
  | TURBOWASM_V128_F32X4 | TURBOWASM_V128_F64X2
  | TURBOWASM_V128_B8X16 | TURBOWASM_V128_B16X8
  | TURBOWASM_V128_B32X4 | TURBOWASM_V128_B64X2

record turbowasm_v128 =
  v128_bits :: "128 word"
  v128_shape :: turbowasm_v128_shape

record turbowasm_funcref =
  funcref_is_null :: bool
  function_index :: u32
  funcref_owner :: "addr option"

record turbowasm_externref =
  externref_is_null :: bool
  externref_token :: u64

record turbowasm_exnref =
  exnref_is_null :: bool
  exnref_exception :: "addr option"

record turbowasm_gcref =
  gcref_store :: "addr option"
  gcref_handle :: u64

datatype turbowasm_value =
    VALUE_CLEARED
  | VALUE_I32 u32
  | VALUE_I64 u64
  | VALUE_F32 u32
  | VALUE_F64 u64
  | VALUE_V128 turbowasm_v128
  | VALUE_FUNCREF turbowasm_funcref
  | VALUE_EXTERNREF turbowasm_externref
  | VALUE_GCREF turbowasm_gcref
  | VALUE_EXNREF turbowasm_exnref
  | VALUE_MANAGED_EXTERNREF turbowasm_gcref

fun value_kind :: "turbowasm_value \<Rightarrow> turbowasm_value_kind option" where
  "value_kind VALUE_CLEARED = None"
| "value_kind (VALUE_I32 _) = Some TURBOWASM_VALUE_I32"
| "value_kind (VALUE_I64 _) = Some TURBOWASM_VALUE_I64"
| "value_kind (VALUE_F32 _) = Some TURBOWASM_VALUE_F32"
| "value_kind (VALUE_F64 _) = Some TURBOWASM_VALUE_F64"
| "value_kind (VALUE_V128 _) = Some TURBOWASM_VALUE_V128"
| "value_kind (VALUE_FUNCREF _) = Some TURBOWASM_VALUE_FUNCREF"
| "value_kind (VALUE_EXTERNREF _) = Some TURBOWASM_VALUE_EXTERNREF"
| "value_kind (VALUE_GCREF _) = Some TURBOWASM_VALUE_GCREF"
| "value_kind (VALUE_EXNREF _) = Some TURBOWASM_VALUE_EXNREF"
| "value_kind (VALUE_MANAGED_EXTERNREF _) = Some TURBOWASM_VALUE_MANAGED_EXTERNREF"

end
