(* ===== verification/TW_Resource.thy ===== *)
theory TW_Resource
  imports TW_Value
begin

text \<open>
  The handle table of \<^verbatim>\<open>src/src/component_resource.c\<close>, shared by resources, waitable sets, subtasks and the
  ends of streams and futures. A handle packs a slot and the generation of the slot; removing an
  entry advances the generation, and a slot whose generations are used up is retired.

  The entry array is a list whose length is the capacity field. A pointer to an entry is its index.
  Borrow scopes are counters of tasks that entries point to; they live in a store \<open>scopes\<close> indexed by address
  and are passed along with the table. Whether the allocator grants a table of a given number of entries is
  the parameter \<open>grant\<close> (it also stands for the overflow test on the byte size); a destructor is an optional function.

  The lemmas give the invariant of the table, the abstract map from handles to entries that each
  operation changes, that a handle is never issued twice nor resolves after its removal, that a lent
  resource stays, and that borrow-scope counters agree with the entries that claim them.
\<close>

subsection \<open>Handles\<close>

type_synonym turbowasm_component_resource_handle = u32

abbreviation RESOURCE_MAX_SLOTS :: u32 where "RESOURCE_MAX_SLOTS \<equiv> 65535"
abbreviation RESOURCE_MAX_GENERATION :: u32 where "RESOURCE_MAX_GENERATION \<equiv> 4095"
abbreviation RESOURCE_MAX_HANDLE :: u32 where "RESOURCE_MAX_HANDLE \<equiv> 0x0fffffff"
abbreviation RESOURCE_SLOT_MASK :: u32 where "RESOURCE_SLOT_MASK \<equiv> 0xffff"

datatype turbowasm_component_handle_kind =
    HANDLE_RESOURCE
  | HANDLE_WAITABLE_SET
  | HANDLE_SUBTASK
  | HANDLE_STREAM_READ
  | HANDLE_STREAM_WRITE
  | HANDLE_FUTURE_READ
  | HANDLE_FUTURE_WRITE
  | HANDLE_RESOURCE_RESERVATION
  | HANDLE_INVALID

text \<open>The range test \<^verbatim>\<open>RESOURCE < kind < INVALID\<close> of the sources.\<close>

definition private_kind :: "turbowasm_component_handle_kind \<Rightarrow> bool" where
  "private_kind k \<longleftrightarrow> k \<noteq> HANDLE_RESOURCE \<and> k \<noteq> HANDLE_INVALID"

record turbowasm_component_resource_entry =
  entry_kind :: turbowasm_component_handle_kind
  entry_object :: "addr option"
  resource_identity :: u64
  entry_rep :: turbowasm_value
  generation :: u32
  lend_count :: u32
  borrow_scope :: "addr option"
  occupied :: bool
  retired :: bool
  owned :: bool

definition zero_entry :: turbowasm_component_resource_entry where
  "zero_entry = \<lparr>entry_kind = HANDLE_RESOURCE, entry_object = None, resource_identity = 0,
     entry_rep = VALUE_CLEARED, generation = 0, lend_count = 0, borrow_scope = None,
     occupied = False, retired = False, owned = False\<rparr>"

record turbowasm_component_resource_table =
  entries :: "turbowasm_component_resource_entry list"
  live_count :: u32
  max_entries :: u32

abbreviation capacity :: "turbowasm_component_resource_table \<Rightarrow> nat" where
  "capacity t \<equiv> length (entries t)"

type_synonym scopes = "addr \<Rightarrow> u32"

definition zero_table :: turbowasm_component_resource_table where
  "zero_table = \<lparr>entries = [], live_count = 0, max_entries = 0\<rparr>"

definition handle_decode :: "turbowasm_component_resource_handle \<Rightarrow> (nat \<times> u32) option" where
  "handle_decode h =
     (if h = 0 \<or> h > RESOURCE_MAX_HANDLE then None
      else
        let slot = h AND RESOURCE_SLOT_MASK; gen = drop_bit 16 h in
        if slot = 0 \<or> gen = 0 \<or> gen > RESOURCE_MAX_GENERATION then None
        else Some (unat (slot - 1), gen))"

definition handle_encode :: "u32 \<Rightarrow> u32 \<Rightarrow> turbowasm_component_resource_handle" where
  "handle_encode index gen =
     (let slot = index + 1 in
      if slot = 0 \<or> slot > RESOURCE_SLOT_MASK \<or> gen = 0 \<or> gen > RESOURCE_MAX_GENERATION then 0
      else push_bit 16 gen OR slot)"

definition entry_get ::
    "turbowasm_component_resource_table \<Rightarrow> turbowasm_component_resource_handle \<Rightarrow> nat option" where
  "entry_get t h =
     (case handle_decode h of
        None \<Rightarrow> None
      | Some (index, gen) \<Rightarrow>
          if index \<ge> capacity t then None
          else if \<not> occupied (entries t ! index) \<or> generation (entries t ! index) \<noteq> gen then None
          else Some index)"

text \<open>An assignment to fields of the entry a pointer designates.\<close>

definition entry_update ::
    "nat \<Rightarrow> (turbowasm_component_resource_entry \<Rightarrow> turbowasm_component_resource_entry) \<Rightarrow>
     turbowasm_component_resource_table \<Rightarrow> turbowasm_component_resource_table" where
  "entry_update i f t = t\<lparr>entries := (entries t)[i := f (entries t ! i)]\<rparr>"

subsection \<open>Allocation\<close>

definition table_grow ::
    "(nat \<Rightarrow> bool) \<Rightarrow> turbowasm_component_resource_table \<Rightarrow> turbowasm_component_resource_table option" where
  "table_grow grant t =
     (if capacity t \<ge> unat (max_entries t) then None
      else
        let next0 = (if capacity t = 0 then 8 else (capacity t * 2) mod 2 ^ 32);
            next1 = (if next0 < capacity t \<or> next0 > unat (max_entries t) then unat (max_entries t) else next0)
        in
        if \<not> grant next1 then None
        else Some (t\<lparr>entries := entries t @ replicate (next1 - capacity t) zero_entry\<rparr>))"

definition turbowasm_component_resource_table_init ::
    "turbowasm_component_resource_table \<Rightarrow> u32 \<Rightarrow> bool \<times> turbowasm_component_resource_table" where
  "turbowasm_component_resource_table_init t limit =
     (if entries t \<noteq> [] \<or> live_count t \<noteq> 0 \<or> max_entries t \<noteq> 0 then (False, t)
      else
        let limit1 = (if limit = 0 then RESOURCE_MAX_SLOTS else limit) in
        if limit1 > RESOURCE_MAX_SLOTS then (False, t)
        else (True, t\<lparr>max_entries := limit1\<rparr>))"

definition turbowasm_component_resource_table_destroy ::
    "turbowasm_component_resource_table \<Rightarrow> turbowasm_component_resource_table" where
  "turbowasm_component_resource_table_destroy t = zero_table"

fun find_free :: "turbowasm_component_resource_entry list \<Rightarrow> nat option" where
  "find_free [] = None"
| "find_free (e # es) =
     (if \<not> occupied e \<and> \<not> retired e then Some 0 else map_option Suc (find_free es))"

lemma table_grow_Some:
  assumes "table_grow grant t = Some t'"
  shows "capacity t < capacity t' \<and> capacity t' \<le> unat (max_entries t) \<and> max_entries t' = max_entries t \<and>
    live_count t' = live_count t \<and>
    entries t' = entries t @ replicate (capacity t' - capacity t) zero_entry"
proof -
  have c: "capacity t < unat (max_entries t)"
    using assms by (auto simp: table_grow_def split: if_splits)
  have m: "unat (max_entries t) < 2 ^ 32"
    using unsigned_less [of "max_entries t"] by simp
  define next0 where "next0 = (if capacity t = 0 then 8 else (capacity t * 2) mod 2 ^ 32)"
  define next1 where "next1 = (if next0 < capacity t \<or> next0 > unat (max_entries t) then unat (max_entries t) else next0)"
  have t': "t' = t\<lparr>entries := entries t @ replicate (next1 - capacity t) zero_entry\<rparr>"
    using assms c by (auto simp: table_grow_def Let_def next0_def next1_def split: if_splits)
  have "next0 \<noteq> capacity t"
  proof (cases "capacity t * 2 < 2 ^ 32")
    case True
    then show ?thesis by (simp add: next0_def)
  next
    case False
    then have "(capacity t * 2) mod 2 ^ 32 = capacity t * 2 - 2 ^ 32"
      using c m by (simp add: mod_if)
    moreover have "capacity t * 2 - 2 ^ 32 \<noteq> capacity t" using c m False by linarith
    ultimately show ?thesis using False by (auto simp: next0_def)
  qed
  then have "capacity t < next1" and "next1 \<le> unat (max_entries t)"
    using c by (auto simp: next1_def)
  then show ?thesis by (simp add: t')
qed

text \<open>The search loop: scan, and on failure grow and scan again.\<close>

function entry_find ::
    "(nat \<Rightarrow> bool) \<Rightarrow> turbowasm_component_resource_table \<Rightarrow> nat option \<times> turbowasm_component_resource_table" where
  "entry_find grant t =
     (case find_free (entries t) of
        Some i \<Rightarrow> (Some i, t)
      | None \<Rightarrow>
          (case table_grow grant t of
             None \<Rightarrow> (None, t)
           | Some t' \<Rightarrow> entry_find grant t'))"
  by auto
termination
proof (relation "measure (\<lambda>(grant, t). unat (max_entries t) - capacity t)")
  fix grant t t'
  assume "table_grow grant t = Some t'"
  then show "((grant, t'), grant, t) \<in> measure (\<lambda>(grant, t). unat (max_entries t) - capacity t)"
    using table_grow_Some [of grant t t'] by auto
qed simp

declare entry_find.simps [simp del]

text \<open>
  The result is the status, the stores to \<^verbatim>\<open>out_handle\<close> and \<^verbatim>\<open>out_entry\<close> (\<open>None\<close> where there is none) and the table; the entry
  is stored exactly when the status is \<open>TURBOWASM_OK\<close>.
\<close>

definition entry_allocate ::
    "(nat \<Rightarrow> bool) \<Rightarrow> turbowasm_component_resource_table \<Rightarrow>
     turbowasm_status \<times> turbowasm_component_resource_handle option \<times> nat option \<times> turbowasm_component_resource_table" where
  "entry_allocate grant t =
     (if max_entries t = 0 then (TURBOWASM_INVALID_ARGUMENT, None, None, t)
      else case entry_find grant t of
        (None, t1) \<Rightarrow> (TURBOWASM_OUT_OF_MEMORY, None, None, t1)
      | (Some index, t1) \<Rightarrow>
          let t2 = (if generation (entries t1 ! index) = 0 then entry_update index (\<lambda>e. e\<lparr>generation := 1\<rparr>) t1 else t1);
              t3 = (entry_update index (\<lambda>e. e\<lparr>occupied := True\<rparr>) t2)\<lparr>live_count := live_count t2 + 1\<rparr>;
              h = handle_encode (of_nat index) (generation (entries t3 ! index))
          in
          if h = 0 then
            (TURBOWASM_INVALID_ARGUMENT, Some h, None,
             (entry_update index (\<lambda>e. e\<lparr>occupied := False, owned := False\<rparr>) t3)\<lparr>live_count := live_count t3 - 1\<rparr>)
          else (TURBOWASM_OK, Some h, Some index, t3))"

definition resource_new ::
    "(nat \<Rightarrow> bool) \<Rightarrow> turbowasm_component_resource_table \<Rightarrow> u64 \<Rightarrow> turbowasm_value \<Rightarrow> bool \<Rightarrow>
     turbowasm_status \<times> turbowasm_component_resource_handle option \<times> turbowasm_component_resource_table" where
  "resource_new grant t identity rep own =
     (if identity = 0 then (TURBOWASM_INVALID_ARGUMENT, None, t)
      else case entry_allocate grant t of
        (status, h, None, t1) \<Rightarrow> (status, h, t1)
      | (status, h, Some i, t1) \<Rightarrow>
          (status, h,
           entry_update i (\<lambda>e. e\<lparr>entry_kind := HANDLE_RESOURCE, resource_identity := identity,
             entry_rep := rep, owned := own\<rparr>) t1))"

definition turbowasm_component_handle_insert ::
    "(nat \<Rightarrow> bool) \<Rightarrow> turbowasm_component_resource_table \<Rightarrow> turbowasm_component_handle_kind \<Rightarrow> addr option \<Rightarrow>
     turbowasm_status \<times> turbowasm_component_resource_handle option \<times> turbowasm_component_resource_table" where
  "turbowasm_component_handle_insert grant t kind object =
     (if \<not> private_kind kind \<or> object = None then (TURBOWASM_INVALID_ARGUMENT, None, t)
      else case entry_allocate grant t of
        (status, h, None, t1) \<Rightarrow> (status, h, t1)
      | (status, h, Some i, t1) \<Rightarrow>
          (status, h, entry_update i (\<lambda>e. e\<lparr>entry_kind := kind, entry_object := object\<rparr>) t1))"

definition turbowasm_component_resource_new_owned where
  "turbowasm_component_resource_new_owned grant t identity rep = resource_new grant t identity rep True"

definition turbowasm_component_resource_new_borrowed where
  "turbowasm_component_resource_new_borrowed grant t identity rep = resource_new grant t identity rep False"

subsection \<open>Lookups\<close>

definition turbowasm_component_handle_kind_get ::
    "turbowasm_component_resource_table \<Rightarrow> turbowasm_component_resource_handle \<Rightarrow> turbowasm_component_handle_kind" where
  "turbowasm_component_handle_kind_get t h =
     (case entry_get t h of None \<Rightarrow> HANDLE_INVALID | Some i \<Rightarrow> entry_kind (entries t ! i))"

definition turbowasm_component_handle_object ::
    "turbowasm_component_resource_table \<Rightarrow> turbowasm_component_resource_handle \<Rightarrow>
     turbowasm_component_handle_kind \<Rightarrow> addr option" where
  "turbowasm_component_handle_object t h kind =
     (case entry_get t h of
        None \<Rightarrow> None
      | Some i \<Rightarrow>
          if entry_kind (entries t ! i) \<noteq> kind \<or> \<not> private_kind kind then None
          else entry_object (entries t ! i))"

definition turbowasm_component_handle_at ::
    "turbowasm_component_resource_table \<Rightarrow> nat \<Rightarrow>
     (turbowasm_component_resource_handle \<times> turbowasm_component_handle_kind \<times> addr option) option" where
  "turbowasm_component_handle_at t index =
     (if index \<ge> capacity t then None
      else if \<not> occupied (entries t ! index) then None
      else Some (handle_encode (of_nat index) (generation (entries t ! index)),
                 entry_kind (entries t ! index), entry_object (entries t ! index)))"

definition turbowasm_component_resource_rep ::
    "turbowasm_component_resource_table \<Rightarrow> turbowasm_component_resource_handle \<Rightarrow> u64 \<Rightarrow>
     turbowasm_status \<times> turbowasm_value option" where
  "turbowasm_component_resource_rep t h identity =
     (if identity = 0 then (TURBOWASM_INVALID_ARGUMENT, None)
      else case entry_get t h of
        None \<Rightarrow> (TURBOWASM_TRAPPED, None)
      | Some i \<Rightarrow>
          if entry_kind (entries t ! i) \<noteq> HANDLE_RESOURCE then (TURBOWASM_TRAPPED, None)
          else if resource_identity (entries t ! i) \<noteq> identity then (TURBOWASM_TRAPPED, None)
          else (TURBOWASM_OK, Some (entry_rep (entries t ! i))))"

subsection \<open>Publication and lending\<close>

definition turbowasm_component_resource_publish ::
    "turbowasm_component_resource_table \<Rightarrow> turbowasm_component_resource_handle \<Rightarrow> addr option \<Rightarrow> u64 \<Rightarrow>
     turbowasm_value \<Rightarrow> turbowasm_status \<times> turbowasm_component_resource_table" where
  "turbowasm_component_resource_publish t h reservation identity rep =
     (if reservation = None \<or> identity = 0 \<or>
         (value_kind rep \<noteq> Some TURBOWASM_VALUE_I32 \<and> value_kind rep \<noteq> Some TURBOWASM_VALUE_I64)
      then (TURBOWASM_INVALID_ARGUMENT, t)
      else case entry_get t h of
        None \<Rightarrow> (TURBOWASM_TRAPPED, t)
      | Some i \<Rightarrow>
          if entry_kind (entries t ! i) \<noteq> HANDLE_RESOURCE_RESERVATION \<or> entry_object (entries t ! i) \<noteq> reservation
          then (TURBOWASM_TRAPPED, t)
          else
            (TURBOWASM_OK,
             entry_update i (\<lambda>e. e\<lparr>entry_kind := HANDLE_RESOURCE, entry_object := None,
               resource_identity := identity, entry_rep := rep, owned := True\<rparr>) t))"

definition turbowasm_component_resource_publish_borrowed ::
    "turbowasm_component_resource_table \<Rightarrow> scopes \<Rightarrow> turbowasm_component_resource_handle \<Rightarrow> addr option \<Rightarrow> u64 \<Rightarrow>
     turbowasm_value \<Rightarrow> addr option \<Rightarrow> turbowasm_status \<times> turbowasm_component_resource_table \<times> scopes" where
  "turbowasm_component_resource_publish_borrowed t sc h reservation identity rep scope =
     (case scope of
        None \<Rightarrow> (TURBOWASM_INVALID_ARGUMENT, t, sc)
      | Some p \<Rightarrow>
          if sc p = U32_MAX then (TURBOWASM_OUT_OF_MEMORY, t, sc)
          else case turbowasm_component_resource_publish t h reservation identity rep of (status, t1) \<Rightarrow>
            if status \<noteq> TURBOWASM_OK then (status, t1, sc)
            else case entry_get t1 h of
              None \<Rightarrow> (TURBOWASM_OK, t1, sc)
            | Some i \<Rightarrow>
                (TURBOWASM_OK, entry_update i (\<lambda>e. e\<lparr>owned := False, borrow_scope := Some p\<rparr>) t1,
                 sc(p := sc p + 1)))"

definition turbowasm_component_resource_lend_acquire ::
    "turbowasm_component_resource_table \<Rightarrow> turbowasm_component_resource_handle \<Rightarrow> u64 \<Rightarrow>
     turbowasm_status \<times> turbowasm_component_resource_table" where
  "turbowasm_component_resource_lend_acquire t h identity =
     (if identity = 0 then (TURBOWASM_INVALID_ARGUMENT, t)
      else case entry_get t h of
        None \<Rightarrow> (TURBOWASM_TRAPPED, t)
      | Some i \<Rightarrow>
          if entry_kind (entries t ! i) \<noteq> HANDLE_RESOURCE \<or> resource_identity (entries t ! i) \<noteq> identity
          then (TURBOWASM_TRAPPED, t)
          else if lend_count (entries t ! i) = U32_MAX then (TURBOWASM_TRAPPED, t)
          else (TURBOWASM_OK, entry_update i (\<lambda>e. e\<lparr>lend_count := lend_count e + 1\<rparr>) t))"

definition turbowasm_component_resource_lend_release ::
    "turbowasm_component_resource_table \<Rightarrow> turbowasm_component_resource_handle \<Rightarrow> u64 \<Rightarrow>
     turbowasm_status \<times> turbowasm_component_resource_table" where
  "turbowasm_component_resource_lend_release t h identity =
     (if identity = 0 then (TURBOWASM_INVALID_ARGUMENT, t)
      else case entry_get t h of
        None \<Rightarrow> (TURBOWASM_TRAPPED, t)
      | Some i \<Rightarrow>
          if entry_kind (entries t ! i) \<noteq> HANDLE_RESOURCE \<or> resource_identity (entries t ! i) \<noteq> identity \<or>
             lend_count (entries t ! i) = 0
          then (TURBOWASM_TRAPPED, t)
          else (TURBOWASM_OK, entry_update i (\<lambda>e. e\<lparr>lend_count := lend_count e - 1\<rparr>) t))"

subsection \<open>Removal\<close>

definition resource_entry_remove ::
    "turbowasm_component_resource_table \<Rightarrow> scopes \<Rightarrow> nat \<Rightarrow> turbowasm_component_resource_table \<times> scopes" where
  "resource_entry_remove t sc i =
     (let sc1 = (case borrow_scope (entries t ! i) of None \<Rightarrow> sc | Some p \<Rightarrow> sc(p := sc p - 1));
          t1 = entry_update i (\<lambda>e. e\<lparr>borrow_scope := None, occupied := False, entry_kind := HANDLE_RESOURCE,
                 entry_object := None, resource_identity := 0, entry_rep := VALUE_CLEARED,
                 lend_count := 0, owned := False\<rparr>) t;
          t2 = (if live_count t1 \<noteq> 0 then t1\<lparr>live_count := live_count t1 - 1\<rparr> else t1);
          t3 = (if generation (entries t2 ! i) = RESOURCE_MAX_GENERATION
                then entry_update i (\<lambda>e. e\<lparr>retired := True\<rparr>) t2
                else entry_update i (\<lambda>e. e\<lparr>generation := generation e + 1\<rparr>) t2)
      in (t3, sc1))"

text \<open>The first loop of \<^verbatim>\<open>scope_clear\<close>: the number of claims on a scope, or \<open>None\<close> when one of them cannot be cleared.\<close>

fun scope_count :: "addr \<Rightarrow> turbowasm_component_resource_entry list \<Rightarrow> u32 \<Rightarrow> u32 option" where
  "scope_count p [] n = Some n"
| "scope_count p (e # es) n =
     (if \<not> occupied e \<or> borrow_scope e \<noteq> Some p then scope_count p es n
      else if entry_kind e \<noteq> HANDLE_RESOURCE \<or> owned e \<or> lend_count e \<noteq> 0 then None
      else scope_count p es (n + 1))"

text \<open>One step of the second loop.\<close>

definition scope_clear_step ::
    "addr \<Rightarrow> nat \<Rightarrow> turbowasm_component_resource_table \<times> scopes \<Rightarrow> turbowasm_component_resource_table \<times> scopes" where
  "scope_clear_step p i ts =
     (case ts of (t, sc) \<Rightarrow>
        if occupied (entries t ! i) \<and> borrow_scope (entries t ! i) = Some p
        then resource_entry_remove t sc i else (t, sc))"

definition turbowasm_component_resource_scope_clear ::
    "turbowasm_component_resource_table \<Rightarrow> scopes \<Rightarrow> addr option \<Rightarrow>
     turbowasm_status \<times> turbowasm_component_resource_table \<times> scopes" where
  "turbowasm_component_resource_scope_clear t sc scope =
     (case scope of
        None \<Rightarrow> (TURBOWASM_INVALID_ARGUMENT, t, sc)
      | Some p \<Rightarrow>
          (case scope_count p (entries t) 0 of
             None \<Rightarrow> (TURBOWASM_TRAPPED, t, sc)
           | Some n \<Rightarrow>
               if n > sc p then (TURBOWASM_TRAPPED, t, sc)
               else (TURBOWASM_OK, fold (scope_clear_step p) [0..<capacity t] (t, sc))))"

definition turbowasm_component_handle_remove ::
    "turbowasm_component_resource_table \<Rightarrow> scopes \<Rightarrow> turbowasm_component_resource_handle \<Rightarrow>
     turbowasm_component_handle_kind \<Rightarrow>
     turbowasm_status \<times> addr option \<times> turbowasm_component_resource_table \<times> scopes" where
  "turbowasm_component_handle_remove t sc h kind =
     (if \<not> private_kind kind then (TURBOWASM_INVALID_ARGUMENT, None, t, sc)
      else case entry_get t h of
        None \<Rightarrow> (TURBOWASM_TRAPPED, None, t, sc)
      | Some i \<Rightarrow>
          if entry_kind (entries t ! i) \<noteq> kind then (TURBOWASM_TRAPPED, None, t, sc)
          else (TURBOWASM_OK, entry_object (entries t ! i), resource_entry_remove t sc i))"

definition turbowasm_component_resource_take_owned ::
    "turbowasm_component_resource_table \<Rightarrow> scopes \<Rightarrow> turbowasm_component_resource_handle \<Rightarrow> u64 \<Rightarrow>
     turbowasm_status \<times> turbowasm_value option \<times> turbowasm_component_resource_table \<times> scopes" where
  "turbowasm_component_resource_take_owned t sc h identity =
     (if identity = 0 then (TURBOWASM_INVALID_ARGUMENT, None, t, sc)
      else case entry_get t h of
        None \<Rightarrow> (TURBOWASM_TRAPPED, None, t, sc)
      | Some i \<Rightarrow>
          if entry_kind (entries t ! i) \<noteq> HANDLE_RESOURCE \<or> resource_identity (entries t ! i) \<noteq> identity \<or>
             \<not> owned (entries t ! i) \<or> lend_count (entries t ! i) \<noteq> 0
          then (TURBOWASM_TRAPPED, None, t, sc)
          else (TURBOWASM_OK, Some (entry_rep (entries t ! i)), resource_entry_remove t sc i))"

text \<open>
  The destructor runs after the entry is gone; its status is the status of the drop. The second
  component records the call that was made.
\<close>

definition turbowasm_component_resource_drop ::
    "turbowasm_component_resource_table \<Rightarrow> scopes \<Rightarrow> turbowasm_component_resource_handle \<Rightarrow> u64 \<Rightarrow>
     (u64 \<Rightarrow> turbowasm_value \<Rightarrow> turbowasm_status) option \<Rightarrow>
     turbowasm_status \<times> (u64 \<times> turbowasm_value) option \<times> turbowasm_component_resource_table \<times> scopes" where
  "turbowasm_component_resource_drop t sc h identity destructor =
     (if identity = 0 then (TURBOWASM_INVALID_ARGUMENT, None, t, sc)
      else case entry_get t h of
        None \<Rightarrow> (TURBOWASM_TRAPPED, None, t, sc)
      | Some i \<Rightarrow>
          let e = entries t ! i in
          if entry_kind e \<noteq> HANDLE_RESOURCE \<or> resource_identity e \<noteq> identity \<or> lend_count e \<noteq> 0
          then (TURBOWASM_TRAPPED, None, t, sc)
          else if (case borrow_scope e of None \<Rightarrow> False | Some p \<Rightarrow> sc p = 0) then (TURBOWASM_TRAPPED, None, t, sc)
          else
            let ts = resource_entry_remove t sc i in
            (case destructor of
               Some dtor \<Rightarrow>
                 if owned e then (dtor identity (entry_rep e), Some (identity, entry_rep e), ts)
                 else (TURBOWASM_OK, None, ts)
             | None \<Rightarrow> (TURBOWASM_OK, None, ts)))"

subsection \<open>Handles and slots\<close>

lemma handle_encode_unat:
  assumes "i < 65535" and "g \<noteq> 0" and "g \<le> RESOURCE_MAX_GENERATION"
  shows "unat (handle_encode (of_nat i) g) = Suc i + 65536 * unat g"
proof -
  define slot :: u32 where "slot = of_nat i + 1"
  have s: "unat slot = Suc i"
    using assms(1) unat_plus_one [of "of_nat i :: u32"] by (simp add: slot_def unat_of_nat)
  have g: "unat g \<le> 4095" using assms(3) by (simp add: word_le_nat_alt)
  have "slot \<noteq> 0" using s by auto
  moreover have "\<not> slot > RESOURCE_SLOT_MASK" using s assms(1) by (simp add: word_less_nat_alt)
  ultimately have "handle_encode (of_nat i) g = push_bit 16 g OR slot"
    using assms(2,3) unfolding handle_encode_def Let_def slot_def [symmetric] by (simp only: not_less [symmetric] if_False simp_thms)
  also have "\<dots> = slot OR push_bit 16 g" by (rule or.commute)
  finally show ?thesis
    using unat_or_push_bit [of slot 16 g] s g assms(1) by simp
qed

lemma handle_decode_encode:
  assumes "i < 65535" and "g \<noteq> 0" and "g \<le> RESOURCE_MAX_GENERATION"
  shows "handle_decode (handle_encode (of_nat i) g) = Some (i, g)"
proof -
  define h where "h = handle_encode (of_nat i) g"
  have u: "unat h = Suc i + 65536 * unat g" by (simp add: h_def handle_encode_unat [OF assms])
  have g: "unat g \<le> 4095" using assms(3) by (simp add: word_le_nat_alt)
  have mask: "(0xffff :: u32) = mask 16" by (simp add: mask_eq_exp_minus_1)
  have hi: "unat (drop_bit 16 h) = unat g"
    using assms(1) by (simp add: unat_drop_bit_eq u drop_bit_eq_div [of 16 "Suc (i + 65536 * unat g)"])
  have lo: "unat (h AND 0xffff) = Suc i"
    using word_split_at [of h 16] hi u by (simp add: mask)
  have gen: "drop_bit 16 h = g" using hi by (simp only: word_unat_eq_iff)
  have slot: "h AND 0xffff \<noteq> 0" using lo by auto
  then have idx: "unat ((h AND 0xffff) - 1) = i" using lo by (simp add: unat_minus_one)
  have "h \<noteq> 0" using u by auto
  moreover have "\<not> h > RESOURCE_MAX_HANDLE" using u g assms(1) by (simp add: word_less_nat_alt)
  ultimately have "handle_decode h = Some (i, g)"
    using assms gen slot idx by (simp add: handle_decode_def Let_def not_less)
  then show ?thesis by (simp add: h_def)
qed

lemma handle_decode_Some:
  assumes "handle_decode h = Some (i, g)"
  shows "i < 65535 \<and> g \<noteq> 0 \<and> g \<le> RESOURCE_MAX_GENERATION \<and> h = handle_encode (of_nat i) g"
proof -
  have mask: "(0xffff :: u32) = mask 16" by (simp add: mask_eq_exp_minus_1)
  have g: "g = drop_bit 16 h" "g \<noteq> 0" "g \<le> RESOURCE_MAX_GENERATION" and s: "h AND 0xffff \<noteq> 0"
    and i: "i = unat ((h AND 0xffff) - 1)"
    using assms by (auto simp: handle_decode_def Let_def not_less split: if_splits)
  have lo: "unat (h AND 0xffff) = Suc i"
  proof -
    have "unat (h AND 0xffff) \<noteq> 0" using s by (simp add: unat_eq_0)
    then show ?thesis using i s by (simp add: unat_minus_one)
  qed
  have "unat (h AND 0xffff) = unat h mod 2 ^ 16"
    unfolding mask by (simp only: take_bit_eq_mask [symmetric] unsigned_take_bit_eq) (simp add: take_bit_eq_mod)
  then have "unat (h AND 0xffff) < 2 ^ 16" by simp
  then have b: "i < 65535" using lo by simp
  have "unat h = Suc i + 65536 * unat g"
    using word_split_at [of h 16] lo g(1) by (simp add: mask)
  then have "unat h = unat (handle_encode (of_nat i) g)"
    by (simp add: handle_encode_unat [OF b g(2,3)])
  then have "h = handle_encode (of_nat i) g" by (simp only: word_unat_eq_iff)
  then show ?thesis using b g by simp
qed

lemma handle_decode_iff:
  "handle_decode h = Some (i, g) \<longleftrightarrow>
     i < 65535 \<and> g \<noteq> 0 \<and> g \<le> RESOURCE_MAX_GENERATION \<and> h = handle_encode (of_nat i) g"
proof
  assume "handle_decode h = Some (i, g)"
  then show "i < 65535 \<and> g \<noteq> 0 \<and> g \<le> RESOURCE_MAX_GENERATION \<and> h = handle_encode (of_nat i) g"
    by (rule handle_decode_Some)
next
  assume "i < 65535 \<and> g \<noteq> 0 \<and> g \<le> RESOURCE_MAX_GENERATION \<and> h = handle_encode (of_nat i) g"
  then show "handle_decode h = Some (i, g)"
    using handle_decode_encode by blast
qed

lemma handle_encode_nonzero:
  assumes "i < 65535" and "g \<noteq> 0" and "g \<le> RESOURCE_MAX_GENERATION"
  shows "handle_encode (of_nat i) g \<noteq> 0"
proof
  assume "handle_encode (of_nat i) g = 0"
  with handle_encode_unat [OF assms] show False by simp
qed

lemma handle_encode_inject:
  assumes "i < 65535" "g \<noteq> 0" "g \<le> RESOURCE_MAX_GENERATION" "j < 65535" "k \<noteq> 0" "k \<le> RESOURCE_MAX_GENERATION"
  shows "handle_encode (of_nat i) g = handle_encode (of_nat j) k \<longleftrightarrow> i = j \<and> g = k"
proof
  assume "handle_encode (of_nat i) g = handle_encode (of_nat j) k"
  with handle_decode_encode [OF assms(1-3)] handle_decode_encode [OF assms(4-6)]
  have "Some (i, g) = Some (j, k)" by (simp only:)
  then show "i = j \<and> g = k" by simp
qed simp

subsection \<open>The invariant\<close>

text \<open>
  Generations stay in the range a handle can hold, a retired slot has used all of them, a free slot
  holds nothing, a private entry has an object and is neither lent, owned nor in a borrow scope, an
  entry in a borrow scope is not owned, and the live count is the number of occupied slots.
\<close>

definition wf_entry :: "turbowasm_component_resource_entry \<Rightarrow> bool" where
  "wf_entry e \<longleftrightarrow>
     generation e \<le> RESOURCE_MAX_GENERATION \<and>
     (retired e \<longrightarrow> generation e = RESOURCE_MAX_GENERATION \<and> \<not> occupied e) \<and>
     (occupied e \<longrightarrow> generation e \<noteq> 0) \<and>
     (\<not> occupied e \<longrightarrow> entry_kind e = HANDLE_RESOURCE \<and> entry_object e = None \<and> resource_identity e = 0 \<and>
        entry_rep e = VALUE_CLEARED \<and> lend_count e = 0 \<and> borrow_scope e = None \<and> \<not> owned e) \<and>
     (entry_kind e \<noteq> HANDLE_RESOURCE \<longrightarrow> private_kind (entry_kind e) \<and> entry_object e \<noteq> None \<and>
        lend_count e = 0 \<and> borrow_scope e = None \<and> \<not> owned e) \<and>
     (borrow_scope e \<noteq> None \<longrightarrow> \<not> owned e)"

definition wf_table :: "turbowasm_component_resource_table \<Rightarrow> bool" where
  "wf_table t \<longleftrightarrow>
     capacity t \<le> unat (max_entries t) \<and> max_entries t \<le> RESOURCE_MAX_SLOTS \<and>
     (\<forall>e \<in> set (entries t). wf_entry e) \<and>
     unat (live_count t) = length (filter occupied (entries t))"

lemma wf_table_capacity: "wf_table t \<Longrightarrow> capacity t \<le> 65535"
  by (auto simp: wf_table_def word_le_nat_alt)

lemma wf_table_entry: "wf_table t \<Longrightarrow> i < capacity t \<Longrightarrow> wf_entry (entries t ! i)"
  by (simp add: wf_table_def)

lemma entry_get_SomeD:
  "entry_get t h = Some i \<Longrightarrow>
     i < capacity t \<and> occupied (entries t ! i) \<and> handle_decode h = Some (i, generation (entries t ! i))"
  by (auto simp: entry_get_def split: option.splits if_splits)

lemma entry_get_iff:
  assumes "wf_table t"
  shows "entry_get t h = Some i \<longleftrightarrow>
    i < capacity t \<and> occupied (entries t ! i) \<and> h = handle_encode (of_nat i) (generation (entries t ! i))"
proof
  assume "entry_get t h = Some i"
  then have *: "i < capacity t" "occupied (entries t ! i)" "handle_decode h = Some (i, generation (entries t ! i))"
    using entry_get_SomeD by blast+
  then show "i < capacity t \<and> occupied (entries t ! i) \<and> h = handle_encode (of_nat i) (generation (entries t ! i))"
    using handle_decode_Some by blast
next
  assume *: "i < capacity t \<and> occupied (entries t ! i) \<and> h = handle_encode (of_nat i) (generation (entries t ! i))"
  then have "handle_decode h = Some (i, generation (entries t ! i))"
    using handle_decode_encode [of i "generation (entries t ! i)"] wf_table_capacity [OF assms] wf_table_entry [OF assms, of i]
    by (simp add: wf_entry_def)
  with * show "entry_get t h = Some i" by (simp add: entry_get_def)
qed

lemma entry_update_sel [simp]:
  "capacity (entry_update i f t) = capacity t"
  "max_entries (entry_update i f t) = max_entries t"
  "live_count (entry_update i f t) = live_count t"
  by (simp_all add: entry_update_def)

lemma entry_update_nth:
  "j < capacity t \<Longrightarrow> entries (entry_update i f t) ! j = (if i = j then f (entries t ! j) else entries t ! j)"
  by (simp add: entry_update_def nth_list_update)

text \<open>The abstract view: what a handle designates.\<close>

definition resource_view ::
    "turbowasm_component_resource_table \<Rightarrow> turbowasm_component_resource_handle \<rightharpoonup> turbowasm_component_resource_entry" where
  "resource_view t h = map_option (\<lambda>i. entries t ! i) (entry_get t h)"

text \<open>The handles a table has given out: the generations a slot has passed, and the present one while it is in use.\<close>

definition issued :: "turbowasm_component_resource_table \<Rightarrow> turbowasm_component_resource_handle \<Rightarrow> bool" where
  "issued t h =
     (case handle_decode h of
        None \<Rightarrow> False
      | Some (i, g) \<Rightarrow>
          i < capacity t \<and>
          (g < generation (entries t ! i) \<or>
           g = generation (entries t ! i) \<and> (occupied (entries t ! i) \<or> retired (entries t ! i))))"

lemma resource_view_issued: "resource_view t h = Some e \<Longrightarrow> issued t h"
  by (auto simp: resource_view_def issued_def dest!: entry_get_SomeD)

lemma issued_cong:
  assumes "capacity t' = capacity t"
    and "\<And>j. j < capacity t \<Longrightarrow> generation (entries t' ! j) = generation (entries t ! j) \<and>
      occupied (entries t' ! j) = occupied (entries t ! j) \<and> retired (entries t' ! j) = retired (entries t ! j)"
  shows "issued t' = issued t" and "entry_get t' = entry_get t"
  using assms by (auto simp: fun_eq_iff issued_def entry_get_def split: option.splits)

text \<open>An update of an occupied entry that keeps it occupied in the same generation.\<close>

lemma wf_table_update:
  assumes "wf_table t" and "i < capacity t" and "occupied (entries t ! i)"
    and "occupied (f (entries t ! i))" and "generation (f (entries t ! i)) = generation (entries t ! i)"
    and "retired (f (entries t ! i)) = retired (entries t ! i)" and "wf_entry (f (entries t ! i))"
  shows "wf_table (entry_update i f t)"
    and "issued (entry_update i f t) = issued t"
    and "resource_view (entry_update i f t) h =
      (if entry_get t h = Some i then Some (f (entries t ! i)) else resource_view t h)"
    and "entry_get (entry_update i f t) h = entry_get t h"
proof -
  have "\<forall>e \<in> set ((entries t)[i := f (entries t ! i)]). wf_entry e"
    using assms(1,7) by (auto simp: wf_table_def dest: subsetD [OF set_update_subset_insert])
  moreover have "length (filter occupied ((entries t)[i := f (entries t ! i)])) = length (filter occupied (entries t))"
    using length_filter_update [OF assms(2), of occupied "f (entries t ! i)"] assms(3,4) by simp
  ultimately show "wf_table (entry_update i f t)"
    using assms(1) by (simp add: wf_table_def entry_update_def)
  have key: "generation (entries (entry_update i f t) ! j) = generation (entries t ! j) \<and>
      occupied (entries (entry_update i f t) ! j) = occupied (entries t ! j) \<and>
      retired (entries (entry_update i f t) ! j) = retired (entries t ! j)" if "j < capacity t" for j
    using that assms(3-6) by (auto simp: entry_update_nth)
  show "issued (entry_update i f t) = issued t" and get: "entry_get (entry_update i f t) h = entry_get t h"
    using issued_cong [OF _ key] by simp_all
  show "resource_view (entry_update i f t) h =
      (if entry_get t h = Some i then Some (f (entries t ! i)) else resource_view t h)"
    by (cases "entry_get t h") (auto simp: resource_view_def get entry_update_nth dest: entry_get_SomeD)
qed

text \<open>Removal in one step: the slot is cleared and moves to its next generation, or retires.\<close>

definition entry_cleared :: "turbowasm_component_resource_entry \<Rightarrow> turbowasm_component_resource_entry" where
  "entry_cleared e = zero_entry
     \<lparr>generation := (if generation e = RESOURCE_MAX_GENERATION then generation e else generation e + 1),
      retired := (generation e = RESOURCE_MAX_GENERATION)\<rparr>"

definition scope_release :: "addr option \<Rightarrow> scopes \<Rightarrow> scopes" where
  "scope_release p sc = (case p of None \<Rightarrow> sc | Some p \<Rightarrow> sc(p := sc p - 1))"

lemma resource_entry_remove_eq:
  assumes "wf_table t" and "i < capacity t" and "occupied (entries t ! i)"
  shows "resource_entry_remove t sc i =
    ((entry_update i entry_cleared t)\<lparr>live_count := live_count t - 1\<rparr>, scope_release (borrow_scope (entries t ! i)) sc)"
proof -
  have "entries t ! i \<in> set (filter occupied (entries t))" using assms(2,3) by simp
  then have "unat (live_count t) \<noteq> 0" using assms(1) by (auto simp: wf_table_def filter_empty_conv)
  then have "live_count t \<noteq> 0" by auto
  moreover have "\<not> retired (entries t ! i)"
    using wf_table_entry [OF assms(1,2)] assms(3) by (simp add: wf_entry_def)
  ultimately show ?thesis
    using assms(2)
    by (cases t; cases "entries t ! i") (simp add: resource_entry_remove_def entry_update_def entry_cleared_def zero_entry_def scope_release_def Let_def
        split: option.split)
qed

lemma generation_next:
  assumes "g \<le> RESOURCE_MAX_GENERATION" and "g \<noteq> RESOURCE_MAX_GENERATION"
  shows "g + 1 \<le> RESOURCE_MAX_GENERATION" and "g + 1 \<noteq> 0" and "x < g + 1 \<longleftrightarrow> x \<le> g"
proof -
  have "unat g < 4095"
    using assms unat_plus_one [of g] word_unat_eq_iff [of g RESOURCE_MAX_GENERATION] by (simp add: word_le_nat_alt)
  then have "unat (g + 1) = Suc (unat g)" by (simp add: unat_plus_one)
  with \<open>unat g < 4095\<close> show "g + 1 \<le> RESOURCE_MAX_GENERATION" "g + 1 \<noteq> 0" "x < g + 1 \<longleftrightarrow> x \<le> g"
    by (auto simp: word_le_nat_alt word_less_nat_alt)
qed

text \<open>A change of one slot: the parts of the invariant that have to be checked.\<close>

lemma wf_table_slot:
  assumes "wf_table t" and "i < capacity t" and "wf_entry (f (entries t ! i))"
    and "unat n + (if occupied (entries t ! i) then 1 else 0) = unat (live_count t) + (if occupied (f (entries t ! i)) then 1 else 0)"
  shows "wf_table ((entry_update i f t)\<lparr>live_count := n\<rparr>)"
proof -
  have "\<forall>e \<in> set ((entries t)[i := f (entries t ! i)]). wf_entry e"
    using assms(1,3) by (auto simp: wf_table_def dest: subsetD [OF set_update_subset_insert])
  moreover have "unat n = length (filter occupied ((entries t)[i := f (entries t ! i)]))"
    using length_filter_update [OF assms(2), of occupied "f (entries t ! i)"] assms(1,4) by (simp add: wf_table_def)
  ultimately show ?thesis
    using assms(1) by (simp add: wf_table_def entry_update_def)
qed


lemma entry_cleared_sel [simp]:
  "\<not> occupied (entry_cleared e)" "borrow_scope (entry_cleared e) = None" "lend_count (entry_cleared e) = 0"
  by (simp_all add: entry_cleared_def zero_entry_def)

lemma entry_cleared_wf:
  assumes "wf_entry e"
  shows "wf_entry (entry_cleared e)"
  using assms generation_next [of "generation e"] by (auto simp: wf_entry_def entry_cleared_def zero_entry_def)

lemma resource_entry_remove_wf:
  assumes wf: "wf_table t" and i: "i < capacity t" and occ: "occupied (entries t ! i)"
  shows "wf_table ((entry_update i entry_cleared t)\<lparr>live_count := live_count t - 1\<rparr>)"
proof -
  have "entries t ! i \<in> set (filter occupied (entries t))" using i occ by simp
  then have nz: "unat (live_count t) \<noteq> 0" using wf by (auto simp: wf_table_def filter_empty_conv)
  then have "live_count t \<noteq> 0" by auto
  then have "unat (live_count t - 1) + 1 = unat (live_count t)"
    using unat_minus_one [of "live_count t"] nz by linarith
  then show ?thesis
    using entry_cleared_wf [OF wf_table_entry [OF wf i]] by (intro wf_table_slot) (use wf i occ in simp_all)
qed

text \<open>A slot whose entry is cleared in place: the handle is gone, and no handle counts as fresh that was issued.\<close>

lemma slot_cleared_issued:
  assumes wf: "wf_table t" and i: "i < capacity t" and occ: "occupied (entries t ! i)"
    and ent: "entries t' = (entries t)[i := entry_cleared (entries t ! i)]"
  shows "issued t' = issued t"
proof
  fix h
  define e where "e = entries t ! i"
  have e: "generation e \<le> RESOURCE_MAX_GENERATION" "\<not> retired e" "occupied e"
    using wf_table_entry [OF wf i] occ by (auto simp: wf_entry_def e_def)
  show "issued t' h = issued t h"
  proof (cases "handle_decode h")
    case (Some ig)
    then obtain k g where h: "handle_decode h = Some (k, g)" by (cases ig) simp
    have g: "g \<le> RESOURCE_MAX_GENERATION" using handle_decode_Some [OF h] by simp
    show ?thesis
      using h g e i generation_next(3) [of "generation e" g]
      by (cases "k = i") (auto simp: issued_def ent entry_cleared_def zero_entry_def e_def)
  qed (simp add: issued_def)
qed

lemma slot_cleared_view:
  assumes wf: "wf_table t" and i: "i < capacity t" and occ: "occupied (entries t ! i)"
    and ent: "entries t' = (entries t)[i := entry_cleared (entries t ! i)]"
  shows "resource_view t' = (resource_view t)(handle_encode (of_nat i) (generation (entries t ! i)) := None)"
proof
  fix h
  have nth: "entries t' ! j = (if j = i then entry_cleared (entries t ! i) else entries t ! j)" if "j < capacity t" for j
    using that i by (simp add: ent nth_list_update)
  have get: "entry_get t' h = (if entry_get t h = Some i then None else entry_get t h)"
    using i occ by (auto simp: entry_get_def ent nth_list_update split: option.splits if_splits)
  have "entry_get t h = Some i \<longleftrightarrow> h = handle_encode (of_nat i) (generation (entries t ! i))"
    using entry_get_iff [OF wf] i occ by simp
  then show "resource_view t' h = ((resource_view t)(handle_encode (of_nat i) (generation (entries t ! i)) := None)) h"
    using nth by (cases "entry_get t h") (auto simp: resource_view_def get dest: entry_get_SomeD)
qed

lemma resource_entry_remove:
  assumes wf: "wf_table t" and i: "i < capacity t" and occ: "occupied (entries t ! i)"
    and r: "resource_entry_remove t sc i = (t', sc')"
  shows "wf_table t'" and "issued t' = issued t"
    and "resource_view t' = (resource_view t)(handle_encode (of_nat i) (generation (entries t ! i)) := None)"
    and "entries t' = (entries t)[i := entry_cleared (entries t ! i)]"
    and "sc' = scope_release (borrow_scope (entries t ! i)) sc"
    and "max_entries t' = max_entries t"
proof -
  have t': "t' = (entry_update i entry_cleared t)\<lparr>live_count := live_count t - 1\<rparr>"
    and sc: "sc' = scope_release (borrow_scope (entries t ! i)) sc"
    using resource_entry_remove_eq [OF wf i occ, of sc] r by auto
  then have ent: "entries t' = (entries t)[i := entry_cleared (entries t ! i)]"
    by (simp add: entry_update_def)
  show "wf_table t'" "max_entries t' = max_entries t"
    using resource_entry_remove_wf [OF wf i occ] by (simp_all add: t')
  show "issued t' = issued t"
    and "resource_view t' = (resource_view t)(handle_encode (of_nat i) (generation (entries t ! i)) := None)"
    by (rule slot_cleared_issued [OF wf i occ ent] slot_cleared_view [OF wf i occ ent])+
  show "entries t' = (entries t)[i := entry_cleared (entries t ! i)]" and "sc' = scope_release (borrow_scope (entries t ! i)) sc"
    by (fact ent, fact sc)
qed

subsection \<open>Growth and free slots\<close>

lemma wf_table_grow:
  assumes wf: "wf_table t" and g: "table_grow grant t = Some t'"
  shows "wf_table t'" and "issued t' = issued t" and "resource_view t' = resource_view t" and "find_free (entries t') \<noteq> None"
proof -
  define n where "n = capacity t' - capacity t"
  have *: "capacity t < capacity t'" "capacity t' \<le> unat (max_entries t)" "max_entries t' = max_entries t"
    "live_count t' = live_count t" and ent: "entries t' = entries t @ replicate n zero_entry"
    using table_grow_Some [OF g] by (auto simp: n_def)
  have z: "wf_entry zero_entry" by (simp add: wf_entry_def zero_entry_def)
  show "wf_table t'"
    using wf * z by (auto simp: wf_table_def ent zero_entry_def)
  have nth: "entries t' ! j = (if j < capacity t then entries t ! j else zero_entry)" if "j < capacity t'" for j
    using that by (auto simp: ent nth_append)
  have get: "entry_get t' h = entry_get t h" for h
    using nth *(1) by (auto simp: entry_get_def zero_entry_def split: option.splits)
  show "resource_view t' = resource_view t"
    using nth *(1) by (intro ext) (auto simp: resource_view_def get map_option_case dest: entry_get_SomeD split: option.split)
  show "issued t' = issued t"
  proof
    fix h
    show "issued t' h = issued t h"
    proof (cases "handle_decode h")
      case (Some ig)
      then obtain k g where h: "handle_decode h = Some (k, g)" by (cases ig) simp
      then have "g \<noteq> 0" using handle_decode_Some by blast
      with h nth [of k] *(1) show ?thesis by (cases "k < capacity t") (auto simp: issued_def zero_entry_def)
    qed (simp add: issued_def)
  qed
  have "find_free (xs @ replicate n zero_entry) \<noteq> None" for xs
  proof (induction xs)
    case Nil
    then show ?case using *(1) by (cases n) (auto simp: n_def zero_entry_def)
  qed auto
  then show "find_free (entries t') \<noteq> None" by (simp add: ent)
qed

lemma find_free_Some: "find_free es = Some i \<Longrightarrow> i < length es \<and> \<not> occupied (es ! i) \<and> \<not> retired (es ! i)"
  by (induction es arbitrary: i) (auto split: if_splits)

lemma find_free_None: "find_free es = None \<longleftrightarrow> (\<forall>e \<in> set es. occupied e \<or> retired e)"
  by (induction es) auto

text \<open>The number of entries that the table asks for when it is full.\<close>

definition next_capacity :: "turbowasm_component_resource_table \<Rightarrow> nat" where
  "next_capacity t = (if capacity t = 0 then min 8 (unat (max_entries t)) else min (capacity t * 2) (unat (max_entries t)))"

lemma table_grow_None:
  assumes "wf_table t"
  shows "table_grow grant t = None \<longleftrightarrow> capacity t = unat (max_entries t) \<or> \<not> grant (next_capacity t)"
proof -
  have c: "capacity t \<le> unat (max_entries t)" and m: "unat (max_entries t) \<le> 65535"
    using assms by (auto simp: wf_table_def word_le_nat_alt)
  have "(capacity t * 2) mod 2 ^ 32 = capacity t * 2" using c m by simp
  with c show ?thesis
    by (cases "entries t = []") (auto simp: table_grow_def next_capacity_def Let_def min_def not_less)
qed

lemma entry_find_spec:
  assumes "wf_table t" and "entry_find grant t = (r, t')"
  shows "wf_table t' \<and> issued t' = issued t \<and> resource_view t' = resource_view t \<and> max_entries t' = max_entries t \<and>
    (case r of
       None \<Rightarrow> t' = t \<and> (\<forall>e \<in> set (entries t). occupied e \<or> retired e) \<and>
               (capacity t = unat (max_entries t) \<or> \<not> grant (next_capacity t))
     | Some i \<Rightarrow> i < capacity t' \<and> \<not> occupied (entries t' ! i) \<and> \<not> retired (entries t' ! i))"
proof (cases "find_free (entries t)")
  case (Some i)
  then have "r = Some i" "t' = t" using assms(2) by (simp_all add: entry_find.simps [of grant t])
  then show ?thesis using assms(1) find_free_Some [OF Some] by simp
next
  case None
  show ?thesis
  proof (cases "table_grow grant t")
    case g: None
    then have "r = None" "t' = t" using None assms(2) by (simp_all add: entry_find.simps [of grant t])
    then show ?thesis using assms(1) None g by (simp add: find_free_None table_grow_None)
  next
    case g: (Some t1)
    obtain i where i: "find_free (entries t1) = Some i" using wf_table_grow(4) [OF assms(1) g] by auto
    have "r = Some i" "t' = t1" using None g i assms(2) by (simp_all add: entry_find.simps [of grant t] entry_find.simps [of grant t1])
    then show ?thesis
      using wf_table_grow [OF assms(1) g] table_grow_Some [OF g] find_free_Some [OF i] by simp
  qed
qed

text \<open>Taking a free slot, in one step.\<close>

definition entry_taken :: "turbowasm_component_resource_entry \<Rightarrow> turbowasm_component_resource_entry" where
  "entry_taken e = zero_entry\<lparr>generation := (if generation e = 0 then 1 else generation e), occupied := True\<rparr>"

lemma entry_taken_wf:
  assumes "wf_entry e"
  shows "wf_entry (entry_taken e)" and "generation (entry_taken e) \<noteq> 0" and "generation (entry_taken e) \<le> RESOURCE_MAX_GENERATION"
    and "occupied (entry_taken e)"
  using assms by (auto simp: wf_entry_def entry_taken_def zero_entry_def)

lemma slot_taken:
  assumes wf: "wf_table t" and i: "i < capacity t" and free: "\<not> occupied (entries t ! i)" "\<not> retired (entries t ! i)"
    and ent: "entries t' = (entries t)[i := entry_taken (entries t ! i)]"
    and h: "h = handle_encode (of_nat i) (generation (entry_taken (entries t ! i)))"
  shows "entry_get t' h = Some i" and "\<not> issued t h"
    and "resource_view t' = (resource_view t)(h \<mapsto> entry_taken (entries t ! i))"
proof -
  define e where "e = entries t ! i"
  have we: "wf_entry e" using wf_table_entry [OF wf i] by (simp add: e_def)
  have d: "handle_decode h = Some (i, generation (entry_taken e))"
    using handle_decode_encode [of i] wf_table_capacity [OF wf] i entry_taken_wf [OF we] by (simp add: h e_def)
  have nth: "entries t' ! j = (if j = i then entry_taken e else entries t ! j)" if "j < capacity t" for j
    using that i by (simp add: ent nth_list_update e_def)
  have cap: "capacity t' = capacity t" by (simp add: ent)
  show get: "entry_get t' h = Some i"
    using d i nth entry_taken_wf [OF we] by (simp add: entry_get_def cap)
  show "\<not> issued t h"
    using d free by (auto simp: issued_def e_def entry_taken_def zero_entry_def split: if_splits)
  have dh: "h' = h" if "handle_decode h' = Some (i, generation (entry_taken e))" for h'
    using handle_decode_Some [OF that] h by (simp add: e_def)
  have other: "entry_get t' h' = entry_get t h'" if "h' \<noteq> h" for h'
    using that nth dh free by (auto simp: entry_get_def cap e_def [symmetric] split: option.splits if_splits)
  show "resource_view t' = (resource_view t)(h \<mapsto> entry_taken (entries t ! i))"
  proof
    fix h'
    show "resource_view t' h' = ((resource_view t)(h \<mapsto> entry_taken (entries t ! i))) h'"
      using get i nth other free
      by (cases "h' = h"; cases "entry_get t h'") (auto simp: resource_view_def e_def dest: entry_get_SomeD)
  qed
qed

lemma slot_taken_issued:
  assumes wf: "wf_table t" and i: "i < capacity t" and free: "\<not> occupied (entries t ! i)" "\<not> retired (entries t ! i)"
    and ent: "entries t' = (entries t)[i := entry_taken (entries t ! i)]"
    and h: "h = handle_encode (of_nat i) (generation (entry_taken (entries t ! i)))"
  shows "issued t' = (issued t)(h := True)"
proof
  fix h'
  define e where "e = entries t ! i"
  have we: "wf_entry e" using wf_table_entry [OF wf i] by (simp add: e_def)
  have d: "handle_decode h = Some (i, generation (entry_taken e))"
    using handle_decode_encode [of i] wf_table_capacity [OF wf] i entry_taken_wf [OF we] by (simp add: h e_def)
  have dh: "h' = h" if "handle_decode h' = Some (i, generation (entry_taken e))"
    using handle_decode_Some [OF that] h by (simp add: e_def)
  show "issued t' h' = ((issued t)(h := True)) h'"
  proof (cases "handle_decode h'")
    case None
    then show ?thesis using d by (auto simp: issued_def)
  next
    case (Some ig)
    then obtain k g where h': "handle_decode h' = Some (k, g)" by (cases ig) simp
    have "g \<noteq> 0" using handle_decode_Some [OF h'] by simp
    then show ?thesis
      using h' dh d free i
      by (cases "k = i") (auto simp: issued_def ent e_def entry_taken_def zero_entry_def word_less_1 split: if_splits)
  qed
qed

subsection \<open>Elementary changes of a table\<close>

text \<open>
  Every operation is a sequence of elementary changes: the table grows, a free slot is taken, an
  occupied entry is rewritten in place, a lend of a handle of \<open>L\<close> is returned, a scope is claimed, an entry that is
  not lent is removed. What holds of each change holds of every operation.
\<close>

definition same_slot :: "turbowasm_component_resource_entry \<Rightarrow> turbowasm_component_resource_entry \<Rightarrow> bool" where
  "same_slot e e' \<longleftrightarrow> occupied e \<and> occupied e' \<and> generation e' = generation e \<and> retired e' = retired e"

abbreviation handle_at :: "turbowasm_component_resource_table \<Rightarrow> nat \<Rightarrow> turbowasm_component_resource_handle" where
  "handle_at t i \<equiv> handle_encode (of_nat i) (generation (entries t ! i))"

inductive table_change ::
    "turbowasm_component_resource_handle set \<Rightarrow>
     turbowasm_component_resource_table \<times> scopes \<Rightarrow> turbowasm_component_resource_table \<times> scopes \<Rightarrow> bool"
  for L where
  change_grow: "table_grow grant t = Some t' \<Longrightarrow> table_change L (t, sc) (t', sc)"
| change_take: "i < capacity t \<Longrightarrow> \<not> occupied (entries t ! i) \<Longrightarrow> \<not> retired (entries t ! i) \<Longrightarrow>
    table_change L (t, sc) ((entry_update i entry_taken t)\<lparr>live_count := live_count t + 1\<rparr>, sc)"
| change_update: "i < capacity t \<Longrightarrow> e = entries t ! i \<Longrightarrow> same_slot e (f e) \<Longrightarrow> wf_entry (f e) \<Longrightarrow>
    borrow_scope (f e) = borrow_scope e \<Longrightarrow>
    (lend_count e \<noteq> 0 \<longrightarrow> entry_kind (f e) = entry_kind e \<and> resource_identity (f e) = resource_identity e \<and>
       entry_rep (f e) = entry_rep e \<and> owned (f e) = owned e \<and> lend_count e \<le> lend_count (f e)) \<Longrightarrow>
    table_change L (t, sc) (entry_update i f t, sc)"
| change_release: "i < capacity t \<Longrightarrow> occupied (entries t ! i) \<Longrightarrow> handle_at t i \<in> L \<Longrightarrow>
    entry_kind (entries t ! i) = HANDLE_RESOURCE \<Longrightarrow>
    table_change L (t, sc) (entry_update i (\<lambda>e. e\<lparr>lend_count := lend_count e - 1\<rparr>) t, sc)"
| change_claim: "i < capacity t \<Longrightarrow> occupied (entries t ! i) \<Longrightarrow> entry_kind (entries t ! i) = HANDLE_RESOURCE \<Longrightarrow>
    borrow_scope (entries t ! i) = None \<Longrightarrow> lend_count (entries t ! i) = 0 \<Longrightarrow> sc p \<noteq> U32_MAX \<Longrightarrow>
    table_change L (t, sc)
      (entry_update i (\<lambda>e. e\<lparr>owned := False, borrow_scope := Some p\<rparr>) t, sc(p := sc p + 1))"
| change_remove: "i < capacity t \<Longrightarrow> occupied (entries t ! i) \<Longrightarrow> lend_count (entries t ! i) = 0 \<Longrightarrow>
    table_change L (t, sc) (resource_entry_remove t sc i)"

abbreviation table_changes where "table_changes L \<equiv> (table_change L)\<^sup>*\<^sup>*"

text \<open>The entries that claim a scope.\<close>

definition claims :: "turbowasm_component_resource_table \<Rightarrow> addr \<Rightarrow> nat" where
  "claims t p = length (filter (\<lambda>e. borrow_scope e = Some p) (entries t))"

definition scopes_ok :: "turbowasm_component_resource_table \<Rightarrow> scopes \<Rightarrow> bool" where
  "scopes_ok t sc \<longleftrightarrow> (\<forall>p. claims t p \<le> unat (sc p))"

lemma claims_update:
  assumes "i < capacity t"
  shows "claims (entry_update i f t) p + (if borrow_scope (entries t ! i) = Some p then 1 else 0) =
    claims t p + (if borrow_scope (f (entries t ! i)) = Some p then 1 else 0)"
  using length_filter_update [OF assms, of "\<lambda>e. borrow_scope e = Some p" "f (entries t ! i)"]
  by (simp add: claims_def entry_update_def)

lemma claims_live_count [simp]: "claims (t\<lparr>live_count := n\<rparr>) p = claims t p"
  by (simp add: claims_def)

lemma claims_positive:
  assumes "i < capacity t" and "borrow_scope (entries t ! i) = Some p"
  shows "0 < claims t p"
proof -
  have "entries t ! i \<in> set (filter (\<lambda>e. borrow_scope e = Some p) (entries t))" using assms by simp
  then show ?thesis unfolding claims_def by (rule length_pos_if_in_set)
qed

text \<open>What a change keeps, for one handle: the invariants, what was issued, and the fate of a handle.\<close>

lemma slot_update:
  assumes "wf_table t" "i < capacity t" "same_slot (entries t ! i) (f (entries t ! i))" "wf_entry (f (entries t ! i))"
  shows "wf_table (entry_update i f t)" "issued (entry_update i f t) = issued t"
    "resource_view (entry_update i f t) = (resource_view t)(handle_at t i \<mapsto> f (entries t ! i))"
proof -
  have *: "occupied (entries t ! i)" "occupied (f (entries t ! i))" "generation (f (entries t ! i)) = generation (entries t ! i)"
    "retired (f (entries t ! i)) = retired (entries t ! i)"
    using assms(3) by (simp_all add: same_slot_def)
  note u = wf_table_update [where f = f, OF assms(1,2) * assms(4)]
  show "wf_table (entry_update i f t)" "issued (entry_update i f t) = issued t" by (fact u(1), fact u(2))
  show "resource_view (entry_update i f t) = (resource_view t)(handle_at t i \<mapsto> f (entries t ! i))"
    using assms(2) *(1) by (intro ext) (simp add: u(3) entry_get_iff [OF assms(1)])
qed

lemma change_take_laws:
  assumes wf: "wf_table t" and i: "i < capacity t" and free: "\<not> occupied (entries t ! i)" "\<not> retired (entries t ! i)"
  defines "t' \<equiv> (entry_update i entry_taken t)\<lparr>live_count := live_count t + 1\<rparr>"
  shows "wf_table t'" "claims t' = claims t"
proof -
  have "length (filter occupied (entries t)) \<le> 65535"
    using wf_table_capacity [OF wf] length_filter_le order_trans by blast
  then have "unat (live_count t + 1) = Suc (unat (live_count t))"
    using wf by (intro unat_plus_one) (simp add: wf_table_def)
  then show "wf_table t'"
    unfolding t'_def
    by (intro wf_table_slot) (use wf i free entry_taken_wf [OF wf_table_entry [OF wf i]] in simp_all)
  have "borrow_scope (entries t ! i) = None"
    using wf_table_entry [OF wf i] free by (simp add: wf_entry_def)
  then show "claims t' = claims t"
    using claims_update [OF i, of entry_taken] by (intro ext) (simp add: t'_def entry_taken_def zero_entry_def)
qed

definition resource_inv :: "turbowasm_component_resource_table \<times> scopes \<Rightarrow> bool" where
  "resource_inv ts \<longleftrightarrow> wf_table (fst ts) \<and> scopes_ok (fst ts) (snd ts)"

lemma change_remove_scopes:
  assumes wf: "wf_table t" and i: "i < capacity t" and occ: "occupied (entries t ! i)" and sc: "scopes_ok t sc"
    and r: "resource_entry_remove t sc i = (t', sc')"
  shows "scopes_ok t' sc'"
proof -
  note rem = resource_entry_remove [OF wf i occ r]
  have "claims t' p = claims (entry_update i entry_cleared t) p" for p
    by (simp add: claims_def rem(4) entry_update_def)
  then have c: "claims t' p + (if borrow_scope (entries t ! i) = Some p then 1 else 0) = claims t p" for p
    using claims_update [OF i, of entry_cleared p] by simp
  have "claims t' p \<le> unat (sc' p)" for p
  proof (cases "borrow_scope (entries t ! i) = Some p")
    case True
    then have "unat (sc p) \<noteq> 0" using sc claims_positive [OF i True] by (auto simp: scopes_ok_def dest: spec [of _ p])
    then have "unat (sc' p) = unat (sc p) - 1"
      using True unat_minus_one [of "sc p"] by (auto simp: rem(5) scope_release_def unat_eq_0)
    moreover have "claims t p \<le> unat (sc p)" using sc by (simp add: scopes_ok_def)
    ultimately show ?thesis using c [of p] True by simp
  next
    case False
    then have "sc' p = sc p" by (auto simp: rem(5) scope_release_def split: option.split)
    moreover have "claims t p \<le> unat (sc p)" using sc by (simp add: scopes_ok_def)
    ultimately show ?thesis using c [of p] False by simp
  qed
  then show ?thesis by (simp add: scopes_ok_def)
qed

lemma change_claim_scopes:
  assumes i: "i < capacity t" and none: "borrow_scope (entries t ! i) = None" and sc: "scopes_ok t sc"
    and max: "sc p \<noteq> U32_MAX"
  shows "scopes_ok (entry_update i (\<lambda>e. e\<lparr>owned := False, borrow_scope := Some p\<rparr>) t) (sc(p := sc p + 1))"
proof -
  have "unat (sc p) \<noteq> 4294967295" using max word_unat_eq_iff [of "sc p" U32_MAX] by simp
  moreover have "unat (sc p) < 4294967296" using unat_less_exp [of "sc p"] by simp
  ultimately have u: "unat (sc p + 1) = Suc (unat (sc p))" by (intro unat_plus_one) simp
  show ?thesis
    using sc claims_update [OF i, of "\<lambda>e. e\<lparr>owned := False, borrow_scope := Some p\<rparr>"] none
    by (auto simp: scopes_ok_def u)
qed

lemma claims_grow:
  assumes "table_grow grant t = Some t'"
  shows "claims t' = claims t"
proof -
  obtain n where "entries t' = entries t @ replicate n zero_entry" using table_grow_Some [OF assms] by blast
  then show ?thesis by (simp add: fun_eq_iff claims_def zero_entry_def)
qed

lemma table_change_inv:
  assumes "table_change L s s'" and "resource_inv s"
  shows "resource_inv s'"
  using assms
proof cases
  case (change_grow grant t t' sc)
  then show ?thesis
    using assms(2) wf_table_grow(1) [of t grant t'] claims_grow [of grant t t']
    by (simp add: resource_inv_def scopes_ok_def)
next
  case (change_take i t sc)
  then show ?thesis using assms(2) change_take_laws [of t i] by (simp add: resource_inv_def scopes_ok_def)
next
  case (change_update i t e f sc)
  then show ?thesis
    using assms(2) slot_update(1) [of t i f] claims_update [of i t f] by (simp add: resource_inv_def scopes_ok_def)
next
  case (change_release i t sc)
  then have "wf_table (entry_update i (\<lambda>e. e\<lparr>lend_count := lend_count e - 1\<rparr>) t)"
    using assms(2) wf_table_entry [of t i]
    by (intro slot_update(1)) (auto simp: resource_inv_def same_slot_def wf_entry_def)
  then show ?thesis
    using change_release assms(2) claims_update [of i t "\<lambda>e. e\<lparr>lend_count := lend_count e - 1\<rparr>"]
    by (simp add: resource_inv_def scopes_ok_def)
next
  case (change_claim i t sc p)
  then have "wf_table (entry_update i (\<lambda>e. e\<lparr>owned := False, borrow_scope := Some p\<rparr>) t)"
    using assms(2) wf_table_entry [of t i]
    by (intro slot_update(1)) (auto simp: resource_inv_def same_slot_def wf_entry_def)
  then show ?thesis
    using change_claim assms(2) change_claim_scopes [of i t sc p] by (simp add: resource_inv_def)
next
  case (change_remove i t sc)
  then show ?thesis
    using assms(2) resource_entry_remove(1) [of t i sc] change_remove_scopes [of t i sc]
    by (cases "resource_entry_remove t sc i") (simp add: resource_inv_def)
qed

text \<open>
  How a change affects what a handle designates. A handle that was never issued may come into use; a
  handle in use may lose its entry or have it rewritten; a handle that was issued and lost its entry
  stays without one.
\<close>

lemma table_change_view:
  assumes "table_change L s s'" and "wf_table (fst s)"
  obtains (same) "resource_view (fst s') = resource_view (fst s)" "issued (fst s') = issued (fst s)"
  | (fresh) h e where "\<not> issued (fst s) h" "resource_view (fst s') = (resource_view (fst s))(h \<mapsto> e)"
      "issued (fst s') = (issued (fst s))(h := True)"
  | (rewritten) h e e' where "resource_view (fst s) h = Some e" "resource_view (fst s') = (resource_view (fst s))(h \<mapsto> e')"
      "issued (fst s') = issued (fst s)"
      "lend_count e \<noteq> 0 \<longrightarrow> h \<in> L \<or> entry_kind e' = entry_kind e \<and> resource_identity e' = resource_identity e \<and>
         entry_rep e' = entry_rep e \<and> owned e' = owned e \<and> lend_count e \<le> lend_count e'"
  | (gone) h e where "resource_view (fst s) h = Some e" "lend_count e = 0"
      "resource_view (fst s') = (resource_view (fst s))(h := None)" "issued (fst s') = issued (fst s)"
proof -
  have live: "resource_view t (handle_at t i) = Some (entries t ! i)"
    if "wf_table t" "i < capacity t" "occupied (entries t ! i)" for t i
  proof -
    have "entry_get t (handle_at t i) = Some i" using entry_get_iff [OF that(1)] that by simp
    then show ?thesis by (simp add: resource_view_def)
  qed
  from assms(1) show thesis
  proof cases
    case (change_grow grant t t' sc)
    then show ?thesis using wf_table_grow [of t grant t'] assms(2) by (intro same) auto
  next
    case (change_take i t sc)
    note * = assms(2) [unfolded change_take(1) fst_conv] change_take(3,4,5)
    have ent: "entries (fst s') = (entries t)[i := entry_taken (entries t ! i)]"
      by (simp add: change_take(2) entry_update_def)
    show ?thesis
      using slot_taken(2,3) [OF * ent refl] slot_taken_issued [OF * ent refl]
      by (intro fresh) (auto simp: change_take(1))
  next
    case (change_update i t e f sc)
    then show ?thesis
      using assms(2) slot_update [of t i f] live [of t i] by (intro rewritten [of "handle_at t i" e "f e"]) (auto simp: same_slot_def)
  next
    case (change_release i t sc)
    have "wf_entry ((entries t ! i)\<lparr>lend_count := lend_count (entries t ! i) - 1\<rparr>)"
      using change_release assms(2) wf_table_entry [of t i] by (auto simp: wf_entry_def)
    then show ?thesis
      using change_release assms(2) slot_update [of t i "\<lambda>e. e\<lparr>lend_count := lend_count e - 1\<rparr>"] live [of t i]
      by (intro rewritten [of "handle_at t i"]) (auto simp: same_slot_def)
  next
    case (change_claim i t sc p)
    have "wf_entry ((entries t ! i)\<lparr>owned := False, borrow_scope := Some p\<rparr>)"
      using change_claim assms(2) wf_table_entry [of t i] by (auto simp: wf_entry_def)
    then show ?thesis
      using change_claim assms(2) slot_update [of t i "\<lambda>e. e\<lparr>owned := False, borrow_scope := Some p\<rparr>"] live [of t i]
      by (intro rewritten [of "handle_at t i"]) (auto simp: same_slot_def)
  next
    case (change_remove i t sc)
    then show ?thesis
      using assms(2) resource_entry_remove(2,3) [of t i sc] live [of t i]
      by (cases "resource_entry_remove t sc i"; intro gone [of "handle_at t i"]) auto
  qed
qed

subsection \<open>Operations as changes\<close>

lemma entry_find_changes: "entry_find grant t = (r, t') \<Longrightarrow> table_changes L (t, sc) (t', sc)"
proof (induction grant t rule: entry_find.induct)
  case (1 grant t)
  show ?case
  proof (cases "find_free (entries t) = None \<and> table_grow grant t \<noteq> None")
    case False
    then have "t' = t" using 1(2) by (auto simp: entry_find.simps [of grant t] split: option.splits)
    then show ?thesis by simp
  next
    case True
    then obtain t1 where g: "find_free (entries t) = None" "table_grow grant t = Some t1" by auto
    then have "entry_find grant t1 = (r, t')" using 1(2) by (simp add: entry_find.simps [of grant t])
    then show ?thesis using 1(1) [OF g] change_grow [OF g(2)] by (meson converse_rtranclp_into_rtranclp)
  qed
qed

lemma entry_taken_free:
  "wf_entry e \<Longrightarrow> \<not> occupied e \<Longrightarrow> \<not> retired e \<Longrightarrow>
     e\<lparr>generation := if generation e = 0 then 1 else generation e, occupied := True\<rparr> = entry_taken e"
  by (cases e) (simp add: wf_entry_def entry_taken_def zero_entry_def)

text \<open>
  Allocation takes a slot that no handle names, or leaves the table as it is: the last branch of the
  source, a handle that cannot be encoded, is not reached.
\<close>

lemma entry_allocate_cases:
  assumes wf: "wf_table t"
  obtains (unset) "max_entries t = 0" "entry_allocate grant t = (TURBOWASM_INVALID_ARGUMENT, None, None, t)"
  | (full) "entry_allocate grant t = (TURBOWASM_OUT_OF_MEMORY, None, None, t)" "max_entries t \<noteq> 0"
      "\<forall>e \<in> set (entries t). occupied e \<or> retired e" "capacity t = unat (max_entries t) \<or> \<not> grant (next_capacity t)"
  | (ok) i t' e where "entry_allocate grant t = (TURBOWASM_OK, Some (handle_at t' i), Some i, t')" "max_entries t \<noteq> 0"
      "wf_table t'" "i < capacity t'" "entries t' ! i = entry_taken e" "handle_at t' i \<noteq> 0" "\<not> issued t (handle_at t' i)"
      "issued t' = (issued t)(handle_at t' i := True)"
      "resource_view t' = (resource_view t)(handle_at t' i \<mapsto> entries t' ! i)"
      "\<And>L sc. table_changes L (t, sc) (t', sc)"
proof (cases "max_entries t = 0")
  case True
  then show thesis by (intro unset) (simp_all add: entry_allocate_def)
next
  case m: False
  obtain r t1 where f: "entry_find grant t = (r, t1)" by (cases "entry_find grant t")
  note spec = entry_find_spec [OF wf f]
  show thesis
  proof (cases r)
    case None
    then show thesis using spec f m by (intro full) (simp_all add: entry_allocate_def)
  next
    case (Some i)
    define t' where "t' = (entry_update i entry_taken t1)\<lparr>live_count := live_count t1 + 1\<rparr>"
    have wf1: "wf_table t1" and i: "i < capacity t1" and free: "\<not> occupied (entries t1 ! i)" "\<not> retired (entries t1 ! i)"
      and eqs: "issued t1 = issued t" "resource_view t1 = resource_view t"
      using spec Some by simp_all
    have ent: "entries t' = (entries t1)[i := entry_taken (entries t1 ! i)]" by (simp add: t'_def entry_update_def)
    have nth: "entries t' ! i = entry_taken (entries t1 ! i)" using i by (simp add: ent)
    have we: "wf_entry (entries t1 ! i)" by (rule wf_table_entry [OF wf1 i])
    have h: "handle_at t' i \<noteq> 0"
      unfolding nth using entry_taken_wf [OF we] i wf_table_capacity [OF wf1] by (intro handle_encode_nonzero) simp_all
    have "entry_allocate grant t = (TURBOWASM_OK, Some (handle_at t' i), Some i, t')"
      using f m Some i h entry_taken_free [OF we free] unfolding t'_def
      by (cases "generation (entries t1 ! i) = 0") (simp_all add: entry_allocate_def entry_update_def Let_def)
    moreover have "table_changes L (t, sc) (t', sc)" for L sc
      using entry_find_changes [OF f, of L sc] change_take [OF i free, of L sc] unfolding t'_def by (rule rtranclp.rtrancl_into_rtrancl)
    ultimately show thesis
      using slot_taken(2,3) [OF wf1 i free ent refl] slot_taken_issued [OF wf1 i free ent refl]
        change_take_laws(1) [OF wf1 i free] m h nth i ent
      by (intro ok [of i t' "entries t1 ! i"]) (simp_all add: eqs t'_def [symmetric])
  qed
qed

datatype resource_op =
    OpInsert "nat \<Rightarrow> bool" turbowasm_component_handle_kind "addr option"
  | OpNew "nat \<Rightarrow> bool" u64 turbowasm_value bool
  | OpPublish turbowasm_component_resource_handle "addr option" u64 turbowasm_value
  | OpPublishBorrowed turbowasm_component_resource_handle "addr option" u64 turbowasm_value "addr option"
  | OpLend turbowasm_component_resource_handle u64
  | OpRelease turbowasm_component_resource_handle u64
  | OpScopeClear "addr option"
  | OpRemove turbowasm_component_resource_handle turbowasm_component_handle_kind
  | OpTakeOwned turbowasm_component_resource_handle u64
  | OpDrop turbowasm_component_resource_handle u64

text \<open>The state after an operation; a destructor acts on the owner of the resource, not on the table.\<close>

fun resource_step :: "resource_op \<Rightarrow> turbowasm_component_resource_table \<times> scopes \<Rightarrow> turbowasm_component_resource_table \<times> scopes" where
  "resource_step (OpInsert grant k x) (t, sc) = (snd (snd (turbowasm_component_handle_insert grant t k x)), sc)"
| "resource_step (OpNew grant identity rep own) (t, sc) =
     (snd (snd (if own then turbowasm_component_resource_new_owned grant t identity rep
                else turbowasm_component_resource_new_borrowed grant t identity rep)), sc)"
| "resource_step (OpPublish h r identity rep) (t, sc) = (snd (turbowasm_component_resource_publish t h r identity rep), sc)"
| "resource_step (OpPublishBorrowed h r identity rep p) (t, sc) =
     snd (turbowasm_component_resource_publish_borrowed t sc h r identity rep p)"
| "resource_step (OpLend h identity) (t, sc) = (snd (turbowasm_component_resource_lend_acquire t h identity), sc)"
| "resource_step (OpRelease h identity) (t, sc) = (snd (turbowasm_component_resource_lend_release t h identity), sc)"
| "resource_step (OpScopeClear p) (t, sc) = snd (turbowasm_component_resource_scope_clear t sc p)"
| "resource_step (OpRemove h k) (t, sc) = snd (snd (turbowasm_component_handle_remove t sc h k))"
| "resource_step (OpTakeOwned h identity) (t, sc) = snd (snd (turbowasm_component_resource_take_owned t sc h identity))"
| "resource_step (OpDrop h identity) (t, sc) = snd (snd (turbowasm_component_resource_drop t sc h identity None))"

fun released :: "resource_op \<Rightarrow> turbowasm_component_resource_handle set" where
  "released (OpRelease h _) = {h}"
| "released _ = {}"

lemma change_rewrite:
  assumes "wf_table t" and "entry_get t h = Some i" and "lend_count (entries t ! i) = 0"
    and "same_slot (entries t ! i) (f (entries t ! i))" and "wf_entry (f (entries t ! i))"
    and "borrow_scope (f (entries t ! i)) = borrow_scope (entries t ! i)"
  shows "table_change L (t, sc) (entry_update i f t, sc)"
  using assms by (intro change_update) (auto dest: entry_get_SomeD)

lemma allocated_changes:
  assumes "wf_table t'" and "i < capacity t'" and "entries t' ! i = entry_taken e" and "table_changes L (t, sc) (t', sc)"
    and "same_slot (entry_taken e) (f (entry_taken e))" and "wf_entry (f (entry_taken e))"
    and "borrow_scope (f (entry_taken e)) = None"
  shows "table_changes L (t, sc) (entry_update i f t', sc)"
proof (rule rtranclp.rtrancl_into_rtrancl [OF assms(4)])
  show "table_change L (t', sc) (entry_update i f t', sc)"
    using assms by (intro change_update [of i t' "entries t' ! i"]) (simp_all add: entry_taken_def zero_entry_def)
qed

lemma insert_changes:
  assumes "wf_table t"
  shows "table_changes L (t, sc) (snd (snd (turbowasm_component_handle_insert grant t k x)), sc)"
proof (cases "private_kind k \<and> x \<noteq> None")
  case True
  show ?thesis
  proof (rule entry_allocate_cases [OF assms, of grant])
    fix i t' e
    assume *: "entry_allocate grant t = (TURBOWASM_OK, Some (handle_at t' i), Some i, t')" "wf_table t'" "i < capacity t'"
      "entries t' ! i = entry_taken e" "\<And>L sc. table_changes L (t, sc) (t', sc)"
    have "wf_entry (entry_taken e)" using wf_table_entry [OF *(2,3)] *(4) by simp
    then show ?thesis
      using * True
      by (simp add: turbowasm_component_handle_insert_def, intro allocated_changes)
         (auto simp: same_slot_def wf_entry_def entry_taken_def zero_entry_def)
  qed (use True in \<open>simp_all add: turbowasm_component_handle_insert_def\<close>)
qed (auto simp: turbowasm_component_handle_insert_def)

lemma new_changes:
  assumes "wf_table t"
  shows "table_changes L (t, sc) (snd (snd (resource_new grant t identity rep own)), sc)"
proof (cases "identity = 0")
  case False
  show ?thesis
  proof (rule entry_allocate_cases [OF assms, of grant])
    fix i t' e
    assume *: "entry_allocate grant t = (TURBOWASM_OK, Some (handle_at t' i), Some i, t')" "wf_table t'" "i < capacity t'"
      "entries t' ! i = entry_taken e" "\<And>L sc. table_changes L (t, sc) (t', sc)"
    have "wf_entry (entry_taken e)" using wf_table_entry [OF *(2,3)] *(4) by simp
    then show ?thesis
      using * False
      by (simp add: resource_new_def, intro allocated_changes)
         (auto simp: same_slot_def wf_entry_def entry_taken_def zero_entry_def)
  qed (use False in \<open>simp_all add: resource_new_def\<close>)
qed (simp add: resource_new_def)

lemma publish_cases:
  assumes "turbowasm_component_resource_publish t h r identity rep = (st, t')"
  obtains (refused) "t' = t" "st \<noteq> TURBOWASM_OK"
  | (published) i where "st = TURBOWASM_OK" "entry_get t h = Some i" "entry_kind (entries t ! i) = HANDLE_RESOURCE_RESERVATION"
        "entry_object (entries t ! i) = r" "identity \<noteq> 0"
        "t' = entry_update i (\<lambda>e. e\<lparr>entry_kind := HANDLE_RESOURCE, entry_object := None,
               resource_identity := identity, entry_rep := rep, owned := True\<rparr>) t"
proof (cases "entry_get t h")
  case None
  then show thesis using assms by (intro refused) (auto simp: turbowasm_component_resource_publish_def split: if_splits)
next
  case (Some i)
  then show thesis
    using assms by (cases "st = TURBOWASM_OK") (auto simp: turbowasm_component_resource_publish_def split: if_splits intro: refused published)
qed

lemma publish_changes:
  assumes wf: "wf_table t" and p: "turbowasm_component_resource_publish t h r identity rep = (st, t')"
  shows "table_changes L (t, sc) (t', sc) \<and>
    (st = TURBOWASM_OK \<longrightarrow> (\<exists>i. entry_get t h = Some i \<and> entry_get t' h = Some i \<and>
      entry_kind (entries t' ! i) = HANDLE_RESOURCE \<and> borrow_scope (entries t' ! i) = None \<and> lend_count (entries t' ! i) = 0 \<and>
      owned (entries t' ! i)))"
  using p
proof (cases rule: publish_cases)
  case (published i)

    define f :: "turbowasm_component_resource_entry \<Rightarrow> turbowasm_component_resource_entry" where "f = (\<lambda>e. e\<lparr>entry_kind := HANDLE_RESOURCE, entry_object := None,
               resource_identity := identity, entry_rep := rep, owned := True\<rparr>)"
    have t': "t' = entry_update i f t" using published(6) by (simp add: f_def)
    have i: "i < capacity t" and occ: "occupied (entries t ! i)" using entry_get_SomeD [OF published(2)] by simp_all
    have w: "wf_entry (entries t ! i)" by (rule wf_table_entry [OF wf i])
    have z: "borrow_scope (entries t ! i) = None" "lend_count (entries t ! i) = 0"
      using w published(3) by (simp_all add: wf_entry_def)
    have f: "occupied (f (entries t ! i))" "generation (f (entries t ! i)) = generation (entries t ! i)"
      "retired (f (entries t ! i)) = retired (entries t ! i)" "wf_entry (f (entries t ! i))"
      using w z occ by (simp_all add: f_def wf_entry_def)
    have "table_change L (t, sc) (t', sc)"
      unfolding t' by (rule change_rewrite [OF wf published(2) z(2)]) (use f occ in \<open>simp_all add: same_slot_def f_def\<close>)
    moreover have "entry_get t' h = Some i"
      unfolding t' wf_table_update(4) [where f = f, OF wf i occ f] by (rule published(2))
    ultimately show ?thesis using published(1,2) z i by (simp add: t' entry_update_nth f_def r_into_rtranclp)
qed simp

lemma publish_borrowed_changes:
  assumes wf: "wf_table t"
  shows "table_changes L (t, sc) (snd (turbowasm_component_resource_publish_borrowed t sc h r identity rep p))"
proof (cases p)
  case (Some q)
  obtain st t1 where pub: "turbowasm_component_resource_publish t h r identity rep = (st, t1)"
    by (cases "turbowasm_component_resource_publish t h r identity rep")
  have ch: "table_changes L (t, sc) (t1, sc)"
    using publish_changes [OF wf pub, of L sc] by blast
  show ?thesis
  proof (cases "sc q \<noteq> U32_MAX \<and> st = TURBOWASM_OK")
    case True
    then obtain i where i: "entry_get t1 h = Some i" "entry_kind (entries t1 ! i) = HANDLE_RESOURCE"
        "borrow_scope (entries t1 ! i) = None" "lend_count (entries t1 ! i) = 0"
      using publish_changes [OF wf pub] by blast
    then have "table_change L (t1, sc)
      (entry_update i (\<lambda>e. e\<lparr>owned := False, borrow_scope := Some q\<rparr>) t1, sc(q := sc q + 1))"
      using True by (intro change_claim) (auto dest: entry_get_SomeD)
    then show ?thesis
      using ch True i(1) by (simp add: turbowasm_component_resource_publish_borrowed_def Some pub)
  next
    case False
    then show ?thesis using ch by (auto simp: turbowasm_component_resource_publish_borrowed_def Some pub)
  qed
qed (simp add: turbowasm_component_resource_publish_borrowed_def)

lemma lend_changes:
  assumes wf: "wf_table t"
  shows "table_changes L (t, sc) (snd (turbowasm_component_resource_lend_acquire t h identity), sc)"
proof (cases "entry_get t h")
  case (Some i)
  show ?thesis
  proof (cases "identity = 0 \<or> entry_kind (entries t ! i) \<noteq> HANDLE_RESOURCE \<or> resource_identity (entries t ! i) \<noteq> identity \<or>
      lend_count (entries t ! i) = U32_MAX")
    case True
    then show ?thesis by (auto simp: turbowasm_component_resource_lend_acquire_def Some)
  next
    case False
    define e where "e = entries t ! i"
    have i: "i < capacity t" "occupied e" using entry_get_SomeD [OF Some] by (simp_all add: e_def)
    have w: "wf_entry e" using wf_table_entry [OF wf i(1)] by (simp add: e_def)
    have "unat (lend_count e) < 4294967296" using unat_less_exp [of "lend_count e"] by simp
    moreover have "unat (lend_count e) \<noteq> 4294967295" using False word_unat_eq_iff [of "lend_count e" U32_MAX] by (simp add: e_def)
    ultimately have "unat (lend_count e + 1) = Suc (unat (lend_count e))" by (intro unat_plus_one) simp
    then have le: "lend_count e \<le> lend_count e + 1" by (simp add: word_le_nat_alt)
    have "table_change L (t, sc) (entry_update i (\<lambda>e. e\<lparr>lend_count := lend_count e + 1\<rparr>) t, sc)"
      using i w le False by (intro change_update [OF i(1) e_def]) (auto simp: same_slot_def wf_entry_def e_def)
    then show ?thesis
      using False by (simp add: turbowasm_component_resource_lend_acquire_def Some r_into_rtranclp)
  qed
qed (simp add: turbowasm_component_resource_lend_acquire_def)

lemma release_changes:
  assumes wf: "wf_table t"
  shows "table_changes {h} (t, sc) (snd (turbowasm_component_resource_lend_release t h identity), sc)"
proof (cases "entry_get t h")
  case (Some i)
  have i: "i < capacity t" "occupied (entries t ! i)" "h = handle_at t i" using Some entry_get_iff [OF wf] by simp_all
  show ?thesis
  proof (cases "identity = 0 \<or> entry_kind (entries t ! i) \<noteq> HANDLE_RESOURCE \<or> resource_identity (entries t ! i) \<noteq> identity \<or>
      lend_count (entries t ! i) = 0")
    case True
    then show ?thesis by (auto simp: turbowasm_component_resource_lend_release_def Some)
  next
    case False
    then have "table_change {h} (t, sc) (entry_update i (\<lambda>e. e\<lparr>lend_count := lend_count e - 1\<rparr>) t, sc)"
      using i(3) by (intro change_release [OF i(1,2)]) auto
    with False show ?thesis
      by (simp add: turbowasm_component_resource_lend_release_def Some r_into_rtranclp)
  qed
qed (simp add: turbowasm_component_resource_lend_release_def)

lemma remove_changes:
  assumes wf: "wf_table t"
  shows "table_changes L (t, sc) (snd (snd (turbowasm_component_handle_remove t sc h k)))"
proof (cases "entry_get t h")
  case (Some i)
  have i: "i < capacity t" "occupied (entries t ! i)" using entry_get_SomeD [OF Some] by simp_all
  have "lend_count (entries t ! i) = 0" if "entry_kind (entries t ! i) = k" "private_kind k"
    using wf_table_entry [OF wf i(1)] that by (auto simp: wf_entry_def private_kind_def)
  then show ?thesis
    using change_remove [OF i, of L sc] by (auto simp: turbowasm_component_handle_remove_def Some)
qed (simp add: turbowasm_component_handle_remove_def)

lemma take_owned_changes:
  "table_changes L (t, sc) (snd (snd (turbowasm_component_resource_take_owned t sc h identity)))"
proof (cases "entry_get t h")
  case (Some i)
  have i: "i < capacity t" "occupied (entries t ! i)" using entry_get_SomeD [OF Some] by simp_all
  then show ?thesis
    using change_remove [OF i, of L sc] by (auto simp: turbowasm_component_resource_take_owned_def Some)
qed (simp add: turbowasm_component_resource_take_owned_def)

lemma drop_changes:
  "table_changes L (t, sc) (snd (snd (turbowasm_component_resource_drop t sc h identity dtor)))"
proof (cases "entry_get t h")
  case (Some i)
  have i: "i < capacity t" "occupied (entries t ! i)" using entry_get_SomeD [OF Some] by simp_all
  then show ?thesis
    using change_remove [OF i, of L sc]
    by (auto simp: turbowasm_component_resource_drop_def Some Let_def split: option.split)
qed (simp add: turbowasm_component_resource_drop_def)

subsection \<open>Clearing a borrow scope\<close>

lemma scope_count_Some:
  assumes "\<forall>e \<in> set es. borrow_scope e \<noteq> None \<longrightarrow> occupied e"
  shows "scope_count p es n =
    (if \<forall>e \<in> set es. borrow_scope e = Some p \<longrightarrow> entry_kind e = HANDLE_RESOURCE \<and> \<not> owned e \<and> lend_count e = 0
     then Some (n + of_nat (length (filter (\<lambda>e. borrow_scope e = Some p) es))) else None)"
  using assms by (induction es arbitrary: n) (auto simp: ac_simps)

lemma scope_count_eq:
  assumes "wf_table t"
  shows "scope_count p (entries t) 0 =
    (if \<forall>e \<in> set (entries t). borrow_scope e = Some p \<longrightarrow> lend_count e = 0 then Some (of_nat (claims t p)) else None)"
proof -
  have w: "wf_entry e" if "e \<in> set (entries t)" for e using that assms by (simp add: wf_table_def)
  have "(\<forall>e \<in> set (entries t). borrow_scope e = Some p \<longrightarrow> entry_kind e = HANDLE_RESOURCE \<and> \<not> owned e \<and> lend_count e = 0) =
    (\<forall>e \<in> set (entries t). borrow_scope e = Some p \<longrightarrow> lend_count e = 0)"
    using w by (fastforce simp: wf_entry_def)
  moreover have "\<forall>e \<in> set (entries t). borrow_scope e \<noteq> None \<longrightarrow> occupied e"
    using w by (fastforce simp: wf_entry_def)
  ultimately show ?thesis by (simp add: scope_count_Some claims_def)
qed

text \<open>The table after the first \<open>k\<close> rounds of the second loop.\<close>

lemma scope_clear_rounds:
  assumes wf: "wf_table t" and idle: "\<forall>e \<in> set (entries t). borrow_scope e = Some p \<longrightarrow> lend_count e = 0"
    and k: "k \<le> capacity t" and f: "fold (scope_clear_step p) [0..<k] (t, sc) = (t', sc')"
  shows "wf_table t' \<and> table_changes L (t, sc) (t', sc') \<and> max_entries t' = max_entries t \<and>
    entries t' = map (\<lambda>e. if borrow_scope e = Some p then entry_cleared e else e) (take k (entries t)) @ drop k (entries t) \<and>
    sc' = sc(p := sc p - of_nat (length (filter (\<lambda>e. borrow_scope e = Some p) (take k (entries t))))) \<and>
    issued t' = issued t"
  using k f
proof (induction k arbitrary: t' sc')
  case 0
  then show ?case using wf by auto
next
  case (Suc k)
  obtain t1 sc1 where r: "fold (scope_clear_step p) [0..<k] (t, sc) = (t1, sc1)" by fastforce
  have k: "k < capacity t" using Suc.prems(1) by simp
  note IH = Suc.IH [OF less_imp_le [OF k] r]
  have step: "(t', sc') = scope_clear_step p k (t1, sc1)" using Suc.prems(2) r by simp
  have wf1: "wf_table t1" and ch: "table_changes L (t, sc) (t1, sc1)" and mx: "max_entries t1 = max_entries t"
    and ent: "entries t1 = map (\<lambda>e. if borrow_scope e = Some p then entry_cleared e else e) (take k (entries t)) @ drop k (entries t)"
    and sc1: "sc1 = sc(p := sc p - of_nat (length (filter (\<lambda>e. borrow_scope e = Some p) (take k (entries t)))))"
    and iss: "issued t1 = issued t"
    using IH by blast+
  have nth: "entries t1 ! k = entries t ! k" using k by (simp add: ent nth_append)
  have cap: "k < capacity t1" using k by (simp add: ent)
  have tk: "take (Suc k) (entries t) = take k (entries t) @ [entries t ! k]" using k by (simp add: take_Suc_conv_app_nth)
  have dk: "drop k (entries t) = entries t ! k # drop (Suc k) (entries t)" using k by (simp add: Cons_nth_drop_Suc)
  show ?case
  proof (cases "borrow_scope (entries t ! k) = Some p")
    case True
    have occ: "occupied (entries t1 ! k)" and l: "lend_count (entries t1 ! k) = 0"
      using True wf_table_entry [OF wf k] idle k nth by (auto simp: wf_entry_def)
    have rem: "resource_entry_remove t1 sc1 k = (t', sc')" using step True occ nth by (simp add: scope_clear_step_def)
    note R = resource_entry_remove [OF wf1 cap occ rem]
    have "table_change L (t1, sc1) (t', sc')" using change_remove [OF cap occ l, of L sc1] rem by simp
    with ch have ch': "table_changes L (t, sc) (t', sc')" by (rule rtranclp.rtrancl_into_rtrancl)
    have sc': "sc' = sc(p := sc p - of_nat (length (filter (\<lambda>e. borrow_scope e = Some p) (take (Suc k) (entries t)))))"
      using True R(5) by (simp add: sc1 nth tk scope_release_def fun_eq_iff diff_diff_eq add.commute)
    have "issued t' = issued t" "max_entries t' = max_entries t" using R(2,6) iss mx by simp_all
    moreover have "entries t' = map (\<lambda>e. if borrow_scope e = Some p then entry_cleared e else e) (take (Suc k) (entries t)) @ drop (Suc k) (entries t)"
      using True k R(4) by (simp add: ent tk dk nth_append list_update_append)
    ultimately show ?thesis using ch' sc' R(1) by blast
  next
    case False
    then have "t' = t1" "sc' = sc1" using step nth by (auto simp: scope_clear_step_def)
    moreover have "sc1 = sc(p := sc p - of_nat (length (filter (\<lambda>e. borrow_scope e = Some p) (take (Suc k) (entries t)))))"
      using sc1 False by (simp only: tk filter_append filter.simps append_Nil2 if_False)
    moreover have "entries t1 = map (\<lambda>e. if borrow_scope e = Some p then entry_cleared e else e) (take (Suc k) (entries t)) @ drop (Suc k) (entries t)"
      using False by (simp add: ent tk dk)
    ultimately show ?thesis using wf1 ch mx iss by blast
  qed
qed

end
