(* ===== verification/TW_Resource_Laws.thy ===== *)
theory TW_Resource_Laws
  imports TW_Resource
begin

text \<open>
  The laws of the handle table of \<^verbatim>\<open>src/src/component_resource.c\<close> over sequences of operations. Each operation is a
  sequence of the elementary changes of TW_Resource, so the invariant, the fate of a handle and the pinning of lent
  resources follow by induction over changes; the table implements the interface \<open>handle_table\<close>.
\<close>

lemma scope_clear_changes:
  assumes wf: "wf_table t"
  shows "table_changes L (t, sc) (snd (turbowasm_component_resource_scope_clear t sc p))"
proof (cases p)
  case (Some q)
  show ?thesis
  proof (cases "\<forall>e \<in> set (entries t). borrow_scope e = Some q \<longrightarrow> lend_count e = 0")
    case True
    obtain t' sc' where f: "fold (scope_clear_step q) [0..<capacity t] (t, sc) = (t', sc')" by fastforce
    have "table_changes L (t, sc) (t', sc')"
      using scope_clear_rounds [OF wf True order_refl f] by blast
    moreover have "scope_count q (entries t) 0 = Some (of_nat (claims t q))"
      unfolding scope_count_eq [OF wf] using True by (rule if_P)
    ultimately show ?thesis
      by (simp add: turbowasm_component_resource_scope_clear_def Some f)
  next
    case False
    then have "scope_count q (entries t) 0 = None" unfolding scope_count_eq [OF wf] by (rule if_not_P)
    then show ?thesis by (simp add: turbowasm_component_resource_scope_clear_def Some)
  qed
qed (simp add: turbowasm_component_resource_scope_clear_def)

lemma resource_step_changes:
  assumes "wf_table (fst s)"
  shows "table_changes (released a) s (resource_step a s)"
proof -
  obtain t sc where s: "s = (t, sc)" by (cases s)
  have wf: "wf_table t" using assms s by simp
  show ?thesis
  proof (cases a)
    case (OpInsert grant k x)
    then show ?thesis using insert_changes [OF wf] by (simp add: s)
  next
    case (OpNew grant identity rep own)
    then show ?thesis
      using new_changes [OF wf]
      by (simp add: s turbowasm_component_resource_new_owned_def turbowasm_component_resource_new_borrowed_def)
  next
    case (OpPublish h r identity rep)
    then show ?thesis
      using publish_changes [OF wf] by (cases "turbowasm_component_resource_publish t h r identity rep") (simp add: s)
  next
    case (OpPublishBorrowed h r identity rep p)
    then show ?thesis using publish_borrowed_changes [OF wf] by (simp add: s)
  next
    case (OpLend h identity)
    then show ?thesis using lend_changes [OF wf] by (simp add: s)
  next
    case (OpRelease h identity)
    then show ?thesis using release_changes [OF wf] by (simp add: s)
  next
    case (OpScopeClear p)
    then show ?thesis using scope_clear_changes [OF wf] by (simp add: s)
  next
    case (OpRemove h k)
    then show ?thesis using remove_changes [OF wf] by (simp add: s)
  next
    case (OpTakeOwned h identity)
    then show ?thesis using take_owned_changes by (simp add: s)
  next
    case (OpDrop h identity)
    then show ?thesis using drop_changes by (simp add: s)
  qed
qed

lemma table_changes_inv: "table_changes L s s' \<Longrightarrow> resource_inv s \<Longrightarrow> resource_inv s'"
  by (induction rule: rtranclp_induct) (auto intro: table_change_inv)

lemma table_changes_issued:
  "table_changes L s s' \<Longrightarrow> resource_inv s \<Longrightarrow> issued (fst s) h \<Longrightarrow> issued (fst s') h"
proof (induction rule: rtranclp_induct)
  case (step y z)
  have wf: "wf_table (fst y)" using table_changes_inv [OF step(1)] step.prems by (simp add: resource_inv_def)
  have "issued (fst y) h" using step by simp
  with step(2) wf show ?case by - (erule (1) table_change_view, auto)
qed

lemma table_changes_dead:
  "table_changes L s s' \<Longrightarrow> resource_inv s \<Longrightarrow> issued (fst s) h \<Longrightarrow> resource_view (fst s) h = None \<Longrightarrow>
     resource_view (fst s') h = None"
proof (induction rule: rtranclp_induct)
  case (step y z)
  have wf: "wf_table (fst y)" using table_changes_inv [OF step(1)] step.prems by (simp add: resource_inv_def)
  have "issued (fst y) h" using table_changes_issued [OF step(1)] step.prems by simp
  moreover have "resource_view (fst y) h = None" using step by simp
  ultimately show ?case using step(2) wf by - (erule (1) table_change_view, auto)
qed

text \<open>A lent resource keeps its handle, identity and representation.\<close>

definition keeps_lent :: "turbowasm_component_resource_entry \<Rightarrow> turbowasm_component_resource_entry \<Rightarrow> bool" where
  "keeps_lent e e' \<longleftrightarrow> entry_kind e' = entry_kind e \<and> resource_identity e' = resource_identity e \<and>
     entry_rep e' = entry_rep e \<and> owned e' = owned e \<and> lend_count e \<le> lend_count e'"

lemma table_changes_lent:
  "table_changes L s s' \<Longrightarrow> resource_inv s \<Longrightarrow> resource_view (fst s) h = Some e \<Longrightarrow> lend_count e \<noteq> 0 \<Longrightarrow> h \<notin> L \<Longrightarrow>
     \<exists>e'. resource_view (fst s') h = Some e' \<and> keeps_lent e e'"
proof (induction rule: rtranclp_induct)
  case base
  then show ?case by (simp add: keeps_lent_def)
next
  case (step y z)
  have wf: "wf_table (fst y)" using table_changes_inv [OF step(1)] step.prems by (simp add: resource_inv_def)
  obtain e1 where e1: "resource_view (fst y) h = Some e1" "keeps_lent e e1" using step by auto
  have nz: "lend_count e1 \<noteq> 0" using e1(2) step.prems(3) by (auto simp: keeps_lent_def)
  from step(2) wf show ?case
  proof (cases rule: table_change_view)
    case (fresh h' e')
    then show ?thesis using e1 resource_view_issued [OF e1(1)] by auto
  next
    case (rewritten h' e' e'')
    then show ?thesis using e1 nz step.prems(4) by (cases "h = h'") (auto simp: keeps_lent_def)
  next
    case (gone h' e')
    then show ?thesis using e1 nz by auto
  qed (use e1 in auto)
qed

interpretation resource_handles: handle_table resource_inv "\<lambda>s. resource_view (fst s)" "\<lambda>s. issued (fst s)" resource_step
proof
  fix a s h
  assume inv: "resource_inv s"
  then have ch: "table_changes (released a) s (resource_step a s)"
    by (intro resource_step_changes) (simp add: resource_inv_def)
  show "resource_inv (resource_step a s)" by (rule table_changes_inv [OF ch inv])
  show "issued (fst s) h" if "resource_view (fst s) h \<noteq> None" using that resource_view_issued by blast
  show "issued (fst (resource_step a s)) h" if "issued (fst s) h" by (rule table_changes_issued [OF ch inv that])
  show "resource_view (fst (resource_step a s)) h = None" if "issued (fst s) h" "resource_view (fst s) h = None"
    by (rule table_changes_dead [OF ch inv that])
qed

lemma resource_init_inv:
  assumes "turbowasm_component_resource_table_init zero_table limit = (True, t)"
  shows "resource_inv (t, sc)" and "max_entries t \<noteq> 0"
  using assms
  by (auto simp: turbowasm_component_resource_table_init_def zero_table_def Let_def resource_inv_def wf_table_def
      scopes_ok_def claims_def not_less split: if_splits)

subsection \<open>Properties\<close>


text \<open>
  C23. The table invariant. After any sequence of operations on an initialised table, with any allocator and any
  borrow scopes: the live count is the number of handles that resolve, it never exceeds the configured limit, and every
  borrow-scope counter covers the entries that claim it, so no counter is ever decremented below zero.
\<close>

lemma resource_view_dom:
  assumes "wf_table t"
  shows "dom (resource_view t) = handle_at t ` {i. i < capacity t \<and> occupied (entries t ! i)}"
  using entry_get_iff [OF assms] by (auto simp: resource_view_def dom_def)

lemma live_count_card:
  assumes wf: "wf_table t"
  shows "unat (live_count t) = card (dom (resource_view t))"
proof -
  have inj: "inj_on (handle_at t) {i. i < capacity t \<and> occupied (entries t ! i)}"
  proof (rule inj_onI)
    fix i j
    assume *: "i \<in> {i. i < capacity t \<and> occupied (entries t ! i)}" "j \<in> {i. i < capacity t \<and> occupied (entries t ! i)}"
      "handle_at t i = handle_at t j"
    then have "entry_get t (handle_at t i) = Some i" "entry_get t (handle_at t i) = Some j"
      using entry_get_iff [OF wf] by auto
    then show "i = j" by simp
  qed
  have "length (filter occupied (entries t)) = card {i. i < capacity t \<and> occupied (entries t ! i)}"
    by (rule length_filter_conv_card)
  then show ?thesis
    using wf by (simp add: resource_view_dom [OF wf] card_image [OF inj] wf_table_def)
qed

theorem resource_table_invariant:
  assumes "turbowasm_component_resource_table_init zero_table limit = (True, t0)"
    and "fold resource_step ops (t0, sc0) = (t, sc)"
  shows "unat (live_count t) = card (dom (resource_view t)) \<and> live_count t \<le> max_entries t \<and>
    (\<forall>p. claims t p \<le> unat (sc p))"
proof -
  have inv: "resource_inv (t, sc)"
    using resource_handles.run_inv [OF resource_init_inv(1) [OF assms(1)], where as = ops and sc1 = sc0] assms(2) by simp
  then have wf: "wf_table t" by (simp add: resource_inv_def)
  have "unat (live_count t) \<le> unat (max_entries t)"
    using wf le_trans [OF length_filter_le [of occupied "entries t"]] by (simp add: wf_table_def)
  then show ?thesis
    using inv live_count_card [OF wf] by (simp add: resource_inv_def scopes_ok_def word_le_nat_alt)
qed

lemmas resource_eval =
  turbowasm_component_resource_table_init_def zero_table_def turbowasm_component_resource_new_owned_def
  turbowasm_component_resource_new_borrowed_def resource_new_def entry_allocate_def entry_find.simps table_grow_def
  zero_entry_def entry_update_def handle_encode_def turbowasm_component_resource_lend_acquire_def
  turbowasm_component_resource_lend_release_def turbowasm_component_resource_drop_def
  turbowasm_component_resource_take_owned_def turbowasm_component_resource_scope_clear_def
  turbowasm_component_resource_publish_borrowed_def turbowasm_component_resource_publish_def
  turbowasm_component_handle_insert_def turbowasm_component_handle_remove_def resource_entry_remove_def private_kind_def
  entry_get_def handle_decode_def Let_def

theorem resource_table_invariant_witness:
  "\<exists>t sc. fold resource_step [OpNew (\<lambda>_. True) 7 (VALUE_I32 1) True, OpLend 0x10001 7]
       (\<lparr>entries = [], live_count = 0, max_entries = 1\<rparr>, \<lambda>_. 0) = (t, sc) \<and>
     live_count t = 1 \<and> unat (live_count t) = card (dom (resource_view t))"
proof -
  have i: "turbowasm_component_resource_table_init zero_table 1 =
      (True, \<lparr>entries = [], live_count = 0, max_entries = 1\<rparr>)"
    by (simp add: turbowasm_component_resource_table_init_def zero_table_def)
  obtain t sc where r: "fold resource_step [OpNew (\<lambda>_. True) 7 (VALUE_I32 1) True, OpLend 0x10001 7]
      (\<lparr>entries = [], live_count = 0, max_entries = 1\<rparr>, \<lambda>_. 0) = (t, sc)"
    by fastforce
  have "live_count t = 1" using r by (auto simp: resource_eval)
  then show ?thesis using r resource_table_invariant [OF i r] by blast
qed

text \<open>
  The contract of allocation: while a slot is free or the table may grow, a handle that was never
  issued is bound to an entry and nothing else changes; otherwise memory is reported as exhausted and the
  table is untouched.
\<close>

definition has_room :: "(nat \<Rightarrow> bool) \<Rightarrow> turbowasm_component_resource_table \<Rightarrow> bool" where
  "has_room grant t \<longleftrightarrow> (\<exists>e \<in> set (entries t). \<not> occupied e \<and> \<not> retired e) \<or>
     (capacity t < unat (max_entries t) \<and> grant (next_capacity t))"

definition allocates ::
    "(nat \<Rightarrow> bool) \<Rightarrow> turbowasm_component_resource_table \<Rightarrow>
     turbowasm_status \<times> turbowasm_component_resource_handle option \<times> turbowasm_component_resource_table \<Rightarrow>
     (turbowasm_component_resource_entry \<Rightarrow> bool) \<Rightarrow> bool" where
  "allocates grant t r P \<longleftrightarrow>
     (case r of (status, handle, t') \<Rightarrow>
        if has_room grant t
        then status = TURBOWASM_OK \<and>
             (\<exists>h e. handle = Some h \<and> h \<noteq> 0 \<and> \<not> issued t h \<and> issued t' = (issued t)(h := True) \<and>
                resource_view t' = (resource_view t)(h \<mapsto> e) \<and> P e)
        else status = TURBOWASM_OUT_OF_MEMORY \<and> handle = None \<and> t' = t)"

lemma entry_allocate_full:
  assumes "wf_table t" and "\<not> has_room grant t" and "max_entries t \<noteq> 0"
  shows "entry_allocate grant t = (TURBOWASM_OUT_OF_MEMORY, None, None, t)"
proof -
  have "find_free (entries t) = None" using assms(2) by (auto simp: find_free_None has_room_def)
  moreover have "table_grow grant t = None"
    using assms(1,2) by (auto simp: table_grow_None has_room_def wf_table_def)
  ultimately show ?thesis using assms(3) by (simp add: entry_allocate_def entry_find.simps)
qed

lemma entry_allocate_then:
  assumes wf: "wf_table t" and m: "max_entries t \<noteq> 0" and room: "has_room grant t"
  obtains i t' e where "entry_allocate grant t = (TURBOWASM_OK, Some (handle_at t' i), Some i, t')" "wf_table t'"
    "i < capacity t'" "entries t' ! i = entry_taken e" "handle_at t' i \<noteq> 0" "\<not> issued t (handle_at t' i)"
    "\<And>f. same_slot (entry_taken e) (f (entry_taken e)) \<Longrightarrow> wf_entry (f (entry_taken e)) \<Longrightarrow>
       issued (entry_update i f t') = (issued t)(handle_at t' i := True) \<and>
       resource_view (entry_update i f t') = (resource_view t)(handle_at t' i \<mapsto> f (entry_taken e))"
proof (rule entry_allocate_cases [OF wf, of grant])
  fix i t' e
  assume *: "entry_allocate grant t = (TURBOWASM_OK, Some (handle_at t' i), Some i, t')" "wf_table t'" "i < capacity t'"
    "entries t' ! i = entry_taken e" "handle_at t' i \<noteq> 0" "\<not> issued t (handle_at t' i)"
    "issued t' = (issued t)(handle_at t' i := True)"
    "resource_view t' = (resource_view t)(handle_at t' i \<mapsto> entries t' ! i)"
  have "issued (entry_update i f t') = (issued t)(handle_at t' i := True) \<and>
       resource_view (entry_update i f t') = (resource_view t)(handle_at t' i \<mapsto> f (entry_taken e))"
    if "same_slot (entry_taken e) (f (entry_taken e))" "wf_entry (f (entry_taken e))" for f
    using slot_update(2,3) [OF *(2,3), of f] that by (simp add: *(4,7,8))
  with * show thesis by (intro that)
qed (use m room in \<open>auto simp: has_room_def\<close>)

lemma wf_entry_taken:
  assumes "wf_table t'" and "i < capacity t'" and "entries t' ! i = entry_taken e"
  shows "generation (entry_taken e) \<noteq> 0 \<and> generation (entry_taken e) \<le> RESOURCE_MAX_GENERATION"
  using wf_table_entry [OF assms(1,2)] by (simp add: assms(3) wf_entry_def entry_taken_def)

text \<open>
  C24. Allocation refines the abstract table. On a well-formed, initialised table, inserting a private
  object and creating an owned or borrowed resource bind a fresh handle to exactly the given contents
  whenever there is room, and fail without effect otherwise.
\<close>

theorem resource_allocation_refines:
  assumes "wf_table t" and "max_entries t \<noteq> 0" and "private_kind k" and "identity \<noteq> 0"
  shows "allocates grant t (turbowasm_component_handle_insert grant t k (Some x))
      (\<lambda>e. entry_kind e = k \<and> entry_object e = Some x \<and> lend_count e = 0 \<and> borrow_scope e = None) \<and>
    allocates grant t (turbowasm_component_resource_new_owned grant t identity rep)
      (\<lambda>e. entry_kind e = HANDLE_RESOURCE \<and> resource_identity e = identity \<and> entry_rep e = rep \<and> owned e \<and>
        lend_count e = 0 \<and> borrow_scope e = None) \<and>
    allocates grant t (turbowasm_component_resource_new_borrowed grant t identity rep)
      (\<lambda>e. entry_kind e = HANDLE_RESOURCE \<and> resource_identity e = identity \<and> entry_rep e = rep \<and> \<not> owned e \<and>
        lend_count e = 0 \<and> borrow_scope e = None)"
proof (cases "has_room grant t")
  case False
  then show ?thesis
    using entry_allocate_full [OF assms(1) False assms(2)] assms
    by (simp add: allocates_def turbowasm_component_handle_insert_def resource_new_def
        turbowasm_component_resource_new_owned_def turbowasm_component_resource_new_borrowed_def)
next
  case True
  obtain i t' e where a: "entry_allocate grant t = (TURBOWASM_OK, Some (handle_at t' i), Some i, t')"
    and wf: "wf_table t'" "i < capacity t'" "entries t' ! i = entry_taken e"
    and h: "handle_at t' i \<noteq> 0" "\<not> issued t (handle_at t' i)"
    and upd: "\<And>f. same_slot (entry_taken e) (f (entry_taken e)) \<Longrightarrow> wf_entry (f (entry_taken e)) \<Longrightarrow>
       issued (entry_update i f t') = (issued t)(handle_at t' i := True) \<and>
       resource_view (entry_update i f t') = (resource_view t)(handle_at t' i \<mapsto> f (entry_taken e))"
    by (rule entry_allocate_then [OF assms(1,2) True]) (rule that)
  note g = wf_entry_taken [OF wf]
  have ins: "allocates grant t (TURBOWASM_OK, Some (handle_at t' i), entry_update i f t') P"
    if "same_slot (entry_taken e) (f (entry_taken e))" "wf_entry (f (entry_taken e))" "P (f (entry_taken e))" for f P
    using upd [of f, OF that(1,2)] that(3) h True by (auto simp: allocates_def)
  show ?thesis
    using assms(3,4) a g
    by (auto simp: turbowasm_component_handle_insert_def resource_new_def turbowasm_component_resource_new_owned_def
        turbowasm_component_resource_new_borrowed_def same_slot_def wf_entry_def entry_taken_def zero_entry_def
        intro!: ins)
qed

theorem resource_allocation_refines_witness:
  "\<exists>h t'. turbowasm_component_handle_insert (\<lambda>_. True) \<lparr>entries = [], live_count = 0, max_entries = 1\<rparr> HANDLE_SUBTASK (Some 5) =
       (TURBOWASM_OK, Some h, t') \<and> h \<noteq> 0 \<and> (\<exists>e. resource_view t' h = Some e \<and> entry_object e = Some 5)"
proof -
  let ?t = "\<lparr>entries = [], live_count = 0, max_entries = 1\<rparr>"
  have "allocates (\<lambda>_. True) ?t (turbowasm_component_handle_insert (\<lambda>_. True) ?t HANDLE_SUBTASK (Some 5))
      (\<lambda>e. entry_kind e = HANDLE_SUBTASK \<and> entry_object e = Some 5 \<and> lend_count e = 0 \<and> borrow_scope e = None)"
    using resource_allocation_refines [of ?t HANDLE_SUBTASK 1 "\<lambda>_. True" 5 "VALUE_I32 0"]
    by (simp add: wf_table_def private_kind_def)
  moreover have "has_room (\<lambda>_. True) ?t" by (simp add: has_room_def)
  ultimately show ?thesis
    by (cases "turbowasm_component_handle_insert (\<lambda>_. True) ?t HANDLE_SUBTASK (Some 5)") (auto simp: allocates_def)
qed

text \<open>
  C22. No handle is revived. Once a handle that resolved stops resolving, after any operations on an
  initialised table, no further sequence of insertions, publications, removals and drops makes it
  resolve again: a stale handle never reaches a later object in its slot.
\<close>

theorem resource_no_revival:
  assumes "turbowasm_component_resource_table_init zero_table limit = (True, t0)"
    and "resource_view (fst (fold resource_step before (t0, sc))) h \<noteq> None"
    and "resource_view (fst (fold resource_step (before @ mid) (t0, sc))) h = None"
  shows "resource_view (fst (fold resource_step (before @ mid @ after) (t0, sc))) h = None"
  using resource_handles.run_no_revival [OF resource_handles.run_inv [OF resource_init_inv(1) [OF assms(1)]], of before sc h mid after]
    assms(2,3) by simp

theorem resource_no_revival_witness:
  "resource_view (fst (fold resource_step
     ([OpNew (\<lambda>_. True) 7 (VALUE_I32 1) True] @ [OpDrop 0x10001 7] @ [OpNew (\<lambda>_. True) 7 (VALUE_I32 2) True])
     (\<lparr>entries = [], live_count = 0, max_entries = 1\<rparr>, \<lambda>_. 0))) 0x10001 = None"
proof (rule resource_no_revival [where limit = 1])
  show "turbowasm_component_resource_table_init zero_table 1 = (True, \<lparr>entries = [], live_count = 0, max_entries = 1\<rparr>)"
    by (simp add: turbowasm_component_resource_table_init_def zero_table_def)
qed (simp_all add: resource_eval resource_view_def)

text \<open>
  C25. A lent resource is pinned. While a handle is lent and nobody returns a lend of it, no operation on the
  table removes it or changes its identity, representation or ownership, and its lend count does not fall.
\<close>

theorem resource_lent_pinned:
  assumes "turbowasm_component_resource_table_init zero_table limit = (True, t0)"
    and "resource_view (fst (fold resource_step before (t0, sc))) h = Some e" and "lend_count e \<noteq> 0"
    and "\<forall>a \<in> set later. h \<notin> released a"
  shows "\<exists>e'. resource_view (fst (fold resource_step (before @ later) (t0, sc))) h = Some e' \<and> keeps_lent e e'"
proof -
  define s where "s = fold resource_step before (t0, sc)"
  have inv: "resource_inv s"
    unfolding s_def by (rule resource_handles.run_inv [OF resource_init_inv(1) [OF assms(1)]])
  have "\<exists>e'. resource_view (fst (fold resource_step later s)) h = Some e' \<and> keeps_lent e e'"
    if "resource_inv s" "resource_view (fst s) h = Some e" "lend_count e \<noteq> 0" for s e
    using assms(4) that
  proof (induction later arbitrary: s e)
    case Nil
    then show ?case by (simp add: keeps_lent_def)
  next
    case (Cons a as)
    have ch: "table_changes (released a) s (resource_step a s)"
      using Cons.prems(2) by (intro resource_step_changes) (simp add: resource_inv_def)
    obtain e1 where e1: "resource_view (fst (resource_step a s)) h = Some e1" "keeps_lent e e1"
      using table_changes_lent [OF ch Cons.prems(2-4)] Cons.prems(1) by auto
    have "lend_count e1 \<noteq> 0" using e1(2) Cons.prems(4) by (auto simp: keeps_lent_def)
    then obtain e2 where "resource_view (fst (fold resource_step as (resource_step a s))) h = Some e2" "keeps_lent e1 e2"
      using Cons.IH [OF _ table_changes_inv [OF ch Cons.prems(2)] e1(1)] Cons.prems(1) by auto
    then show ?case using e1(2) by (auto simp: keeps_lent_def)
  qed
  from this [OF inv] assms(2,3) show ?thesis by (simp add: s_def)
qed

theorem resource_lent_pinned_witness:
  "\<exists>e'. resource_view (fst (fold resource_step
     ([OpNew (\<lambda>_. True) 7 (VALUE_I32 1) True, OpLend 0x10001 7] @ [OpDrop 0x10001 7, OpTakeOwned 0x10001 7])
     (\<lparr>entries = [], live_count = 0, max_entries = 1\<rparr>, \<lambda>_. 0))) 0x10001 = Some e' \<and> entry_rep e' = VALUE_I32 1"
proof -
  let ?t = "\<lparr>entries = [], live_count = 0, max_entries = 1\<rparr>"
  let ?e = "\<lparr>entry_kind = HANDLE_RESOURCE, entry_object = None, resource_identity = 7, entry_rep = VALUE_I32 1, generation = 1,
     lend_count = 1, borrow_scope = None, occupied = True, retired = False, owned = True\<rparr>"
  have i: "turbowasm_component_resource_table_init zero_table 1 = (True, ?t)"
    by (simp add: turbowasm_component_resource_table_init_def zero_table_def)
  have v: "resource_view (fst (fold resource_step [OpNew (\<lambda>_. True) 7 (VALUE_I32 1) True, OpLend 0x10001 7] (?t, \<lambda>_. 0))) 0x10001 = Some ?e"
    by (simp add: resource_eval resource_view_def)
  show ?thesis
    using resource_lent_pinned [OF i v, of "[OpDrop 0x10001 7, OpTakeOwned 0x10001 7]"] unfolding keeps_lent_def by simp blast
qed

lemma cleared_view:
  assumes wf: "wf_table t"
    and ent: "entries t' = map (\<lambda>e. if borrow_scope e = Some p then entry_cleared e else e) (entries t)"
  shows "resource_view t' h =
    (case resource_view t h of None \<Rightarrow> None | Some e \<Rightarrow> if borrow_scope e = Some p then None else Some e)"
proof -
  have nth: "entries t' ! i = (if borrow_scope (entries t ! i) = Some p then entry_cleared (entries t ! i) else entries t ! i)"
    if "i < capacity t" for i
    using that by (simp add: ent)
  have occ: "occupied (entries t ! i)" if "i < capacity t" "borrow_scope (entries t ! i) = Some p" for i
    using wf_table_entry [OF wf that(1)] that(2) by (auto simp: wf_entry_def)
  show ?thesis
  proof (cases "handle_decode h")
    case (Some ig)
    then obtain i g where h: "handle_decode h = Some (i, g)" by (cases ig) simp
    show ?thesis
    proof (cases "i < capacity t")
      case True
      then show ?thesis
        using h nth [OF True] occ [OF True] by (auto simp: resource_view_def entry_get_def ent)
    qed (simp add: resource_view_def entry_get_def h ent)
  qed (simp add: resource_view_def entry_get_def)
qed

lemma scope_lent_iff:
  assumes wf: "wf_table t"
  shows "(\<forall>e \<in> set (entries t). borrow_scope e = Some p \<longrightarrow> lend_count e = 0) \<longleftrightarrow>
    \<not> (\<exists>h e. resource_view t h = Some e \<and> borrow_scope e = Some p \<and> lend_count e \<noteq> 0)"
proof -
  have "resource_view t (handle_at t i) = Some (entries t ! i)" if "i < capacity t" "borrow_scope (entries t ! i) = Some p" for i
    using entry_get_iff [OF wf, of "handle_at t i" i] wf_table_entry [OF wf that(1)] that
    by (auto simp: resource_view_def wf_entry_def)
  moreover have "e \<in> set (entries t)" if "resource_view t h = Some e" for h e
    using that by (auto simp: resource_view_def dest: entry_get_SomeD)
  ultimately show ?thesis by (metis in_set_conv_nth)
qed

text \<open>
  C26. Closing a borrow scope is all or nothing. In every reachable state it traps, changing nothing, exactly when
  a handle of the scope is still lent; otherwise every handle of the scope and no other is removed, the counter falls by
  the number of handles removed and the other counters stay.
\<close>

theorem resource_scope_clear_atomic:
  assumes "resource_inv (t, sc)"
  shows "if \<exists>h e. resource_view t h = Some e \<and> borrow_scope e = Some p \<and> lend_count e \<noteq> 0
    then turbowasm_component_resource_scope_clear t sc (Some p) = (TURBOWASM_TRAPPED, t, sc)
    else \<exists>t' sc'. turbowasm_component_resource_scope_clear t sc (Some p) = (TURBOWASM_OK, t', sc') \<and>
      (\<forall>h. resource_view t' h =
         (case resource_view t h of None \<Rightarrow> None | Some e \<Rightarrow> if borrow_scope e = Some p then None else Some e)) \<and>
      claims t' p = 0 \<and> unat (sc' p) = unat (sc p) - claims t p \<and> (\<forall>q. q \<noteq> p \<longrightarrow> sc' q = sc q)"
proof -
  have wf: "wf_table t" and c: "claims t p \<le> unat (sc p)" using assms by (simp_all add: resource_inv_def scopes_ok_def)
  show ?thesis
  proof (cases "\<exists>h e. resource_view t h = Some e \<and> borrow_scope e = Some p \<and> lend_count e \<noteq> 0")
    case True
    then have "scope_count p (entries t) 0 = None"
      unfolding scope_count_eq [OF wf] scope_lent_iff [OF wf] by simp
    then show ?thesis using True by (simp add: turbowasm_component_resource_scope_clear_def)
  next
    case False
    then have idle: "\<forall>e \<in> set (entries t). borrow_scope e = Some p \<longrightarrow> lend_count e = 0"
      unfolding scope_lent_iff [OF wf] by simp
    obtain t' sc' where f: "fold (scope_clear_step p) [0..<capacity t] (t, sc) = (t', sc')" by fastforce
    have ent: "entries t' = map (\<lambda>e. if borrow_scope e = Some p then entry_cleared e else e) (entries t)"
      and sc': "sc' = sc(p := sc p - of_nat (claims t p))"
      using scope_clear_rounds [OF wf idle order_refl f] by (simp_all add: claims_def)
    have cnt: "scope_count p (entries t) 0 = Some (of_nat (claims t p))"
      unfolding scope_count_eq [OF wf] using idle by (rule if_P)
    have small: "unat (of_nat (claims t p) :: u32) = claims t p"
      using c unat_less_exp [of "sc p"] by (simp add: unat_of_nat)
    have "(of_nat (claims t p) :: u32) \<le> sc p" using c small by (simp add: word_le_nat_alt)
    then have run: "turbowasm_component_resource_scope_clear t sc (Some p) = (TURBOWASM_OK, t', sc')"
      by (simp add: turbowasm_component_resource_scope_clear_def cnt f not_less)
    have "unat (sc' p) = unat (sc p) - claims t p"
      using \<open>of_nat (claims t p) \<le> sc p\<close> small by (simp add: sc' unat_sub)
    moreover have "claims t' p = 0" by (auto simp: claims_def ent filter_empty_conv)
    ultimately have "\<exists>t' sc'. turbowasm_component_resource_scope_clear t sc (Some p) = (TURBOWASM_OK, t', sc') \<and>
      (\<forall>h. resource_view t' h =
         (case resource_view t h of None \<Rightarrow> None | Some e \<Rightarrow> if borrow_scope e = Some p then None else Some e)) \<and>
      claims t' p = 0 \<and> unat (sc' p) = unat (sc p) - claims t p \<and> (\<forall>q. q \<noteq> p \<longrightarrow> sc' q = sc q)"
      using run cleared_view [OF wf ent] sc' by auto
    then show ?thesis unfolding if_not_P [OF False] .
  qed
qed

theorem resource_scope_clear_atomic_witness:
  "\<exists>t' sc'. turbowasm_component_resource_scope_clear
       \<lparr>entries = [], live_count = 0, max_entries = 1\<rparr> (\<lambda>_. 3) (Some 9) = (TURBOWASM_OK, t', sc') \<and> unat (sc' 9) = 3"
proof -
  let ?t = "\<lparr>entries = [], live_count = 0, max_entries = 1\<rparr>"
  have inv: "resource_inv (?t, \<lambda>_. 3)"
    by (rule resource_init_inv [of 1]) (simp add: turbowasm_component_resource_table_init_def zero_table_def)
  have no: "\<not> (\<exists>h e. resource_view ?t h = Some e \<and> borrow_scope e = Some 9 \<and> lend_count e \<noteq> 0)"
    by (simp add: resource_view_def entry_get_def split: option.split)
  show ?thesis
    using resource_scope_clear_atomic [OF inv, of 9] unfolding if_not_P [OF no] by (auto simp: claims_def)
qed

text \<open>
  C27. Dropping. In every reachable state, dropping a handle that does not resolve, has another kind or identity, or is
  lent traps without effect; any other drop removes exactly this handle, releases its claim on a scope,
  and runs the destructor, once and with the identity and representation of the resource, exactly when the handle owns it.
\<close>

theorem resource_drop_correct:
  assumes "resource_inv (t, sc)" and "identity \<noteq> 0"
  shows "case resource_view t h of
      None \<Rightarrow> turbowasm_component_resource_drop t sc h identity dtor = (TURBOWASM_TRAPPED, None, t, sc)
    | Some e \<Rightarrow>
        if entry_kind e \<noteq> HANDLE_RESOURCE \<or> resource_identity e \<noteq> identity \<or> lend_count e \<noteq> 0
        then turbowasm_component_resource_drop t sc h identity dtor = (TURBOWASM_TRAPPED, None, t, sc)
        else \<exists>t'. turbowasm_component_resource_drop t sc h identity dtor =
            (case dtor of
               Some d \<Rightarrow> if owned e then (d identity (entry_rep e), Some (identity, entry_rep e), t', sc)
                          else (TURBOWASM_OK, None, t', scope_release (borrow_scope e) sc)
             | None \<Rightarrow> (TURBOWASM_OK, None, t', scope_release (borrow_scope e) sc)) \<and>
          resource_view t' = (resource_view t)(h := None)"
proof -
  have wf: "wf_table t" and c: "scopes_ok t sc" using assms(1) by (simp_all add: resource_inv_def)
  show ?thesis
  proof (cases "entry_get t h")
    case None
    then show ?thesis using assms(2) by (simp add: resource_view_def turbowasm_component_resource_drop_def)
  next
    case (Some i)
    define e where "e = entries t ! i"
    have i: "i < capacity t" "occupied (entries t ! i)" "h = handle_at t i" using Some entry_get_iff [OF wf] by simp_all
    have v: "resource_view t h = Some e" by (simp add: resource_view_def Some e_def)
    have guard: "\<not> (case borrow_scope e of None \<Rightarrow> False | Some p \<Rightarrow> sc p = 0)"
    proof (cases "borrow_scope e")
      case (Some p)
      then have "0 < unat (sc p)"
        using c claims_positive [OF i(1), of p] by (auto simp: scopes_ok_def e_def intro: less_le_trans)
      then show ?thesis by (auto simp: Some)
    qed simp
    have own: "owned e \<longrightarrow> borrow_scope e = None"
      using wf_table_entry [OF wf i(1)] by (auto simp: wf_entry_def e_def)
    obtain t' sc' where r: "resource_entry_remove t sc i = (t', sc')" by fastforce
    note R = resource_entry_remove [OF wf i(1,2) r]
    have "resource_view t' = (resource_view t)(h := None)" using R(3) i(3) by simp
    then show ?thesis
      using assms(2) guard own R(5) unfolding v option.case
      by (auto simp: turbowasm_component_resource_drop_def Some r e_def [symmetric] Let_def scope_release_def split: option.split)
  qed
qed

theorem resource_drop_correct_witness:
  "turbowasm_component_resource_drop \<lparr>entries = [], live_count = 0, max_entries = 1\<rparr> (\<lambda>_. 0) 0x10001 7
     (Some (\<lambda>_ _. TURBOWASM_OK)) = (TURBOWASM_TRAPPED, None, \<lparr>entries = [], live_count = 0, max_entries = 1\<rparr>, \<lambda>_. 0)"
proof -
  let ?t = "\<lparr>entries = [], live_count = 0, max_entries = 1\<rparr>"
  have inv: "resource_inv (?t, \<lambda>_. 0)"
    by (rule resource_init_inv [of 1]) (simp add: turbowasm_component_resource_table_init_def zero_table_def)
  have "resource_view ?t 0x10001 = None" by (simp add: resource_view_def entry_get_def split: option.split)
  then show ?thesis using resource_drop_correct [OF inv, of 7 "0x10001"] by simp
qed

end
