(* ===== verification/TW_Float.thy ===== *)
theory TW_Float
  imports TW_Prelude
begin

text \<open>
  The C types \<^verbatim>\<open>float\<close> and \<^verbatim>\<open>double\<close> as the sources use them: IEC 60559 binary32 and binary64 in the default rounding
  mode. A float is its bit pattern, a number below \<open>2 ^ (frac_bits + exp_bits + 1)\<close>. The value of a pattern is an integer
  multiple of the smallest positive subnormal, so comparisons, truncation and exact sums are integer
  arithmetic; \<open>f_round\<close> rounds an exact quotient to the nearest pattern, ties to even. Which NaN an arithmetic
  operation or a conversion delivers is not fixed by the language and is a parameter of the operations that use it.

  The lemmas show that rounding is exact on numbers of at most \<open>frac_bits + 1\<close> significant bits, hence that
  the integer constants of the sources and the widening from single to double are exact, and they relate
  comparisons with an integer to the truncated value.
\<close>

record float_format =
  frac_bits :: nat
  exp_bits :: nat

definition F32 :: float_format where "F32 = \<lparr>frac_bits = 23, exp_bits = 8\<rparr>"
definition F64 :: float_format where "F64 = \<lparr>frac_bits = 52, exp_bits = 11\<rparr>"

subsection \<open>Patterns and values\<close>

definition f_sign_bit :: "float_format \<Rightarrow> nat" where
  "f_sign_bit F = 2 ^ (frac_bits F + exp_bits F)"

definition f_neg :: "float_format \<Rightarrow> nat \<Rightarrow> bool" where
  "f_neg F b \<longleftrightarrow> f_sign_bit F \<le> b"

text \<open>The pattern without its sign, its exponent field and its fraction.\<close>

definition f_abs :: "float_format \<Rightarrow> nat \<Rightarrow> nat" where
  "f_abs F b = b mod f_sign_bit F"

definition f_exp :: "float_format \<Rightarrow> nat \<Rightarrow> nat" where
  "f_exp F b = f_abs F b div 2 ^ frac_bits F"

definition f_frac :: "float_format \<Rightarrow> nat \<Rightarrow> nat" where
  "f_frac F b = b mod 2 ^ frac_bits F"

definition f_infinity :: "float_format \<Rightarrow> nat" where
  "f_infinity F = (2 ^ exp_bits F - 1) * 2 ^ frac_bits F"

definition f_is_nan :: "float_format \<Rightarrow> nat \<Rightarrow> bool" where
  "f_is_nan F b \<longleftrightarrow> f_infinity F < f_abs F b"

definition f_is_inf :: "float_format \<Rightarrow> nat \<Rightarrow> bool" where
  "f_is_inf F b \<longleftrightarrow> f_abs F b = f_infinity F"

text \<open>
  The magnitude in units of the smallest subnormal, \<open>2 ^ - f_scale F\<close>. Infinity gets the magnitude after the
  largest finite one, which orders it correctly.
\<close>

definition f_mag :: "float_format \<Rightarrow> nat \<Rightarrow> nat" where
  "f_mag F b =
     (if f_exp F b = 0 then f_frac F b
      else (2 ^ frac_bits F + f_frac F b) * 2 ^ (f_exp F b - 1))"

definition f_val :: "float_format \<Rightarrow> nat \<Rightarrow> int" where
  "f_val F b = (if f_neg F b then - int (f_mag F b) else int (f_mag F b))"

definition f_scale :: "float_format \<Rightarrow> nat" where
  "f_scale F = 2 ^ (exp_bits F - 1) - 2 + frac_bits F"

subsection \<open>Comparison\<close>

definition f_eq :: "float_format \<Rightarrow> nat \<Rightarrow> nat \<Rightarrow> bool" where
  "f_eq F a b \<longleftrightarrow> \<not> f_is_nan F a \<and> \<not> f_is_nan F b \<and> f_val F a = f_val F b"

definition f_less :: "float_format \<Rightarrow> nat \<Rightarrow> nat \<Rightarrow> bool" where
  "f_less F a b \<longleftrightarrow> \<not> f_is_nan F a \<and> \<not> f_is_nan F b \<and> f_val F a < f_val F b"

definition f_le :: "float_format \<Rightarrow> nat \<Rightarrow> nat \<Rightarrow> bool" where
  "f_le F a b \<longleftrightarrow> \<not> f_is_nan F a \<and> \<not> f_is_nan F b \<and> f_val F a \<le> f_val F b"

subsection \<open>Rounding\<close>

fun bit_length :: "nat \<Rightarrow> nat" where
  "bit_length n = (if n = 0 then 0 else Suc (bit_length (n div 2)))"

declare bit_length.simps [simp del]

text \<open>The nearest pattern to \<open>a / b\<close> units, ties to even; overflow gives infinity.\<close>

definition f_round_mag :: "float_format \<Rightarrow> nat \<Rightarrow> nat \<Rightarrow> nat" where
  "f_round_mag F a b =
     (let s = bit_length (a div b) - Suc (frac_bits F);
          d = b * 2 ^ s;
          q = a div d;
          r = a mod d;
          q' = (if d < 2 * r \<or> (2 * r = d \<and> odd q) then Suc q else q)
      in min (f_infinity F) (q' + s * 2 ^ frac_bits F))"

definition f_signed :: "float_format \<Rightarrow> bool \<Rightarrow> nat \<Rightarrow> nat" where
  "f_signed F neg m = (if neg then f_sign_bit F + m else m)"

definition f_round :: "float_format \<Rightarrow> bool \<Rightarrow> nat \<Rightarrow> nat \<Rightarrow> nat" where
  "f_round F neg a b = f_signed F neg (f_round_mag F a b)"

subsection \<open>Conversions\<close>

definition f_of_int :: "float_format \<Rightarrow> int \<Rightarrow> nat" where
  "f_of_int F x = f_round F (x < 0) (nat \<bar>x\<bar> * 2 ^ f_scale F) 1"

text \<open>The conversion to an integer type discards the fraction.\<close>

definition f_trunc_int :: "float_format \<Rightarrow> nat \<Rightarrow> int" where
  "f_trunc_int F b =
     (if f_neg F b then - int (f_mag F b div 2 ^ f_scale F) else int (f_mag F b div 2 ^ f_scale F))"

text \<open>Between formats; \<open>nan\<close> is the NaN that the conversion of this NaN delivers.\<close>

definition f_convert :: "float_format \<Rightarrow> float_format \<Rightarrow> nat \<Rightarrow> nat \<Rightarrow> nat" where
  "f_convert F G nan b =
     (if f_is_nan F b then nan
      else if f_is_inf F b then f_signed G (f_neg F b) (f_infinity G)
      else f_round G (f_neg F b) (f_mag F b * 2 ^ f_scale G) (2 ^ f_scale F))"

subsection \<open>Arithmetic\<close>

text \<open>In each operation \<open>nan\<close> is the NaN it delivers for these operands, when it delivers one.\<close>

definition f_add :: "float_format \<Rightarrow> nat \<Rightarrow> nat \<Rightarrow> nat \<Rightarrow> nat" where
  "f_add F nan a b =
     (if f_is_nan F a \<or> f_is_nan F b then nan
      else if f_is_inf F a then (if f_is_inf F b \<and> f_neg F a \<noteq> f_neg F b then nan else a)
      else if f_is_inf F b then b
      else
        let v = f_val F a + f_val F b in
        if v = 0 then f_signed F (f_neg F a \<and> f_neg F b) 0
        else f_round F (v < 0) (nat \<bar>v\<bar>) 1)"

definition f_negate :: "float_format \<Rightarrow> nat \<Rightarrow> nat" where
  "f_negate F b = f_signed F (\<not> f_neg F b) (f_abs F b)"

definition f_sub :: "float_format \<Rightarrow> nat \<Rightarrow> nat \<Rightarrow> nat \<Rightarrow> nat" where
  "f_sub F nan a b = (if f_is_nan F a \<or> f_is_nan F b then nan else f_add F nan a (f_negate F b))"

definition f_mul :: "float_format \<Rightarrow> nat \<Rightarrow> nat \<Rightarrow> nat \<Rightarrow> nat" where
  "f_mul F nan a b =
     (let neg = (f_neg F a \<noteq> f_neg F b) in
      if f_is_nan F a \<or> f_is_nan F b then nan
      else if f_is_inf F a \<or> f_is_inf F b then
        (if f_mag F a = 0 \<or> f_mag F b = 0 then nan else f_signed F neg (f_infinity F))
      else f_round F neg (f_mag F a * f_mag F b) (2 ^ f_scale F))"

definition f_div :: "float_format \<Rightarrow> nat \<Rightarrow> nat \<Rightarrow> nat \<Rightarrow> nat" where
  "f_div F nan a b =
     (let neg = (f_neg F a \<noteq> f_neg F b) in
      if f_is_nan F a \<or> f_is_nan F b then nan
      else if f_is_inf F a then (if f_is_inf F b then nan else f_signed F neg (f_infinity F))
      else if f_is_inf F b then f_signed F neg 0
      else if f_mag F b = 0 then (if f_mag F a = 0 then nan else f_signed F neg (f_infinity F))
      else f_round F neg (f_mag F a * 2 ^ f_scale F) (f_mag F b))"

fun isqrt :: "nat \<Rightarrow> nat" where
  "isqrt n = (if n = 0 then 0 else let r = 2 * isqrt (n div 4) in if (r + 1) * (r + 1) \<le> n then r + 1 else r)"

declare isqrt.simps [simp del]

text \<open>\<^verbatim>\<open>sqrtf\<close> and \<^verbatim>\<open>sqrt\<close> of a number that is neither negative nor a NaN.\<close>

definition f_sqrt :: "float_format \<Rightarrow> nat \<Rightarrow> nat" where
  "f_sqrt F b =
     (if f_is_inf F b \<or> f_mag F b = 0 then b
      else
        let n = f_mag F b * 2 ^ f_scale F;
            s = bit_length (isqrt n) - Suc (frac_bits F);
            q = isqrt (n div 4 ^ s);
            q' = (if (2 * q + 1) * (2 * q + 1) * 4 ^ s < 4 * n then Suc q else q)
        in q' + s * 2 ^ frac_bits F)"

subsection \<open>Rounding to integral values\<close>

text \<open>An integral result; a zero takes the sign of the operand.\<close>

definition f_integral :: "float_format \<Rightarrow> nat \<Rightarrow> int \<Rightarrow> nat" where
  "f_integral F b n = (if n = 0 then f_signed F (f_neg F b) 0 else f_of_int F n)"

definition f_floor :: "float_format \<Rightarrow> nat \<Rightarrow> nat" where
  "f_floor F b =
     (if f_is_nan F b \<or> f_is_inf F b then b else f_integral F b (f_val F b div 2 ^ f_scale F))"

definition f_ceil :: "float_format \<Rightarrow> nat \<Rightarrow> nat" where
  "f_ceil F b =
     (if f_is_nan F b \<or> f_is_inf F b then b else f_integral F b (- (- f_val F b div 2 ^ f_scale F)))"

definition f_trunc :: "float_format \<Rightarrow> nat \<Rightarrow> nat" where
  "f_trunc F b = (if f_is_nan F b \<or> f_is_inf F b then b else f_integral F b (f_trunc_int F b))"

section \<open>Laws\<close>

subsection \<open>Bit length\<close>

lemma bit_length_0 [simp]: "bit_length 0 = 0"
  by (simp add: bit_length.simps)

lemma less_bit_length: "n < 2 ^ bit_length n"
proof (induction n rule: bit_length.induct)
  case (1 n)
  show ?case
  proof (cases "n = 0")
    case False
    then have "n div 2 < 2 ^ bit_length (n div 2)" by (rule "1.IH")
    then have "n < 2 * 2 ^ bit_length (n div 2)" by linarith
    then show ?thesis using False by (simp add: bit_length.simps [of n])
  qed simp
qed

lemma bit_length_le: "n \<noteq> 0 \<Longrightarrow> 2 ^ (bit_length n - 1) \<le> n"
proof (induction n rule: bit_length.induct)
  case (1 n)
  show ?case
  proof (cases "n div 2 = 0")
    case True
    then have "n = 1" using "1.prems" by linarith
    then show ?thesis by (simp add: bit_length.simps [of "Suc 0"])
  next
    case False
    then have h: "2 ^ (bit_length (n div 2) - 1) \<le> n div 2" using "1.IH" "1.prems" by blast
    have "bit_length (n div 2) \<noteq> 0" using False by (simp add: bit_length.simps [of "n div 2"])
    then have "(2::nat) ^ bit_length (n div 2) = 2 * 2 ^ (bit_length (n div 2) - 1)"
      by (cases "bit_length (n div 2)") simp_all
    then show ?thesis using h "1.prems" by (simp add: bit_length.simps [of n])
  qed
qed

subsection \<open>Patterns\<close>

lemma f_infinity_less: "0 < exp_bits F \<Longrightarrow> f_infinity F < f_sign_bit F"
  by (simp add: f_infinity_def f_sign_bit_def power_add mult.commute)

text \<open>The pattern \<open>q + s * 2 ^ frac_bits\<close> has the magnitude \<open>q * 2 ^ s\<close>, also when \<open>q\<close> carries into the exponent.\<close>

lemma f_mag_pattern:
  assumes "0 < exp_bits F" and "q + s * 2 ^ frac_bits F \<le> f_infinity F"
    and "q \<le> 2 * 2 ^ frac_bits F" and "s = 0 \<or> 2 ^ frac_bits F \<le> q"
  shows "f_mag F (q + s * 2 ^ frac_bits F) = q * 2 ^ s"
proof -
  define P :: nat where "P = 2 ^ frac_bits F"
  have P: "0 < P" by (simp add: P_def)
  have abs: "f_abs F (q + s * P) = q + s * P"
    using assms(1,2) f_infinity_less [of F] by (simp add: f_abs_def P_def)
  have e: "f_exp F (q + s * P) = q div P + s" using P by (simp add: f_exp_def abs P_def [symmetric])
  have f: "f_frac F (q + s * P) = q mod P" by (simp add: f_frac_def P_def)
  consider "q < P" | "P \<le> q" "q < 2 * P" | "q = 2 * P" using assms(3) by (fold P_def) linarith
  then show ?thesis
  proof cases
    case 1
    then have "s = 0" using assms(4) by (simp add: P_def)
    then show ?thesis using 1 e f by (simp add: f_mag_def P_def [symmetric])
  next
    case 2
    then have "q div P = 1" "q mod P = q - P" by (simp_all add: div_if mod_if P_def)
    then show ?thesis using 2 e f by (simp add: f_mag_def P_def [symmetric])
  next
    case 3
    then show ?thesis using P e f by (simp add: f_mag_def P_def [symmetric])
  qed
qed


text \<open>The rounded quotient is in the range of the mantissa, a carry included.\<close>

lemma f_round_mag_mantissa:
  fixes a b :: nat and F :: float_format
  defines "s \<equiv> bit_length (a div b) - Suc (frac_bits F)"
  assumes "0 < b"
  shows "a div (b * 2 ^ s) < 2 * 2 ^ frac_bits F" "s = 0 \<or> 2 ^ frac_bits F \<le> a div (b * 2 ^ s)"
proof -
  define x where "x = a div b"
  have q: "a div (b * 2 ^ s) = x div 2 ^ s" by (simp add: x_def div_mult2_eq)
  have "bit_length x \<le> Suc (frac_bits F) + s" by (simp add: s_def x_def)
  then have "(2::nat) ^ bit_length x \<le> 2 ^ (Suc (frac_bits F) + s)" by (rule power_increasing) simp
  then have "x < 2 * 2 ^ frac_bits F * 2 ^ s" using less_bit_length [of x] by (simp add: power_add)
  then show "a div (b * 2 ^ s) < 2 * 2 ^ frac_bits F" unfolding q by (rule less_mult_imp_div_less)
  show "s = 0 \<or> 2 ^ frac_bits F \<le> a div (b * 2 ^ s)"
  proof (cases "s = 0")
    case False
    then have l: "bit_length x - 1 = frac_bits F + s" by (simp add: s_def x_def)
    have x: "x \<noteq> 0" using False by (metis bit_length_0 diff_0_eq_0 s_def x_def)
    have "2 ^ (frac_bits F + s) \<le> x" using bit_length_le [OF x] l by simp
    then have "2 ^ frac_bits F * 2 ^ s \<le> x" by (simp add: power_add)
    then show ?thesis unfolding q by (simp add: less_eq_div_iff_mult_less_eq)
  qed simp
qed

text \<open>Rounding is exact on the numbers of at most \<open>frac_bits + 1\<close> significant bits.\<close>

lemma f_round_exact:
  assumes F: "0 < exp_bits F" and m: "m < 2 * 2 ^ frac_bits F" and fin: "f_round_mag F (m * 2 ^ k) 1 < f_infinity F"
  shows "f_mag F (f_round_mag F (m * 2 ^ k) 1) = m * 2 ^ k"
proof -
  define a where "a = m * 2 ^ k"
  define s where "s = bit_length a - Suc (frac_bits F)"
  have "2 ^ s dvd a"
  proof (cases "s \<le> k")
    case True
    then show ?thesis by (simp add: a_def le_imp_power_dvd)
  next
    case False
    then have s: "bit_length a - 1 = frac_bits F + s" by (simp add: s_def)
    have a: "a \<noteq> 0" using False by (metis bit_length_0 diff_0_eq_0 s_def zero_le)
    have "2 ^ (frac_bits F + s) \<le> a" using bit_length_le [OF a] s by simp
    also have "a < 2 * 2 ^ frac_bits F * 2 ^ k" using m by (simp add: a_def)
    also have "\<dots> = 2 ^ (frac_bits F + Suc k)" by (simp add: power_add)
    also have "\<dots> \<le> 2 ^ (frac_bits F + s)" using False by (intro power_increasing) simp_all
    finally show ?thesis by simp
  qed
  then have r: "a mod 2 ^ s = 0" and q: "a div 2 ^ s * 2 ^ s = a" by simp_all
  have e: "f_round_mag F a 1 = min (f_infinity F) (a div 2 ^ s + s * 2 ^ frac_bits F)"
    using r by (simp add: f_round_mag_def Let_def s_def [symmetric])
  then have e: "f_round_mag F a 1 = a div 2 ^ s + s * 2 ^ frac_bits F" using fin by (simp add: a_def)
  have "f_mag F (a div 2 ^ s + s * 2 ^ frac_bits F) = a div 2 ^ s * 2 ^ s"
    using f_round_mag_mantissa [of 1 a F] fin e F
    by (intro f_mag_pattern) (simp_all add: a_def [symmetric] s_def [symmetric])
  then show ?thesis unfolding a_def [symmetric] e using q by simp
qed


lemma bit_length_le_iff: "bit_length a \<le> n" if "a < 2 ^ n"
proof (rule ccontr)
  assume "\<not> bit_length a \<le> n"
  moreover from this have "a \<noteq> 0" by (metis bit_length_0 zero_le)
  ultimately have "2 ^ n \<le> a"
    by (intro order_trans [OF power_increasing [of n "bit_length a - 1" 2] bit_length_le]) simp_all
  with that show False by simp
qed

lemma f_round_mag_finite:
  assumes "a < 2 ^ n" and "n + 2 < 2 ^ exp_bits F + frac_bits F" and "3 < (2::nat) ^ exp_bits F"
  shows "f_round_mag F a 1 < f_infinity F"
proof -
  define s where "s = bit_length a - Suc (frac_bits F)"
  define q where "q = (let r = a mod 2 ^ s in
    if 2 ^ s < 2 * r \<or> (2 * r = 2 ^ s \<and> odd (a div 2 ^ s)) then Suc (a div 2 ^ s) else a div 2 ^ s)"
  have "a div 2 ^ s < 2 * 2 ^ frac_bits F" using f_round_mag_mantissa(1) [of 1 a F] by (simp add: s_def)
  then have q: "q \<le> 2 * 2 ^ frac_bits F" by (auto simp: q_def Let_def)
  have "s + 2 < 2 ^ exp_bits F - 1" using bit_length_le_iff [OF assms(1)] assms(2,3) by (simp add: s_def)
  then have "(s + 2) * 2 ^ frac_bits F < f_infinity F" unfolding f_infinity_def by (rule mult_strict_right_mono) simp
  then have "q + s * 2 ^ frac_bits F < f_infinity F" using q by (simp add: algebra_simps)
  then show ?thesis by (simp add: f_round_mag_def Let_def q_def s_def [symmetric])
qed

lemma f_signed_pattern:
  assumes "0 < exp_bits F" "p < f_sign_bit F"
  shows "f_abs F (f_signed F neg p) = p" "f_neg F (f_signed F neg p) = neg" "f_mag F (f_signed F neg p) = f_mag F p"
proof -
  show a: "f_abs F (f_signed F neg p) = p" using assms(2) by (simp add: f_abs_def f_signed_def)
  show "f_neg F (f_signed F neg p) = neg" using assms(2) by (simp add: f_neg_def f_signed_def)
  have "2 ^ frac_bits F dvd f_sign_bit F" by (simp add: f_sign_bit_def le_imp_power_dvd)
  then have "f_frac F (f_signed F neg p) = f_frac F p" by (auto simp: f_frac_def f_signed_def mod_add_left_eq [symmetric])
  moreover have "f_exp F (f_signed F neg p) = f_exp F p" using a assms(2) by (simp add: f_exp_def f_abs_def)
  ultimately show "f_mag F (f_signed F neg p) = f_mag F p" by (simp add: f_mag_def)
qed

subsection \<open>Integers as floats\<close>

lemma f_of_int_exact:
  assumes "0 < exp_bits F" "nat \<bar>x\<bar> = m * 2 ^ j" "m < 2 * 2 ^ frac_bits F"
    and "nat \<bar>x\<bar> * 2 ^ f_scale F < 2 ^ n" "n + 2 < 2 ^ exp_bits F + frac_bits F" "3 < (2::nat) ^ exp_bits F"
  shows "\<not> f_is_nan F (f_of_int F x)" "f_val F (f_of_int F x) = x * 2 ^ f_scale F"
proof -
  define a where "a = nat \<bar>x\<bar> * 2 ^ f_scale F"
  have fin: "f_round_mag F a 1 < f_infinity F" by (rule f_round_mag_finite [of _ n]) (use assms in \<open>simp_all add: a_def\<close>)
  have a: "a = m * 2 ^ (j + f_scale F)" by (simp add: a_def assms(2) power_add)
  have mag: "f_mag F (f_round_mag F a 1) = a"
    using f_round_exact [OF assms(1,3), of "j + f_scale F"] fin by (simp add: a)
  have sb: "f_round_mag F a 1 < f_sign_bit F" using fin f_infinity_less [OF assms(1)] by simp
  note p = f_signed_pattern [OF assms(1) sb, of "x < 0"]
  show "\<not> f_is_nan F (f_of_int F x)" using p fin by (simp add: f_is_nan_def f_of_int_def f_round_def a_def)
  have "f_val F (f_of_int F x) = (if x < 0 then - int a else int a)"
    unfolding f_val_def f_of_int_def f_round_def a_def [symmetric] p mag by (rule refl)
  then show "f_val F (f_of_int F x) = x * 2 ^ f_scale F" by (simp add: a_def)
qed

lemma d_const_exact:
  assumes "nat \<bar>x\<bar> = m * 2 ^ j" "m < 2 ^ 53" "\<bar>x\<bar> \<le> 2 ^ 64"
  shows "\<not> f_is_nan F64 (f_of_int F64 x)" "f_val F64 (f_of_int F64 x) = x * 2 ^ f_scale F64"
proof -
  have "nat \<bar>x\<bar> * 2 ^ f_scale F64 < 2 ^ (65 + f_scale F64)"
    using assms(3) by (simp add: power_add)
  then show "\<not> f_is_nan F64 (f_of_int F64 x)" "f_val F64 (f_of_int F64 x) = x * 2 ^ f_scale F64"
    using f_of_int_exact [of F64 x m j "65 + f_scale F64"] assms by (simp_all add: F64_def f_scale_def)
qed

subsection \<open>Truncation\<close>

lemma f_trunc_le_iff:
  assumes "0 < c"
  shows "c * 2 ^ f_scale F \<le> f_val F b \<longleftrightarrow> c \<le> f_trunc_int F b" "f_val F b \<le> - c * 2 ^ f_scale F \<longleftrightarrow> f_trunc_int F b \<le> - c"
proof -
  define m where "m = int (f_mag F b)"
  define S :: int where "S = 2 ^ f_scale F"
  have S: "0 < S" "0 \<le> m" "0 \<le> m div S" by (simp_all add: S_def m_def pos_imp_zdiv_nonneg_iff)
  have t: "f_trunc_int F b = (if f_neg F b then - (m div S) else m div S)"
    by (simp add: f_trunc_int_def m_def S_def of_nat_div)
  have v: "f_val F b = (if f_neg F b then - m else m)" by (simp add: f_val_def m_def)
  have d: "c * S \<le> m \<longleftrightarrow> c \<le> m div S"
  proof
    assume "c * S \<le> m"
    then have "c * S div S \<le> m div S" using S(1) by (rule zdiv_mono1)
    then show "c \<le> m div S" using S(1) by simp
  next
    assume "c \<le> m div S"
    then have "c * S \<le> m div S * S" using S(1) by (simp add: mult_right_mono)
    also have "\<dots> \<le> m" using S(1) minus_mod_eq_div_mult [of m S] pos_mod_sign [of S m] by linarith
    finally show "c * S \<le> m" .
  qed
  have "0 < c * S" using assms S(1) by simp
  then show "c * 2 ^ f_scale F \<le> f_val F b \<longleftrightarrow> c \<le> f_trunc_int F b" "f_val F b \<le> - c * 2 ^ f_scale F \<longleftrightarrow> f_trunc_int F b \<le> - c"
    using S(2,3) assms d unfolding t v S_def [symmetric] by auto
qed

text \<open>Large magnitudes are multiples of a large power of two.\<close>

lemma f_mag_granular:
  assumes "2 ^ (frac_bits F + n) \<le> f_mag F b"
  shows "2 ^ n dvd f_mag F b"
proof -
  have fr: "f_frac F b < 2 ^ frac_bits F" by (simp add: f_frac_def)
  show ?thesis
  proof (cases "f_exp F b = 0")
    case True
    then have "f_mag F b < 2 ^ frac_bits F" using fr by (simp add: f_mag_def)
    also have "\<dots> \<le> 2 ^ (frac_bits F + n)" by (rule power_increasing) simp_all
    finally show ?thesis using assms by simp
  next
    case False
    then have m: "f_mag F b = (2 ^ frac_bits F + f_frac F b) * 2 ^ (f_exp F b - 1)" by (simp add: f_mag_def)
    also have "\<dots> < 2 ^ Suc (frac_bits F) * 2 ^ (f_exp F b - 1)" using fr by simp
    finally have "2 ^ (frac_bits F + n) < (2::nat) ^ (Suc (frac_bits F) + (f_exp F b - 1))"
      using assms unfolding power_add [of 2 "Suc (frac_bits F)"] by linarith
    then have "frac_bits F + n < Suc (frac_bits F) + (f_exp F b - 1)" by (rule power_less_imp_less_exp [rotated]) simp
    then show ?thesis unfolding m by (intro dvd_mult le_imp_power_dvd) simp
  qed
qed

lemma f_trunc_less_iff:
  assumes "0 < c" "2 ^ frac_bits F \<le> c"
  shows "f_val F b < - c * 2 ^ f_scale F \<longleftrightarrow> f_trunc_int F b < - c"
proof
  assume l: "f_val F b < - c * 2 ^ f_scale F"
  have "0 < c * 2 ^ f_scale F" using assms(1) by simp
  then have neg: "f_neg F b" using l by (auto simp: f_val_def split: if_splits)
  then have big: "c * 2 ^ f_scale F < int (f_mag F b)" using l by (simp add: f_val_def)
  have "2 ^ frac_bits F * 2 ^ f_scale F \<le> c * 2 ^ f_scale F" using assms(2) by simp
  then have "int (2 ^ (frac_bits F + f_scale F)) \<le> int (f_mag F b)" using big
    unfolding power_add of_nat_mult of_nat_power of_nat_numeral by linarith
  then have "2 ^ f_scale F dvd f_mag F b" by (intro f_mag_granular) simp
  then have "int (f_mag F b div 2 ^ f_scale F) * 2 ^ f_scale F = int (f_mag F b)"
    by (metis dvd_div_mult_self of_nat_mult of_nat_numeral of_nat_power)
  then have "c * 2 ^ f_scale F < int (f_mag F b div 2 ^ f_scale F) * 2 ^ f_scale F" using big by simp
  then have "c < int (f_mag F b div 2 ^ f_scale F)" by simp
  then show "f_trunc_int F b < - c" using neg by (simp add: f_trunc_int_def)
next
  assume "f_trunc_int F b < - c"
  then have "f_trunc_int F b \<le> - (c + 1)" by simp
  then have "f_val F b \<le> - (c + 1) * 2 ^ f_scale F" using f_trunc_le_iff(2) [of "c + 1" F b] assms(1) by simp
  also have "\<dots> < - c * 2 ^ f_scale F" by (simp add: algebra_simps)
  finally show "f_val F b < - c * 2 ^ f_scale F" .
qed

subsection \<open>Widening\<close>

lemma f_round_mag_scale:
  assumes "0 < b"
  shows "f_round_mag F (c * b) b = f_round_mag F c 1"
proof -
  define s where "s = bit_length c - Suc (frac_bits F)"
  have q: "c * b div (b * 2 ^ s) = c div 2 ^ s" using assms by (simp add: mult.commute)
  have r: "c * b mod (b * 2 ^ s) = b * (c mod 2 ^ s)" by (simp add: mult.commute mod_mult_mult1)
  have "b * 2 ^ s < 2 * (b * (c mod 2 ^ s)) \<longleftrightarrow> 2 ^ s < 2 * (c mod 2 ^ s)"
    "2 * (b * (c mod 2 ^ s)) = b * 2 ^ s \<longleftrightarrow> 2 * (c mod 2 ^ s) = 2 ^ s"
    using assms mult_less_cancel1 [of b "2 ^ s" "2 * (c mod 2 ^ s)"] mult_cancel1 [of b "2 * (c mod 2 ^ s)" "2 ^ s"]
    by (simp_all add: mult.left_commute)
  then show ?thesis using assms by (simp add: f_round_mag_def Let_def s_def [symmetric] q r)
qed

lemma f_mag_form:
  assumes "0 < exp_bits F" "f_abs F b < f_infinity F"
  obtains m k where "f_mag F b = m * 2 ^ k" "m < 2 * 2 ^ frac_bits F" "k + 2 < 2 ^ exp_bits F \<or> k = 0"
proof (cases "f_exp F b = 0")
  case True
  have "f_frac F b < 2 ^ frac_bits F" by (simp add: f_frac_def)
  then show ?thesis using True by (intro that [of "f_frac F b" 0]) (simp_all add: f_mag_def)
next
  case False
  have "f_exp F b < 2 ^ exp_bits F - 1"
    using assms(2) unfolding f_exp_def f_infinity_def by (rule less_mult_imp_div_less)
  then show ?thesis using False
    by (intro that [of "2 ^ frac_bits F + f_frac F b" "f_exp F b - 1"]) (auto simp: f_mag_def f_frac_def)
qed


lemma f_scale_widen: "f_scale F64 = 925 + f_scale F32"
  by (simp add: f_scale_def F32_def F64_def)

lemma widen_finite:
  assumes "f_abs F32 b < f_infinity F32"
  shows "\<not> f_is_nan F64 (f_convert F32 F64 nan b)" "f_neg F64 (f_convert F32 F64 nan b) = f_neg F32 b"
    "f_mag F64 (f_convert F32 F64 nan b) = f_mag F32 b * 2 ^ 925"
proof -
  obtain m k where mk: "f_mag F32 b = m * 2 ^ k" "m < 2 * 2 ^ frac_bits F32" "k + 2 < 2 ^ exp_bits F32 \<or> k = 0"
    by (rule f_mag_form [OF _ assms]) (simp_all add: F32_def)
  have m: "m < 2 ^ 24" "k \<le> 253" using mk(2,3) by (auto simp: F32_def)
  define a where "a = m * 2 ^ (k + 925)"
  have a: "f_mag F32 b * 2 ^ f_scale F64 = a * 2 ^ f_scale F32"
    unfolding a_def mk(1) f_scale_widen power_add by (simp only: ac_simps)
  have "a < 2 ^ 24 * 2 ^ (k + 925)" unfolding a_def using m(1) by (intro mult_strict_right_mono) simp_all
  also have "\<dots> = 2 ^ (24 + (k + 925))" by (simp only: power_add)
  also have "\<dots> \<le> (2::nat) ^ 1202" using m(2) by (intro power_increasing) simp_all
  finally have bound: "a < 2 ^ 1202" .
  have fin: "f_round_mag F64 a 1 < f_infinity F64"
    by (rule f_round_mag_finite [OF bound]) (simp_all add: F64_def)
  have mag: "f_mag F64 (f_round_mag F64 a 1) = a"
    unfolding a_def
    by (rule f_round_exact) (use m(1) fin in \<open>simp_all add: F64_def a_def\<close>)
  have sb: "f_round_mag F64 a 1 < f_sign_bit F64" using fin f_infinity_less [of F64] by (simp add: F64_def)
  have F: "0 < exp_bits F64" by (simp add: F64_def)
  have c: "f_convert F32 F64 nan b = f_signed F64 (f_neg F32 b) (f_round_mag F64 a 1)"
    using assms by (simp add: f_convert_def f_is_nan_def f_is_inf_def f_round_def a f_round_mag_scale)
  note p = f_signed_pattern [OF F sb, of "f_neg F32 b", folded c]
  show "f_neg F64 (f_convert F32 F64 nan b) = f_neg F32 b" by (rule p(2))
  show "\<not> f_is_nan F64 (f_convert F32 F64 nan b)" using p(1) fin by (simp add: f_is_nan_def)
  show "f_mag F64 (f_convert F32 F64 nan b) = f_mag F32 b * 2 ^ 925" unfolding p(3) mag by (simp add: a_def mk(1) power_add)
qed


lemma f_trunc_int_infinity:
  assumes "f_is_inf F b" "0 < exp_bits F" "0 < frac_bits F" "f_scale F \<le> frac_bits F + (2 ^ exp_bits F - 2)"
  shows "f_trunc_int F b = (if f_neg F b then - 1 else 1) * 2 ^ (frac_bits F + (2 ^ exp_bits F - 2) - f_scale F)"
proof -
  have e2: "(2::nat) ^ exp_bits F \<ge> 2" using assms(2) self_le_power [of 2 "exp_bits F"] by simp
  have e: "f_exp F b = 2 ^ exp_bits F - 1" using assms(1) by (simp add: f_exp_def f_is_inf_def f_infinity_def)
  have "f_frac F b = f_abs F b mod 2 ^ frac_bits F"
    by (simp add: f_frac_def f_abs_def f_sign_bit_def mod_mod_cancel le_imp_power_dvd)
  then have f: "f_frac F b = 0" using assms(1) by (simp add: f_is_inf_def f_infinity_def)
  have "f_mag F b = 2 ^ (frac_bits F + (2 ^ exp_bits F - 2))"
  proof -
    have "(2::nat) ^ exp_bits F - 1 \<noteq> 0" "(2::nat) ^ exp_bits F - 1 - 1 = 2 ^ exp_bits F - 2" using e2 by linarith+
    then show ?thesis unfolding f_mag_def e f power_add by simp
  qed
  then have "f_mag F b div 2 ^ f_scale F = 2 ^ (frac_bits F + (2 ^ exp_bits F - 2) - f_scale F)"
    using assms(4) by (simp add: power_diff)
  then show ?thesis by (simp add: f_trunc_int_def)
qed

text \<open>Truncation of a single as a double: the same integer, and an integer beyond \<open>2 ^ 128\<close> for infinity.\<close>

lemma widen_trunc_finite:
  assumes "f_abs F32 b < f_infinity F32"
  shows "f_trunc_int F64 (f_convert F32 F64 nan b) = f_trunc_int F32 b"
proof -
  have "f_mag F32 b * 2 ^ 925 div 2 ^ f_scale F64 = f_mag F32 b div 2 ^ f_scale F32"
    unfolding f_scale_widen power_add by (simp only: mult.commute [of "f_mag F32 b"] div_mult_mult1) simp
  then show ?thesis using widen_finite [OF assms, of nan] by (simp add: f_trunc_int_def)
qed

lemma widen_trunc_infinite:
  assumes "f_is_inf F32 b"
  shows "\<not> f_is_nan F64 (f_convert F32 F64 nan b)"
    "f_trunc_int F32 b = (if f_neg F32 b then - (2 ^ 128) else 2 ^ 128)"
    "f_trunc_int F64 (f_convert F32 F64 nan b) = (if f_neg F32 b then - (2 ^ 1024) else 2 ^ 1024)"
proof -
  have F: "0 < exp_bits F64" "f_infinity F64 < f_sign_bit F64" using f_infinity_less [of F64] by (simp_all add: F64_def)
  have c: "f_convert F32 F64 nan b = f_signed F64 (f_neg F32 b) (f_infinity F64)"
    using assms by (simp add: f_convert_def f_is_nan_def f_is_inf_def)
  note p = f_signed_pattern [OF F, of "f_neg F32 b", folded c]
  show "\<not> f_is_nan F64 (f_convert F32 F64 nan b)" using p(1) by (simp add: f_is_nan_def)
  show "f_trunc_int F32 b = (if f_neg F32 b then - (2 ^ 128) else 2 ^ 128)"
    by (subst f_trunc_int_infinity [OF assms]) (simp_all add: F32_def f_scale_def)
  have n: "0 < frac_bits F64" "f_scale F64 \<le> frac_bits F64 + (2 ^ exp_bits F64 - 2)"
    "frac_bits F64 + (2 ^ exp_bits F64 - 2) - f_scale F64 = 1024"
    by (simp_all add: F64_def f_scale_def)
  have "f_is_inf F64 (f_convert F32 F64 nan b)" using p(1) by (simp add: f_is_inf_def)
  from f_trunc_int_infinity [OF this F(1) n(1,2)] show "f_trunc_int F64 (f_convert F32 F64 nan b) = (if f_neg F32 b then - (2 ^ 1024) else 2 ^ 1024)"
    unfolding n(3) p(2) by simp
qed

end
