(* ===== verification/TW_Numeric.thy ===== *)
theory TW_Numeric
  imports TW_Value TW_Float "HOL-Library.Signed_Division"
begin

text \<open>
  The numeric instructions of the interpreter, \<^verbatim>\<open>src/src/instance.c\<close> from \<^verbatim>\<open>turbowasm_sar32\<close> to \<^verbatim>\<open>turbowasm_exec_f64_binary\<close>,
  the saturating truncations, the operand stack they work on and the entry \<^verbatim>\<open>turbowasm_jit_numeric\<close> that dispatches an
  opcode. An operand stack is the list of its values, the top first, beside the capacity of the C array;
  whether its byte size fits and the allocator grants a larger array is the parameter \<open>grant\<close>. A handler returns the status, the trap it
  records (\<open>None\<close> when it records none) and the stack.
\<close>

datatype turbowasm_trap =
    TURBOWASM_TRAP_NONE
  | TURBOWASM_TRAP_UNREACHABLE
  | TURBOWASM_TRAP_CALL_STACK_EXHAUSTED
  | TURBOWASM_TRAP_INTEGER_DIVIDE_BY_ZERO
  | TURBOWASM_TRAP_INTEGER_OVERFLOW
  | TURBOWASM_TRAP_MEMORY_OUT_OF_BOUNDS
  | TURBOWASM_TRAP_TABLE_OUT_OF_BOUNDS
  | TURBOWASM_TRAP_INDIRECT_CALL_NULL
  | TURBOWASM_TRAP_INDIRECT_CALL_TYPE_MISMATCH
  | TURBOWASM_TRAP_INVALID_CONVERSION_TO_INTEGER
  | TURBOWASM_TRAP_NULL_REFERENCE
  | TURBOWASM_TRAP_UNALIGNED_ATOMIC
  | TURBOWASM_TRAP_EXPECTED_SHARED_MEMORY
  | TURBOWASM_TRAP_TOO_MANY_WAITERS
  | TURBOWASM_TRAP_ARRAY_OUT_OF_BOUNDS
  | TURBOWASM_TRAP_CAST_FAILURE

subsection \<open>The operand stack\<close>

record turbowasm_value_stack =
  stack_values :: "turbowasm_value list"
  stack_capacity :: nat

text \<open>The doubling loop: \<open>n\<close> is the candidate capacity.\<close>

function stack_next :: "nat \<Rightarrow> nat \<Rightarrow> nat" where
  "stack_next required n =
     (if n = 0 \<or> required \<le> n then n
      else if n > UINT32_MAX div 2 then required
      else stack_next required (n * 2))"
  by auto
termination
  by (relation "measure (\<lambda>(required, n). required - n)") auto

declare stack_next.simps [simp del]

definition turbowasm_stack_reserve ::
    "(nat \<Rightarrow> bool) \<Rightarrow> turbowasm_value_stack \<Rightarrow> nat \<Rightarrow> turbowasm_value_stack option" where
  "turbowasm_stack_reserve grant s required =
     (if required \<le> stack_capacity s then Some s
      else
        let next0 = stack_next required (if stack_capacity s = 0 then 16 else stack_capacity s) in
        if \<not> grant next0 then None else Some (s\<lparr>stack_capacity := next0\<rparr>))"

definition turbowasm_stack_push ::
    "(nat \<Rightarrow> bool) \<Rightarrow> turbowasm_value_stack \<Rightarrow> turbowasm_value \<Rightarrow> turbowasm_status \<times> turbowasm_value_stack" where
  "turbowasm_stack_push grant s v =
     (if length (stack_values s) = UINT32_MAX then (TURBOWASM_OUT_OF_MEMORY, s)
      else case turbowasm_stack_reserve grant s (length (stack_values s) + 1) of
        None \<Rightarrow> (TURBOWASM_OUT_OF_MEMORY, s)
      | Some s1 \<Rightarrow> (TURBOWASM_OK, s1\<lparr>stack_values := v # stack_values s1\<rparr>))"

definition turbowasm_stack_pop ::
    "turbowasm_value_stack \<Rightarrow> turbowasm_status \<times> turbowasm_value \<times> turbowasm_value_stack" where
  "turbowasm_stack_pop s =
     (case stack_values s of
        [] \<Rightarrow> (TURBOWASM_MALFORMED_MODULE, VALUE_CLEARED, s)
      | v # vs \<Rightarrow> (TURBOWASM_OK, v, s\<lparr>stack_values := vs\<rparr>))"

definition turbowasm_stack_pop_kind ::
    "turbowasm_value_stack \<Rightarrow> turbowasm_value_kind \<Rightarrow> turbowasm_status \<times> turbowasm_value \<times> turbowasm_value_stack" where
  "turbowasm_stack_pop_kind s kind =
     (case turbowasm_stack_pop s of (status, v, s1) \<Rightarrow>
        if status \<noteq> TURBOWASM_OK then (status, v, s1)
        else (if value_kind v = Some kind then TURBOWASM_OK else TURBOWASM_TYPE_MISMATCH, v, s1))"

text \<open>The union members, read after the kind was tested.\<close>

fun value_i32 :: "turbowasm_value \<Rightarrow> u32" where
  "value_i32 (VALUE_I32 x) = x" | "value_i32 _ = 0"
fun value_i64 :: "turbowasm_value \<Rightarrow> u64" where
  "value_i64 (VALUE_I64 x) = x" | "value_i64 _ = 0"
fun value_f32 :: "turbowasm_value \<Rightarrow> u32" where
  "value_f32 (VALUE_F32 x) = x" | "value_f32 _ = 0"
fun value_f64 :: "turbowasm_value \<Rightarrow> u64" where
  "value_f64 (VALUE_F64 x) = x" | "value_f64 _ = 0"

subsection \<open>Integer primitives\<close>

definition turbowasm_sar32 :: "u32 \<Rightarrow> u32 \<Rightarrow> u32" where
  "turbowasm_sar32 x shift =
     (let k = unat (shift AND 31) in
      if k = 0 then x
      else if 0 \<le> sint x then drop_bit k x
      else drop_bit k x OR push_bit (32 - k) (NOT 0))"

definition turbowasm_sar64 :: "u64 \<Rightarrow> u64 \<Rightarrow> u64" where
  "turbowasm_sar64 x shift =
     (let k = unat (shift AND 63) in
      if k = 0 then x
      else if 0 \<le> sint x then drop_bit k x
      else drop_bit k x OR push_bit (64 - k) (NOT 0))"

definition turbowasm_rotl32 :: "u32 \<Rightarrow> u32 \<Rightarrow> u32" where
  "turbowasm_rotl32 x shift =
     (let k = unat (shift AND 31) in if k = 0 then x else push_bit k x OR drop_bit (32 - k) x)"

definition turbowasm_rotr32 :: "u32 \<Rightarrow> u32 \<Rightarrow> u32" where
  "turbowasm_rotr32 x shift =
     (let k = unat (shift AND 31) in if k = 0 then x else drop_bit k x OR push_bit (32 - k) x)"

definition turbowasm_rotl64 :: "u64 \<Rightarrow> u64 \<Rightarrow> u64" where
  "turbowasm_rotl64 x shift =
     (let k = unat (shift AND 63) in if k = 0 then x else push_bit k x OR drop_bit (64 - k) x)"

definition turbowasm_rotr64 :: "u64 \<Rightarrow> u64 \<Rightarrow> u64" where
  "turbowasm_rotr64 x shift =
     (let k = unat (shift AND 63) in if k = 0 then x else drop_bit k x OR push_bit (64 - k) x)"

text \<open>
  One step of the binary searches: the count and the value before and after a test of \<open>m\<close>, with a
  shift by \<open>k\<close>.
\<close>

definition clz_step :: "'a::len word \<Rightarrow> nat \<Rightarrow> nat \<times> 'a word \<Rightarrow> nat \<times> 'a word" where
  "clz_step m k cv = (if snd cv AND m = 0 then (fst cv + k, push_bit k (snd cv)) else cv)"

definition ctz_step :: "'a::len word \<Rightarrow> nat \<Rightarrow> nat \<times> 'a word \<Rightarrow> nat \<times> 'a word" where
  "ctz_step m k cv = (if snd cv AND m = 0 then (fst cv + k, drop_bit k (snd cv)) else cv)"

definition turbowasm_clz32 :: "u32 \<Rightarrow> u32" where
  "turbowasm_clz32 x =
     (if x = 0 then 32
      else
        let (c, v) = clz_step 0xc0000000 2 (clz_step 0xf0000000 4 (clz_step 0xff000000 8 (clz_step 0xffff0000 16 (0, x))))
        in of_nat (if v AND 0x80000000 = 0 then c + 1 else c))"

definition turbowasm_clz64 :: "u64 \<Rightarrow> u64" where
  "turbowasm_clz64 x =
     (if x = 0 then 64
      else
        let (c, v) = clz_step 0xc000000000000000 2 (clz_step 0xf000000000000000 4 (clz_step 0xff00000000000000 8
              (clz_step 0xffff000000000000 16 (clz_step 0xffffffff00000000 32 (0, x)))))
        in of_nat (if v AND 0x8000000000000000 = 0 then c + 1 else c))"

definition turbowasm_ctz32 :: "u32 \<Rightarrow> u32" where
  "turbowasm_ctz32 x =
     (if x = 0 then 32
      else
        let (c, v) = ctz_step 0x3 2 (ctz_step 0xf 4 (ctz_step 0xff 8 (ctz_step 0xffff 16 (0, x))))
        in of_nat (if v AND 1 = 0 then c + 1 else c))"

definition turbowasm_ctz64 :: "u64 \<Rightarrow> u64" where
  "turbowasm_ctz64 x =
     (if x = 0 then 64
      else
        let (c, v) = ctz_step 0x3 2 (ctz_step 0xf 4 (ctz_step 0xff 8 (ctz_step 0xffff 16 (ctz_step 0xffffffff 32 (0, x)))))
        in of_nat (if v AND 1 = 0 then c + 1 else c))"

definition turbowasm_popcnt32 :: "u32 \<Rightarrow> u32" where
  "turbowasm_popcnt32 x =
     (let v1 = x - (drop_bit 1 x AND 0x55555555);
          v2 = (v1 AND 0x33333333) + (drop_bit 2 v1 AND 0x33333333);
          v3 = (v2 + drop_bit 4 v2) AND 0x0f0f0f0f
      in drop_bit 24 (v3 * 0x01010101))"

definition turbowasm_popcnt64 :: "u64 \<Rightarrow> u64" where
  "turbowasm_popcnt64 x =
     (let v1 = x - (drop_bit 1 x AND 0x5555555555555555);
          v2 = (v1 AND 0x3333333333333333) + (drop_bit 2 v1 AND 0x3333333333333333);
          v3 = (v2 + drop_bit 4 v2) AND 0x0f0f0f0f0f0f0f0f
      in drop_bit 56 (v3 * 0x0101010101010101))"

definition turbowasm_sign_extend_u32 :: "u32 \<Rightarrow> nat \<Rightarrow> u32" where
  "turbowasm_sign_extend_u32 x width =
     (let low_mask = (if width = 32 then U32_MAX else push_bit width 1 - 1);
          sign_bit = push_bit (width - 1) 1;
          bits = x AND low_mask
      in if bits AND sign_bit \<noteq> 0 then bits OR NOT low_mask else bits)"

definition turbowasm_sign_extend_u64 :: "u64 \<Rightarrow> nat \<Rightarrow> u64" where
  "turbowasm_sign_extend_u64 x width =
     (let low_mask = (if width = 64 then U64_MAX else push_bit width 1 - 1);
          sign_bit = push_bit (width - 1) 1;
          bits = x AND low_mask
      in if bits AND sign_bit \<noteq> 0 then bits OR NOT low_mask else bits)"

subsection \<open>Results of an instruction\<close>

text \<open>What the switch of a handler decides once the operands are popped: a value to push, a trap, or no such opcode.\<close>

datatype numeric_outcome =
    NumValue turbowasm_value
  | NumTrap turbowasm_trap
  | NumUnsupported

type_synonym exec_result = "turbowasm_status \<times> turbowasm_trap option \<times> turbowasm_value_stack"

definition exec_finish :: "(nat \<Rightarrow> bool) \<Rightarrow> turbowasm_value_stack \<Rightarrow> numeric_outcome \<Rightarrow> exec_result" where
  "exec_finish grant s r =
     (case r of
        NumValue v \<Rightarrow> (case turbowasm_stack_push grant s v of (status, s1) \<Rightarrow> (status, None, s1))
      | NumTrap t \<Rightarrow> (TURBOWASM_TRAPPED, Some t, s)
      | NumUnsupported \<Rightarrow> (TURBOWASM_UNSUPPORTED, None, s))"

text \<open>Popping one operand, or the right and then the left one, and the early returns.\<close>

definition exec_pop1 ::
    "turbowasm_value_kind \<Rightarrow> turbowasm_value_stack \<Rightarrow> (turbowasm_value \<Rightarrow> turbowasm_value_stack \<Rightarrow> exec_result) \<Rightarrow> exec_result" where
  "exec_pop1 kind s f =
     (case turbowasm_stack_pop_kind s kind of (status, v, s1) \<Rightarrow>
        if status \<noteq> TURBOWASM_OK then (status, None, s1) else f v s1)"

definition exec_pop2 ::
    "turbowasm_value_kind \<Rightarrow> turbowasm_value_stack \<Rightarrow>
     (turbowasm_value \<Rightarrow> turbowasm_value \<Rightarrow> turbowasm_value_stack \<Rightarrow> exec_result) \<Rightarrow> exec_result" where
  "exec_pop2 kind s f =
     exec_pop1 kind s (\<lambda>right s1. exec_pop1 kind s1 (\<lambda>left s2. f left right s2))"

definition bool_i32 :: "bool \<Rightarrow> numeric_outcome" where
  "bool_i32 p = NumValue (VALUE_I32 (if p then 1 else 0))"

subsection \<open>Integer comparison\<close>

definition i32_compare :: "u8 \<Rightarrow> u32 \<Rightarrow> u32 \<Rightarrow> numeric_outcome" where
  "i32_compare opcode a b =
     (if opcode = 0x46 then bool_i32 (a = b)
      else if opcode = 0x47 then bool_i32 (a \<noteq> b)
      else if opcode = 0x48 then bool_i32 (sint a < sint b)
      else if opcode = 0x49 then bool_i32 (a < b)
      else if opcode = 0x4a then bool_i32 (sint a > sint b)
      else if opcode = 0x4b then bool_i32 (a > b)
      else if opcode = 0x4c then bool_i32 (sint a \<le> sint b)
      else if opcode = 0x4d then bool_i32 (a \<le> b)
      else if opcode = 0x4e then bool_i32 (sint a \<ge> sint b)
      else if opcode = 0x4f then bool_i32 (a \<ge> b)
      else NumUnsupported)"

definition turbowasm_exec_i32_test_or_compare :: "(nat \<Rightarrow> bool) \<Rightarrow> u8 \<Rightarrow> turbowasm_value_stack \<Rightarrow> exec_result" where
  "turbowasm_exec_i32_test_or_compare grant opcode s =
     (if opcode = 0x45
      then exec_pop1 TURBOWASM_VALUE_I32 s (\<lambda>left s1. exec_finish grant s1 (bool_i32 (value_i32 left = 0)))
      else exec_pop2 TURBOWASM_VALUE_I32 s
             (\<lambda>left right s2. exec_finish grant s2 (i32_compare opcode (value_i32 left) (value_i32 right))))"

definition i64_compare :: "u8 \<Rightarrow> u64 \<Rightarrow> u64 \<Rightarrow> numeric_outcome" where
  "i64_compare opcode a b =
     (if opcode = 0x51 then bool_i32 (a = b)
      else if opcode = 0x52 then bool_i32 (a \<noteq> b)
      else if opcode = 0x53 then bool_i32 (sint a < sint b)
      else if opcode = 0x54 then bool_i32 (a < b)
      else if opcode = 0x55 then bool_i32 (sint a > sint b)
      else if opcode = 0x56 then bool_i32 (a > b)
      else if opcode = 0x57 then bool_i32 (sint a \<le> sint b)
      else if opcode = 0x58 then bool_i32 (a \<le> b)
      else if opcode = 0x59 then bool_i32 (sint a \<ge> sint b)
      else if opcode = 0x5a then bool_i32 (a \<ge> b)
      else NumUnsupported)"

definition turbowasm_exec_i64_test_or_compare :: "(nat \<Rightarrow> bool) \<Rightarrow> u8 \<Rightarrow> turbowasm_value_stack \<Rightarrow> exec_result" where
  "turbowasm_exec_i64_test_or_compare grant opcode s =
     (if opcode = 0x50
      then exec_pop1 TURBOWASM_VALUE_I64 s (\<lambda>left s1. exec_finish grant s1 (bool_i32 (value_i64 left = 0)))
      else exec_pop2 TURBOWASM_VALUE_I64 s
             (\<lambda>left right s2. exec_finish grant s2 (i64_compare opcode (value_i64 left) (value_i64 right))))"

subsection \<open>Integer arithmetic\<close>

definition turbowasm_exec_i32_unary :: "(nat \<Rightarrow> bool) \<Rightarrow> u8 \<Rightarrow> turbowasm_value_stack \<Rightarrow> exec_result" where
  "turbowasm_exec_i32_unary grant opcode s =
     exec_pop1 TURBOWASM_VALUE_I32 s (\<lambda>v s1. exec_finish grant s1
       (if opcode = 0x67 then NumValue (VALUE_I32 (turbowasm_clz32 (value_i32 v)))
        else if opcode = 0x68 then NumValue (VALUE_I32 (turbowasm_ctz32 (value_i32 v)))
        else if opcode = 0x69 then NumValue (VALUE_I32 (turbowasm_popcnt32 (value_i32 v)))
        else NumUnsupported))"

definition turbowasm_exec_i64_unary :: "(nat \<Rightarrow> bool) \<Rightarrow> u8 \<Rightarrow> turbowasm_value_stack \<Rightarrow> exec_result" where
  "turbowasm_exec_i64_unary grant opcode s =
     exec_pop1 TURBOWASM_VALUE_I64 s (\<lambda>v s1. exec_finish grant s1
       (if opcode = 0x79 then NumValue (VALUE_I64 (turbowasm_clz64 (value_i64 v)))
        else if opcode = 0x7a then NumValue (VALUE_I64 (turbowasm_ctz64 (value_i64 v)))
        else if opcode = 0x7b then NumValue (VALUE_I64 (turbowasm_popcnt64 (value_i64 v)))
        else NumUnsupported))"

definition i32_binary :: "u8 \<Rightarrow> u32 \<Rightarrow> u32 \<Rightarrow> numeric_outcome" where
  "i32_binary opcode a b =
     (if opcode = 0x6a then NumValue (VALUE_I32 (a + b))
      else if opcode = 0x6b then NumValue (VALUE_I32 (a - b))
      else if opcode = 0x6c then NumValue (VALUE_I32 (a * b))
      else if opcode = 0x6d then
        (if sint b = 0 then NumTrap TURBOWASM_TRAP_INTEGER_DIVIDE_BY_ZERO
         else if sint a = - 2147483648 \<and> sint b = - 1 then NumTrap TURBOWASM_TRAP_INTEGER_OVERFLOW
         else NumValue (VALUE_I32 (word_of_int (sint a sdiv sint b))))
      else if opcode = 0x6e then
        (if b = 0 then NumTrap TURBOWASM_TRAP_INTEGER_DIVIDE_BY_ZERO
         else NumValue (VALUE_I32 (a div b)))
      else if opcode = 0x6f then
        (if sint b = 0 then NumTrap TURBOWASM_TRAP_INTEGER_DIVIDE_BY_ZERO
         else NumValue (VALUE_I32
           (if sint a = - 2147483648 \<and> sint b = - 1 then 0 else word_of_int (sint a smod sint b))))
      else if opcode = 0x70 then
        (if b = 0 then NumTrap TURBOWASM_TRAP_INTEGER_DIVIDE_BY_ZERO
         else NumValue (VALUE_I32 (a mod b)))
      else if opcode = 0x71 then NumValue (VALUE_I32 (a AND b))
      else if opcode = 0x72 then NumValue (VALUE_I32 (a OR b))
      else if opcode = 0x73 then NumValue (VALUE_I32 (a XOR b))
      else if opcode = 0x74 then NumValue (VALUE_I32 (push_bit (unat (b AND 31)) a))
      else if opcode = 0x75 then NumValue (VALUE_I32 (turbowasm_sar32 a b))
      else if opcode = 0x76 then NumValue (VALUE_I32 (drop_bit (unat (b AND 31)) a))
      else if opcode = 0x77 then NumValue (VALUE_I32 (turbowasm_rotl32 a b))
      else if opcode = 0x78 then NumValue (VALUE_I32 (turbowasm_rotr32 a b))
      else NumUnsupported)"

definition turbowasm_exec_i32_binary :: "(nat \<Rightarrow> bool) \<Rightarrow> u8 \<Rightarrow> turbowasm_value_stack \<Rightarrow> exec_result" where
  "turbowasm_exec_i32_binary grant opcode s =
     exec_pop2 TURBOWASM_VALUE_I32 s
       (\<lambda>left right s2. exec_finish grant s2 (i32_binary opcode (value_i32 left) (value_i32 right)))"

definition i64_binary :: "u8 \<Rightarrow> u64 \<Rightarrow> u64 \<Rightarrow> numeric_outcome" where
  "i64_binary opcode a b =
     (if opcode = 0x7c then NumValue (VALUE_I64 (a + b))
      else if opcode = 0x7d then NumValue (VALUE_I64 (a - b))
      else if opcode = 0x7e then NumValue (VALUE_I64 (a * b))
      else if opcode = 0x7f then
        (if sint b = 0 then NumTrap TURBOWASM_TRAP_INTEGER_DIVIDE_BY_ZERO
         else if sint a = - 9223372036854775808 \<and> sint b = - 1 then NumTrap TURBOWASM_TRAP_INTEGER_OVERFLOW
         else NumValue (VALUE_I64 (word_of_int (sint a sdiv sint b))))
      else if opcode = 0x80 then
        (if b = 0 then NumTrap TURBOWASM_TRAP_INTEGER_DIVIDE_BY_ZERO
         else NumValue (VALUE_I64 (a div b)))
      else if opcode = 0x81 then
        (if sint b = 0 then NumTrap TURBOWASM_TRAP_INTEGER_DIVIDE_BY_ZERO
         else NumValue (VALUE_I64
           (if sint a = - 9223372036854775808 \<and> sint b = - 1 then 0 else word_of_int (sint a smod sint b))))
      else if opcode = 0x82 then
        (if b = 0 then NumTrap TURBOWASM_TRAP_INTEGER_DIVIDE_BY_ZERO
         else NumValue (VALUE_I64 (a mod b)))
      else if opcode = 0x83 then NumValue (VALUE_I64 (a AND b))
      else if opcode = 0x84 then NumValue (VALUE_I64 (a OR b))
      else if opcode = 0x85 then NumValue (VALUE_I64 (a XOR b))
      else if opcode = 0x86 then NumValue (VALUE_I64 (push_bit (unat (b AND 63)) a))
      else if opcode = 0x87 then NumValue (VALUE_I64 (turbowasm_sar64 a b))
      else if opcode = 0x88 then NumValue (VALUE_I64 (drop_bit (unat (b AND 63)) a))
      else if opcode = 0x89 then NumValue (VALUE_I64 (turbowasm_rotl64 a b))
      else if opcode = 0x8a then NumValue (VALUE_I64 (turbowasm_rotr64 a b))
      else NumUnsupported)"

definition turbowasm_exec_i64_binary :: "(nat \<Rightarrow> bool) \<Rightarrow> u8 \<Rightarrow> turbowasm_value_stack \<Rightarrow> exec_result" where
  "turbowasm_exec_i64_binary grant opcode s =
     exec_pop2 TURBOWASM_VALUE_I64 s
       (\<lambda>left right s2. exec_finish grant s2 (i64_binary opcode (value_i64 left) (value_i64 right)))"

subsection \<open>Floating-point primitives\<close>

text \<open>
  The NaNs that the hardware chooses: of an arithmetic operation on two operands, and of a conversion
  between the formats.
\<close>

record float_env =
  arith_nan32 :: "u32 \<Rightarrow> u32 \<Rightarrow> u32"
  arith_nan64 :: "u64 \<Rightarrow> u64 \<Rightarrow> u64"
  demote_nan :: "u64 \<Rightarrow> u32"
  promote_nan :: "u32 \<Rightarrow> u64"

abbreviation f32_eq :: "u32 \<Rightarrow> u32 \<Rightarrow> bool" where "f32_eq a b \<equiv> f_eq F32 (unat a) (unat b)"
abbreviation f32_less :: "u32 \<Rightarrow> u32 \<Rightarrow> bool" where "f32_less a b \<equiv> f_less F32 (unat a) (unat b)"
abbreviation f32_le :: "u32 \<Rightarrow> u32 \<Rightarrow> bool" where "f32_le a b \<equiv> f_le F32 (unat a) (unat b)"
abbreviation f64_eq :: "u64 \<Rightarrow> u64 \<Rightarrow> bool" where "f64_eq a b \<equiv> f_eq F64 (unat a) (unat b)"
abbreviation f64_less :: "u64 \<Rightarrow> u64 \<Rightarrow> bool" where "f64_less a b \<equiv> f_less F64 (unat a) (unat b)"
abbreviation f64_le :: "u64 \<Rightarrow> u64 \<Rightarrow> bool" where "f64_le a b \<equiv> f_le F64 (unat a) (unat b)"

definition turbowasm_exec_f32_compare :: "(nat \<Rightarrow> bool) \<Rightarrow> u8 \<Rightarrow> turbowasm_value_stack \<Rightarrow> exec_result" where
  "turbowasm_exec_f32_compare grant opcode s =
     exec_pop2 TURBOWASM_VALUE_F32 s (\<lambda>l r s2.
       let left = value_f32 l; right = value_f32 r in
       exec_finish grant s2
         (if opcode = 0x5b then bool_i32 (f32_eq left right)
          else if opcode = 0x5c then bool_i32 (\<not> f32_eq left right)
          else if opcode = 0x5d then bool_i32 (f32_less left right)
          else if opcode = 0x5e then bool_i32 (f32_less right left)
          else if opcode = 0x5f then bool_i32 (f32_le left right)
          else if opcode = 0x60 then bool_i32 (f32_le right left)
          else NumUnsupported))"

definition turbowasm_exec_f64_compare :: "(nat \<Rightarrow> bool) \<Rightarrow> u8 \<Rightarrow> turbowasm_value_stack \<Rightarrow> exec_result" where
  "turbowasm_exec_f64_compare grant opcode s =
     exec_pop2 TURBOWASM_VALUE_F64 s (\<lambda>l r s2.
       let left = value_f64 l; right = value_f64 r in
       exec_finish grant s2
         (if opcode = 0x61 then bool_i32 (f64_eq left right)
          else if opcode = 0x62 then bool_i32 (\<not> f64_eq left right)
          else if opcode = 0x63 then bool_i32 (f64_less left right)
          else if opcode = 0x64 then bool_i32 (f64_less right left)
          else if opcode = 0x65 then bool_i32 (f64_le left right)
          else if opcode = 0x66 then bool_i32 (f64_le right left)
          else NumUnsupported))"

definition turbowasm_f32_bits_is_nan :: "u32 \<Rightarrow> bool" where
  "turbowasm_f32_bits_is_nan bits \<longleftrightarrow> bits AND 0x7f800000 = 0x7f800000 \<and> bits AND 0x007fffff \<noteq> 0"

definition turbowasm_f64_bits_is_nan :: "u64 \<Rightarrow> bool" where
  "turbowasm_f64_bits_is_nan bits \<longleftrightarrow>
     bits AND 0x7ff0000000000000 = 0x7ff0000000000000 \<and> bits AND 0x000fffffffffffff \<noteq> 0"

definition turbowasm_f32_quiet_nan :: "u32 \<Rightarrow> u32" where
  "turbowasm_f32_quiet_nan bits = bits OR 0x7fc00000"

definition turbowasm_f64_quiet_nan :: "u64 \<Rightarrow> u64" where
  "turbowasm_f64_quiet_nan bits = bits OR 0x7ff8000000000000"

text \<open>The operands of the differences below are finite, so no NaN is chosen there.\<close>

definition turbowasm_f32_nearest :: "u32 \<Rightarrow> u32" where
  "turbowasm_f32_nearest bits =
     (if turbowasm_f32_bits_is_nan bits then turbowasm_f32_quiet_nan bits
      else if bits AND 0x7fffffff = 0x7f800000 then bits
      else if f32_eq bits 0 then bits
      else
        let lower = f_floor F32 (unat bits) in
        if f_eq F32 lower (unat bits) then bits
        else
          let upper = f_ceil F32 (unat bits);
              down = f_sub F32 0 (unat bits) lower;
              up = f_sub F32 0 upper (unat bits);
              result = (if f_less F32 down up then lower
                        else if f_less F32 up down then upper
                        else if even (f_trunc_int F32 lower) then lower else upper)
          in if f_eq F32 result 0 \<and> bits AND 0x80000000 \<noteq> 0 then 0x80000000 else of_nat result)"

definition turbowasm_f64_nearest :: "u64 \<Rightarrow> u64" where
  "turbowasm_f64_nearest bits =
     (if turbowasm_f64_bits_is_nan bits then turbowasm_f64_quiet_nan bits
      else if bits AND 0x7fffffffffffffff = 0x7ff0000000000000 then bits
      else if f64_eq bits 0 then bits
      else
        let lower = f_floor F64 (unat bits) in
        if f_eq F64 lower (unat bits) then bits
        else
          let upper = f_ceil F64 (unat bits);
              down = f_sub F64 0 (unat bits) lower;
              up = f_sub F64 0 upper (unat bits);
              result = (if f_less F64 down up then lower
                        else if f_less F64 up down then upper
                        else if even (f_trunc_int F64 lower) then lower else upper)
          in if f_eq F64 result 0 \<and> bits AND 0x8000000000000000 \<noteq> 0 then 0x8000000000000000 else of_nat result)"

definition f32_unary :: "u8 \<Rightarrow> u32 \<Rightarrow> numeric_outcome" where
  "f32_unary opcode bits =
     (if opcode = 0x8b then NumValue (VALUE_F32 (bits AND 0x7fffffff))
      else if opcode = 0x8c then NumValue (VALUE_F32 (bits XOR 0x80000000))
      else if turbowasm_f32_bits_is_nan bits then NumValue (VALUE_F32 (turbowasm_f32_quiet_nan bits))
      else if f32_eq bits 0 then NumValue (VALUE_F32 bits)
      else
        case (if opcode = 0x8d then Some (of_nat (f_ceil F32 (unat bits)))
              else if opcode = 0x8e then Some (of_nat (f_floor F32 (unat bits)))
              else if opcode = 0x8f then Some (of_nat (f_trunc F32 (unat bits)))
              else if opcode = 0x90 then Some (turbowasm_f32_nearest bits)
              else if opcode = 0x91 then
                Some (if f32_less bits 0 then 0x7fc00000 else of_nat (f_sqrt F32 (unat bits)))
              else None) of
          None \<Rightarrow> NumUnsupported
        | Some result \<Rightarrow>
            NumValue (VALUE_F32
              (if f32_eq result 0 \<and> bits AND 0x80000000 \<noteq> 0 \<and>
                  (opcode = 0x8d \<or> opcode = 0x8f \<or> opcode = 0x90 \<or> opcode = 0x91)
               then 0x80000000 else result)))"

definition turbowasm_exec_f32_unary :: "(nat \<Rightarrow> bool) \<Rightarrow> u8 \<Rightarrow> turbowasm_value_stack \<Rightarrow> exec_result" where
  "turbowasm_exec_f32_unary grant opcode s =
     exec_pop1 TURBOWASM_VALUE_F32 s (\<lambda>v s1. exec_finish grant s1 (f32_unary opcode (value_f32 v)))"

definition f64_unary :: "u8 \<Rightarrow> u64 \<Rightarrow> numeric_outcome" where
  "f64_unary opcode bits =
     (if opcode = 0x99 then NumValue (VALUE_F64 (bits AND 0x7fffffffffffffff))
      else if opcode = 0x9a then NumValue (VALUE_F64 (bits XOR 0x8000000000000000))
      else if turbowasm_f64_bits_is_nan bits then NumValue (VALUE_F64 (turbowasm_f64_quiet_nan bits))
      else if f64_eq bits 0 then NumValue (VALUE_F64 bits)
      else
        case (if opcode = 0x9b then Some (of_nat (f_ceil F64 (unat bits)))
              else if opcode = 0x9c then Some (of_nat (f_floor F64 (unat bits)))
              else if opcode = 0x9d then Some (of_nat (f_trunc F64 (unat bits)))
              else if opcode = 0x9e then Some (turbowasm_f64_nearest bits)
              else if opcode = 0x9f then
                Some (if f64_less bits 0 then 0x7ff8000000000000 else of_nat (f_sqrt F64 (unat bits)))
              else None) of
          None \<Rightarrow> NumUnsupported
        | Some result \<Rightarrow>
            NumValue (VALUE_F64
              (if f64_eq result 0 \<and> bits AND 0x8000000000000000 \<noteq> 0 \<and>
                  (opcode = 0x9b \<or> opcode = 0x9d \<or> opcode = 0x9e \<or> opcode = 0x9f)
               then 0x8000000000000000 else result)))"

definition turbowasm_exec_f64_unary :: "(nat \<Rightarrow> bool) \<Rightarrow> u8 \<Rightarrow> turbowasm_value_stack \<Rightarrow> exec_result" where
  "turbowasm_exec_f64_unary grant opcode s =
     exec_pop1 TURBOWASM_VALUE_F64 s (\<lambda>v s1. exec_finish grant s1 (f64_unary opcode (value_f64 v)))"

definition turbowasm_f32_minmax :: "u32 \<Rightarrow> u32 \<Rightarrow> bool \<Rightarrow> u32" where
  "turbowasm_f32_minmax left right maximum =
     (if f32_eq left right then (if maximum then left AND right else left OR right)
      else if (if maximum then f32_less right left else f32_less left right) then left
      else if (if maximum then f32_less left right else f32_less right left) then right
      else
        (if turbowasm_f32_bits_is_nan left then left
         else if turbowasm_f32_bits_is_nan right then right else 0x7fc00000) OR 0x7fc00000)"

definition turbowasm_f64_minmax :: "u64 \<Rightarrow> u64 \<Rightarrow> bool \<Rightarrow> u64" where
  "turbowasm_f64_minmax left right maximum =
     (if f64_eq left right then (if maximum then left AND right else left OR right)
      else if (if maximum then f64_less right left else f64_less left right) then left
      else if (if maximum then f64_less left right else f64_less right left) then right
      else
        (if turbowasm_f64_bits_is_nan left then left
         else if turbowasm_f64_bits_is_nan right then right else 0x7ff8000000000000) OR 0x7ff8000000000000)"

definition turbowasm_exec_f32_binary :: "float_env \<Rightarrow> (nat \<Rightarrow> bool) \<Rightarrow> u8 \<Rightarrow> turbowasm_value_stack \<Rightarrow> exec_result" where
  "turbowasm_exec_f32_binary env grant opcode s =
     exec_pop2 TURBOWASM_VALUE_F32 s (\<lambda>l r s2.
       let left = value_f32 l; right = value_f32 r; nan = unat (arith_nan32 env left right);
           arith = (\<lambda>f. NumValue (VALUE_F32 (of_nat (f F32 nan (unat left) (unat right))))) in
       exec_finish grant s2
         (if opcode = 0x92 then arith f_add
          else if opcode = 0x93 then arith f_sub
          else if opcode = 0x94 then arith f_mul
          else if opcode = 0x95 then arith f_div
          else if opcode = 0x96 then NumValue (VALUE_F32 (turbowasm_f32_minmax left right False))
          else if opcode = 0x97 then NumValue (VALUE_F32 (turbowasm_f32_minmax left right True))
          else if opcode = 0x98 then NumValue (VALUE_F32 ((left AND 0x7fffffff) OR (right AND 0x80000000)))
          else NumUnsupported))"

definition turbowasm_exec_f64_binary :: "float_env \<Rightarrow> (nat \<Rightarrow> bool) \<Rightarrow> u8 \<Rightarrow> turbowasm_value_stack \<Rightarrow> exec_result" where
  "turbowasm_exec_f64_binary env grant opcode s =
     exec_pop2 TURBOWASM_VALUE_F64 s (\<lambda>l r s2.
       let left = value_f64 l; right = value_f64 r; nan = unat (arith_nan64 env left right);
           arith = (\<lambda>f. NumValue (VALUE_F64 (of_nat (f F64 nan (unat left) (unat right))))) in
       exec_finish grant s2
         (if opcode = 0xa0 then arith f_add
          else if opcode = 0xa1 then arith f_sub
          else if opcode = 0xa2 then arith f_mul
          else if opcode = 0xa3 then arith f_div
          else if opcode = 0xa4 then NumValue (VALUE_F64 (turbowasm_f64_minmax left right False))
          else if opcode = 0xa5 then NumValue (VALUE_F64 (turbowasm_f64_minmax left right True))
          else if opcode = 0xa6 then
            NumValue (VALUE_F64 ((left AND 0x7fffffffffffffff) OR (right AND 0x8000000000000000)))
          else NumUnsupported))"

subsection \<open>Conversions\<close>

text \<open>The operand as a double: the \<^verbatim>\<open>value\<close> of both truncation handlers.\<close>

definition conversion_value :: "float_env \<Rightarrow> turbowasm_value \<Rightarrow> nat" where
  "conversion_value env v =
     (case v of
        VALUE_F32 x \<Rightarrow> f_convert F32 F64 (unat (promote_nan env x)) (unat x)
      | _ \<Rightarrow> unat (value_f64 v))"

abbreviation d_const :: "int \<Rightarrow> nat" where "d_const x \<equiv> f_of_int F64 x"

definition trapping_conversion :: "u8 \<Rightarrow> nat \<Rightarrow> numeric_outcome" where
  "trapping_conversion opcode v =
     (if \<not> f_eq F64 v v then NumTrap TURBOWASM_TRAP_INVALID_CONVERSION_TO_INTEGER
      else if opcode = 0xa8 \<or> opcode = 0xaa then
        (if f_le F64 (d_const 2147483648) v \<or> f_le F64 v (d_const (- 2147483649))
         then NumTrap TURBOWASM_TRAP_INTEGER_OVERFLOW
         else NumValue (VALUE_I32 (word_of_int (f_trunc_int F64 v))))
      else if opcode = 0xa9 \<or> opcode = 0xab then
        (if f_le F64 (d_const 4294967296) v \<or> f_le F64 v (d_const (- 1))
         then NumTrap TURBOWASM_TRAP_INTEGER_OVERFLOW
         else NumValue (VALUE_I32 (word_of_int (f_trunc_int F64 v))))
      else if opcode = 0xae \<or> opcode = 0xb0 then
        (if f_le F64 (d_const (2 ^ 63)) v \<or> f_less F64 v (d_const (- (2 ^ 63)))
         then NumTrap TURBOWASM_TRAP_INTEGER_OVERFLOW
         else NumValue (VALUE_I64 (word_of_int (f_trunc_int F64 v))))
      else if opcode = 0xaf \<or> opcode = 0xb1 then
        (if f_le F64 (d_const (2 ^ 64)) v \<or> f_le F64 v (d_const (- 1))
         then NumTrap TURBOWASM_TRAP_INTEGER_OVERFLOW
         else NumValue (VALUE_I64 (word_of_int (f_trunc_int F64 v))))
      else NumUnsupported)"

definition turbowasm_exec_trapping_conversion ::
    "float_env \<Rightarrow> (nat \<Rightarrow> bool) \<Rightarrow> u8 \<Rightarrow> turbowasm_value_stack \<Rightarrow> exec_result" where
  "turbowasm_exec_trapping_conversion env grant opcode s =
     (if opcode = 0xa8 \<or> opcode = 0xa9 \<or> opcode = 0xae \<or> opcode = 0xaf then
        exec_pop1 TURBOWASM_VALUE_F32 s (\<lambda>v s1. exec_finish grant s1 (trapping_conversion opcode (conversion_value env v)))
      else if opcode = 0xaa \<or> opcode = 0xab \<or> opcode = 0xb0 \<or> opcode = 0xb1 then
        exec_pop1 TURBOWASM_VALUE_F64 s (\<lambda>v s1. exec_finish grant s1 (trapping_conversion opcode (conversion_value env v)))
      else (TURBOWASM_UNSUPPORTED, None, s))"

definition trunc_sat :: "u32 \<Rightarrow> nat \<Rightarrow> numeric_outcome" where
  "trunc_sat subopcode v =
     (if subopcode \<le> 3 then NumValue (VALUE_I32
        (if \<not> f_eq F64 v v then 0
         else if subopcode AND 1 = 0 then
           (if f_less F64 v (d_const (- 2147483648)) then 0x80000000
            else if f_le F64 (d_const 2147483648) v then 0x7fffffff
            else word_of_int (f_trunc_int F64 v))
         else
           (if f_le F64 v (d_const (- 1)) then 0
            else if f_le F64 (d_const 4294967296) v then U32_MAX
            else word_of_int (f_trunc_int F64 v))))
      else NumValue (VALUE_I64
        (if \<not> f_eq F64 v v then 0
         else if subopcode AND 1 = 0 then
           (if f_less F64 v (d_const (- (2 ^ 63))) then 0x8000000000000000
            else if f_le F64 (d_const (2 ^ 63)) v then 0x7fffffffffffffff
            else word_of_int (f_trunc_int F64 v))
         else
           (if f_le F64 v (d_const (- 1)) then 0
            else if f_le F64 (d_const (2 ^ 64)) v then U64_MAX
            else word_of_int (f_trunc_int F64 v)))))"

definition turbowasm_exec_trunc_sat :: "float_env \<Rightarrow> (nat \<Rightarrow> bool) \<Rightarrow> u32 \<Rightarrow> turbowasm_value_stack \<Rightarrow> exec_result" where
  "turbowasm_exec_trunc_sat env grant subopcode s =
     (if subopcode \<le> 1 \<or> (subopcode \<ge> 4 \<and> subopcode \<le> 5) then
        exec_pop1 TURBOWASM_VALUE_F32 s (\<lambda>v s1. exec_finish grant s1 (trunc_sat subopcode (conversion_value env v)))
      else if subopcode \<le> 7 then
        exec_pop1 TURBOWASM_VALUE_F64 s (\<lambda>v s1. exec_finish grant s1 (trunc_sat subopcode (conversion_value env v)))
      else (TURBOWASM_UNSUPPORTED, None, s))"

definition conversion_source :: "u8 \<Rightarrow> turbowasm_value_kind option" where
  "conversion_source opcode =
     (if opcode \<in> {0xa7, 0xb4, 0xb5, 0xb9, 0xba, 0xbf, 0xc2, 0xc3, 0xc4} then Some TURBOWASM_VALUE_I64
      else if opcode \<in> {0xac, 0xad, 0xb2, 0xb3, 0xb7, 0xb8, 0xbe, 0xc0, 0xc1} then Some TURBOWASM_VALUE_I32
      else if opcode \<in> {0xb6, 0xbd} then Some TURBOWASM_VALUE_F64
      else if opcode \<in> {0xbb, 0xbc} then Some TURBOWASM_VALUE_F32
      else None)"

definition nontrapping_conversion :: "float_env \<Rightarrow> u8 \<Rightarrow> turbowasm_value \<Rightarrow> numeric_outcome" where
  "nontrapping_conversion env opcode v =
     (if opcode = 0xa7 then NumValue (VALUE_I32 (ucast (value_i64 v)))
      else if opcode = 0xac then NumValue (VALUE_I64 (scast (value_i32 v)))
      else if opcode = 0xad then NumValue (VALUE_I64 (ucast (value_i32 v)))
      else if opcode = 0xb2 then NumValue (VALUE_F32 (of_nat (f_of_int F32 (sint (value_i32 v)))))
      else if opcode = 0xb3 then NumValue (VALUE_F32 (of_nat (f_of_int F32 (uint (value_i32 v)))))
      else if opcode = 0xb4 then NumValue (VALUE_F32 (of_nat (f_of_int F32 (sint (value_i64 v)))))
      else if opcode = 0xb5 then NumValue (VALUE_F32 (of_nat (f_of_int F32 (uint (value_i64 v)))))
      else if opcode = 0xb6 then
        NumValue (VALUE_F32 (of_nat (f_convert F64 F32 (unat (demote_nan env (value_f64 v))) (unat (value_f64 v)))))
      else if opcode = 0xb7 then NumValue (VALUE_F64 (of_nat (f_of_int F64 (sint (value_i32 v)))))
      else if opcode = 0xb8 then NumValue (VALUE_F64 (of_nat (f_of_int F64 (uint (value_i32 v)))))
      else if opcode = 0xb9 then NumValue (VALUE_F64 (of_nat (f_of_int F64 (sint (value_i64 v)))))
      else if opcode = 0xba then NumValue (VALUE_F64 (of_nat (f_of_int F64 (uint (value_i64 v)))))
      else if opcode = 0xbb then
        NumValue (VALUE_F64 (of_nat (f_convert F32 F64 (unat (promote_nan env (value_f32 v))) (unat (value_f32 v)))))
      else if opcode = 0xbc then NumValue (VALUE_I32 (value_f32 v))
      else if opcode = 0xbd then NumValue (VALUE_I64 (value_f64 v))
      else if opcode = 0xbe then NumValue (VALUE_F32 (value_i32 v))
      else if opcode = 0xbf then NumValue (VALUE_F64 (value_i64 v))
      else if opcode = 0xc0 then NumValue (VALUE_I32 (turbowasm_sign_extend_u32 (value_i32 v) 8))
      else if opcode = 0xc1 then NumValue (VALUE_I32 (turbowasm_sign_extend_u32 (value_i32 v) 16))
      else if opcode = 0xc2 then NumValue (VALUE_I64 (turbowasm_sign_extend_u64 (value_i64 v) 8))
      else if opcode = 0xc3 then NumValue (VALUE_I64 (turbowasm_sign_extend_u64 (value_i64 v) 16))
      else if opcode = 0xc4 then NumValue (VALUE_I64 (turbowasm_sign_extend_u64 (value_i64 v) 32))
      else NumUnsupported)"

definition turbowasm_exec_nontrapping_conversion ::
    "float_env \<Rightarrow> (nat \<Rightarrow> bool) \<Rightarrow> u8 \<Rightarrow> turbowasm_value_stack \<Rightarrow> exec_result" where
  "turbowasm_exec_nontrapping_conversion env grant opcode s =
     (case conversion_source opcode of
        None \<Rightarrow> (TURBOWASM_UNSUPPORTED, None, s)
      | Some kind \<Rightarrow> exec_pop1 kind s (\<lambda>v s1. exec_finish grant s1 (nontrapping_conversion env opcode v)))"

subsection \<open>The numeric bridge\<close>

record turbowasm_numeric_signature =
  input_type :: u8
  output_type :: u8
  input_count :: nat

definition conversion_types :: "(u8 \<times> u8) list" where
  "conversion_types =
     [(0x7e, 0x7f),
      (0x7d, 0x7f), (0x7d, 0x7f), (0x7c, 0x7f), (0x7c, 0x7f),
      (0x7f, 0x7e), (0x7f, 0x7e),
      (0x7d, 0x7e), (0x7d, 0x7e), (0x7c, 0x7e), (0x7c, 0x7e),
      (0x7f, 0x7d), (0x7f, 0x7d), (0x7e, 0x7d), (0x7e, 0x7d),
      (0x7c, 0x7d),
      (0x7f, 0x7c), (0x7f, 0x7c), (0x7e, 0x7c), (0x7e, 0x7c),
      (0x7d, 0x7c),
      (0x7d, 0x7f), (0x7c, 0x7e), (0x7f, 0x7d), (0x7e, 0x7c),
      (0x7f, 0x7f), (0x7f, 0x7f), (0x7e, 0x7e), (0x7e, 0x7e), (0x7e, 0x7e)]"

definition numeric_signature :: "u8 \<Rightarrow> u8 \<Rightarrow> nat \<Rightarrow> turbowasm_numeric_signature" where
  "numeric_signature ti to n = \<lparr>input_type = ti, output_type = to, input_count = n\<rparr>"

definition turbowasm_numeric_signature_get :: "nat \<Rightarrow> turbowasm_numeric_signature option" where
  "turbowasm_numeric_signature_get opcode =
     (if 0x100 \<le> opcode \<and> opcode < 0x100 + 8 then
        let subopcode = opcode - 0x100 in
        Some (numeric_signature (if (subopcode div 2) mod 2 = 0 then 0x7d else 0x7c) (if subopcode < 4 then 0x7f else 0x7e) 1)
      else if 0x45 \<le> opcode \<and> opcode \<le> 0xc4 then
        Some
         (if opcode \<le> 0x4f then numeric_signature 0x7f 0x7f (if opcode = 0x45 then 1 else 2)
          else if opcode \<le> 0x5a then numeric_signature 0x7e 0x7f (if opcode = 0x50 then 1 else 2)
          else if opcode \<le> 0x66 then numeric_signature (if opcode \<le> 0x60 then 0x7d else 0x7c) 0x7f 2
          else if opcode \<le> 0x78 then numeric_signature 0x7f 0x7f (if opcode \<le> 0x69 then 1 else 2)
          else if opcode \<le> 0x8a then numeric_signature 0x7e 0x7e (if opcode \<le> 0x7b then 1 else 2)
          else if opcode \<le> 0xa6 then
            numeric_signature (if opcode \<le> 0x98 then 0x7d else 0x7c) (if opcode \<le> 0x98 then 0x7d else 0x7c)
              (if opcode \<le> 0x91 \<or> (0x99 \<le> opcode \<and> opcode \<le> 0x9f) then 1 else 2)
          else numeric_signature (fst (conversion_types ! (opcode - 0xa7))) (snd (conversion_types ! (opcode - 0xa7))) 1)
      else None)"

text \<open>The handler that the bridge selects for an opcode with a signature.\<close>

definition numeric_dispatch :: "float_env \<Rightarrow> (nat \<Rightarrow> bool) \<Rightarrow> nat \<Rightarrow> turbowasm_value_stack \<Rightarrow> exec_result" where
  "numeric_dispatch env grant opcode s =
     (let op8 = of_nat opcode in
      if opcode \<ge> 0x100 then turbowasm_exec_trunc_sat env grant (of_nat (opcode - 0x100)) s
      else if opcode \<le> 0x4f then turbowasm_exec_i32_test_or_compare grant op8 s
      else if opcode \<le> 0x5a then turbowasm_exec_i64_test_or_compare grant op8 s
      else if opcode \<le> 0x60 then turbowasm_exec_f32_compare grant op8 s
      else if opcode \<le> 0x66 then turbowasm_exec_f64_compare grant op8 s
      else if opcode \<le> 0x69 then turbowasm_exec_i32_unary grant op8 s
      else if opcode \<le> 0x78 then turbowasm_exec_i32_binary grant op8 s
      else if opcode \<le> 0x7b then turbowasm_exec_i64_unary grant op8 s
      else if opcode \<le> 0x8a then turbowasm_exec_i64_binary grant op8 s
      else if opcode \<le> 0x91 then turbowasm_exec_f32_unary grant op8 s
      else if opcode \<le> 0x98 then turbowasm_exec_f32_binary env grant op8 s
      else if opcode \<le> 0x9f then turbowasm_exec_f64_unary grant op8 s
      else if opcode \<le> 0xa6 then turbowasm_exec_f64_binary env grant op8 s
      else if (0xa8 \<le> opcode \<and> opcode \<le> 0xab) \<or> (0xae \<le> opcode \<and> opcode \<le> 0xb1) then
        turbowasm_exec_trapping_conversion env grant op8 s
      else turbowasm_exec_nontrapping_conversion env grant op8 s)"

text \<open>The status, the trap that is left in the context, and the store to \<^verbatim>\<open>result\<close>.\<close>

definition turbowasm_jit_numeric ::
    "float_env \<Rightarrow> (nat \<Rightarrow> bool) \<Rightarrow> int \<Rightarrow> turbowasm_value list \<Rightarrow> turbowasm_status \<times> turbowasm_trap \<times> turbowasm_value option" where
  "turbowasm_jit_numeric env grant opcode arguments =
     (if opcode < 0 \<or> opcode > int UINT32_MAX then (TURBOWASM_UNSUPPORTED, TURBOWASM_TRAP_NONE, None)
      else case turbowasm_numeric_signature_get (nat opcode) of
        None \<Rightarrow> (TURBOWASM_UNSUPPORTED, TURBOWASM_TRAP_NONE, None)
      | Some signature \<Rightarrow>
          (case numeric_dispatch env grant (nat opcode)
                  \<lparr>stack_values = rev (take (input_count signature) arguments), stack_capacity = 2\<rparr> of
             (status, trap, s) \<Rightarrow>
               let t = (case trap of None \<Rightarrow> TURBOWASM_TRAP_NONE | Some t \<Rightarrow> t) in
               if status \<noteq> TURBOWASM_OK then (status, t, None)
               else if length (stack_values s) \<noteq> 1 then (TURBOWASM_TYPE_MISMATCH, t, None)
               else (status, t, Some (hd (stack_values s)))))"

definition turbowasm_kind_from_valtype :: "u8 \<Rightarrow> turbowasm_value_kind option" where
  "turbowasm_kind_from_valtype t =
     (if t = 0x7f then Some TURBOWASM_VALUE_I32
      else if t = 0x7e then Some TURBOWASM_VALUE_I64
      else if t = 0x7d then Some TURBOWASM_VALUE_F32
      else if t = 0x7c then Some TURBOWASM_VALUE_F64
      else if t = 0x7b then Some TURBOWASM_VALUE_V128
      else if t = 0x70 then Some TURBOWASM_VALUE_FUNCREF
      else if t = 0x6f then Some TURBOWASM_VALUE_EXTERNREF
      else if t = 0x6e then Some TURBOWASM_VALUE_GCREF
      else if t = 0x69 then Some TURBOWASM_VALUE_EXNREF
      else None)"

definition turbowasm_value_matches_type :: "turbowasm_value \<Rightarrow> u8 \<Rightarrow> bool" where
  "turbowasm_value_matches_type v t =
     (case turbowasm_kind_from_valtype t of
        None \<Rightarrow> False
      | Some kind \<Rightarrow> value_kind v = Some kind \<or>
          (kind = TURBOWASM_VALUE_EXTERNREF \<and> value_kind v = Some TURBOWASM_VALUE_MANAGED_EXTERNREF))"

definition turbowasm_reference_is_null :: "turbowasm_value \<Rightarrow> turbowasm_status \<times> bool option" where
  "turbowasm_reference_is_null v =
     (case v of
        VALUE_FUNCREF r \<Rightarrow> (TURBOWASM_OK, Some (funcref_is_null r))
      | VALUE_EXTERNREF r \<Rightarrow> (TURBOWASM_OK, Some (externref_is_null r))
      | VALUE_EXNREF r \<Rightarrow> (TURBOWASM_OK, Some (exnref_is_null r))
      | VALUE_GCREF r \<Rightarrow> (TURBOWASM_OK, Some (gcref_handle r = 0))
      | VALUE_MANAGED_EXTERNREF r \<Rightarrow> (TURBOWASM_OK, Some (gcref_handle r = 0))
      | _ \<Rightarrow> (TURBOWASM_TYPE_MISMATCH, None))"

text \<open>The default value of a type; \<^verbatim>\<open>memset\<close> clears the members that are not set.\<close>

definition turbowasm_zero_value :: "u8 \<Rightarrow> turbowasm_value option" where
  "turbowasm_zero_value t =
     (case turbowasm_kind_from_valtype t of
        None \<Rightarrow> None
      | Some TURBOWASM_VALUE_I32 \<Rightarrow> Some (VALUE_I32 0)
      | Some TURBOWASM_VALUE_I64 \<Rightarrow> Some (VALUE_I64 0)
      | Some TURBOWASM_VALUE_F32 \<Rightarrow> Some (VALUE_F32 0)
      | Some TURBOWASM_VALUE_F64 \<Rightarrow> Some (VALUE_F64 0)
      | Some TURBOWASM_VALUE_V128 \<Rightarrow> Some (VALUE_V128 \<lparr>v128_bits = 0, v128_shape = TURBOWASM_V128_RAW\<rparr>)
      | Some TURBOWASM_VALUE_FUNCREF \<Rightarrow>
          Some (VALUE_FUNCREF \<lparr>funcref_is_null = True, function_index = U32_MAX, funcref_owner = None\<rparr>)
      | Some TURBOWASM_VALUE_EXTERNREF \<Rightarrow> Some (VALUE_EXTERNREF \<lparr>externref_is_null = True, externref_token = 0\<rparr>)
      | Some TURBOWASM_VALUE_GCREF \<Rightarrow> Some (VALUE_GCREF \<lparr>gcref_store = None, gcref_handle = 0\<rparr>)
      | Some TURBOWASM_VALUE_EXNREF \<Rightarrow> Some (VALUE_EXNREF \<lparr>exnref_is_null = True, exnref_exception = None\<rparr>)
      | Some TURBOWASM_VALUE_MANAGED_EXTERNREF \<Rightarrow> None)"

end
