(* ===== verification/TW_Numeric_Bits.thy ===== *)
theory TW_Numeric_Bits
  imports TW_Numeric
begin

text \<open>
  The bit primitives of \<^verbatim>\<open>instance.c\<close>: the shifts and rotations are those of the word library, the binary searches of
  \<^verbatim>\<open>clz\<close> and \<^verbatim>\<open>ctz\<close> find the highest and the lowest set bit, and the parallel sum of \<^verbatim>\<open>popcnt\<close> counts the set bits.
\<close>

subsection \<open>Masked shift counts\<close>

lemma and_31: "unat (x AND 31 :: u32) = unat x mod 32"
proof -
  have "(31 :: u32) = mask 5" by (simp add: mask_eq_exp_minus_1)
  then show ?thesis by (simp only: take_bit_eq_mask [symmetric] unsigned_take_bit_eq) (simp add: take_bit_eq_mod)
qed

lemma and_63: "unat (x AND 63 :: u64) = unat x mod 64"
proof -
  have "(63 :: u64) = mask 6" by (simp add: mask_eq_exp_minus_1)
  then show ?thesis by (simp only: take_bit_eq_mask [symmetric] unsigned_take_bit_eq) (simp add: take_bit_eq_mod)
qed

lemma len_of_32_eq: "LENGTH(32) = 32" and len_of_64_eq: "LENGTH(64) = 64"
  by simp_all

subsection \<open>Shifts and rotations\<close>

lemma arithmetic_shift:
  fixes x :: "'a::len word"
  assumes "k < LENGTH('a)"
  shows "(if k = 0 then x else if 0 \<le> sint x then drop_bit k x else drop_bit k x OR push_bit (LENGTH('a) - k) (NOT 0)) =
    signed_drop_bit k x"
proof (cases "k = 0")
  case False
  have sign: "bit x (LENGTH('a) - Suc 0) \<longleftrightarrow> sint x < 0" by (rule bit_last_iff)
  have "bit (if 0 \<le> sint x then drop_bit k x else drop_bit k x OR push_bit (LENGTH('a) - k) (NOT 0)) n =
    bit (signed_drop_bit k x) n" if n: "n < LENGTH('a)" for n
  proof (cases "LENGTH('a) - k \<le> n")
    case True
    then have "\<not> bit x (k + n)" by (auto dest: bit_imp_le_length)
    with True n sign show ?thesis
      by (auto simp: bit_drop_bit_eq bit_or_iff bit_push_bit_iff bit_not_iff bit_mask_iff bit_signed_drop_bit_iff not_le)
  next
    case False
    with n show ?thesis
      by (auto simp: bit_drop_bit_eq bit_or_iff bit_push_bit_iff bit_not_iff bit_mask_iff bit_signed_drop_bit_iff)
  qed
  with False show ?thesis by (intro bit_word_eqI) simp
qed simp

lemma rotate_left:
  fixes x :: "'a::len word"
  assumes "k < LENGTH('a)"
  shows "(if k = 0 then x else push_bit k x OR drop_bit (LENGTH('a) - k) x) = word_rotl k x"
proof (rule bit_word_eqI)
  fix n
  assume n: "n < LENGTH('a)"
  show "bit (if k = 0 then x else push_bit k x OR drop_bit (LENGTH('a) - k) x) n = bit (word_rotl k x) n"
  proof (cases "k \<le> n")
    case True
    then have "(n + (LENGTH('a) - k)) mod LENGTH('a) = n - k"
      using assms n by (simp add: mod_if)
    moreover have "\<not> bit x (LENGTH('a) - k + n)" if "k \<noteq> 0"
      using True assms by (intro notI) (auto dest: bit_imp_le_length)
    ultimately show ?thesis
      using True n assms by (auto simp: bit_word_rotl_iff bit_or_iff bit_push_bit_iff bit_drop_bit_eq)
  next
    case False
    then show ?thesis
      using assms n by (auto simp: bit_word_rotl_iff bit_or_iff bit_push_bit_iff bit_drop_bit_eq add.commute)
  qed
qed

lemma rotate_right:
  fixes x :: "'a::len word"
  assumes "k < LENGTH('a)"
  shows "(if k = 0 then x else drop_bit k x OR push_bit (LENGTH('a) - k) x) = word_rotr k x"
proof (cases "k = 0")
  case False
  have "(if LENGTH('a) - k = 0 then x else push_bit (LENGTH('a) - k) x OR drop_bit (LENGTH('a) - (LENGTH('a) - k)) x) =
      word_rotl (LENGTH('a) - k) x"
    using False assms by (intro rotate_left) simp
  then have "drop_bit k x OR push_bit (LENGTH('a) - k) x = word_rotl (LENGTH('a) - k) x"
    using False assms by (simp add: or.commute)
  also have "\<dots> = word_rotr k x"
    using False assms by (simp add: word_rotl_eq_word_rotr)
  finally show ?thesis using False by simp
next
  case True
  then show ?thesis by (auto intro!: bit_word_eqI simp: bit_word_rotr_iff)
qed

text \<open>
  C16. Shifts and rotations. The branchy C helpers compute, for every value and every shift count taken modulo the
  width, the arithmetic right shift and the rotations of the word library.
\<close>

theorem shift_rotate_correct:
  "turbowasm_sar32 x s = signed_drop_bit (unat s mod 32) x \<and>
   turbowasm_sar64 y r = signed_drop_bit (unat r mod 64) y \<and>
   turbowasm_rotl32 x s = word_rotl (unat s mod 32) x \<and> turbowasm_rotr32 x s = word_rotr (unat s mod 32) x \<and>
   turbowasm_rotl64 y r = word_rotl (unat r mod 64) y \<and> turbowasm_rotr64 y r = word_rotr (unat r mod 64) y"
proof -
  have k: "unat s mod 32 < LENGTH(32)" "unat r mod 64 < LENGTH(64)" by simp_all
  show ?thesis
    unfolding turbowasm_sar32_def turbowasm_sar64_def turbowasm_rotl32_def turbowasm_rotr32_def
      turbowasm_rotl64_def turbowasm_rotr64_def Let_def and_31 and_63
    using arithmetic_shift [OF k(1), of x] arithmetic_shift [OF k(2), of y] rotate_left [OF k(1), of x]
      rotate_left [OF k(2), of y] rotate_right [OF k(1), of x] rotate_right [OF k(2), of y]
    unfolding len_of_32_eq len_of_64_eq by (intro conjI)
qed

subsection \<open>Counting zeros\<close>

lemma and_high_mask_eq_0:
  fixes v :: "'a::len word"
  assumes "k \<le> LENGTH('a)"
  shows "v AND push_bit (LENGTH('a) - k) (mask k) = 0 \<longleftrightarrow> unat v < 2 ^ (LENGTH('a) - k)"
proof -
  let ?n = "LENGTH('a) - k"
  have "push_bit ?n (mask k) = (NOT (mask ?n) :: 'a word)"
  proof (rule bit_word_eqI)
    fix i
    assume "i < LENGTH('a)"
    then show "bit (push_bit ?n (mask k) :: 'a word) i = bit (NOT (mask ?n) :: 'a word) i"
      using assms by (auto simp: bit_push_bit_iff bit_mask_iff bit_not_iff)
  qed
  then show ?thesis using word_and_not_mask_eq_0 [of v ?n] by simp
qed

text \<open>The state of a search for leading zeros: the value is the operand shifted left by the count, without loss.\<close>

definition clz_state :: "'a::len word \<Rightarrow> nat \<times> 'a word \<Rightarrow> bool" where
  "clz_state x cv \<longleftrightarrow> unat (snd cv) = unat x * 2 ^ fst cv"

lemma clz_step_state:
  fixes x :: "'a::len word"
  assumes "clz_state x cv" and "k \<le> LENGTH('a)" and "m = push_bit (LENGTH('a) - k) (mask k)"
  shows "clz_state x (clz_step m k cv)"
proof (cases "snd cv AND m = 0")
  case True
  then have "unat (snd cv) < 2 ^ (LENGTH('a) - k)"
    using and_high_mask_eq_0 [OF assms(2)] assms(3) by simp
  then have "unat (snd cv) * 2 ^ k < 2 ^ (LENGTH('a) - k) * 2 ^ k" by simp
  also have "\<dots> = 2 ^ LENGTH('a)" using assms(2) by (simp add: power_add [symmetric])
  finally have "unat (push_bit k (snd cv)) = unat (snd cv) * 2 ^ k"
    by (simp add: unsigned_push_bit_eq push_bit_eq_mult [of k "unat (snd cv)"] take_bit_eq_mod)
  then show ?thesis using True assms(1) by (simp add: clz_step_def clz_state_def power_add ac_simps)
qed (use assms(1) in \<open>simp add: clz_step_def\<close>)

lemma clz_step_lower:
  fixes x :: "'a::len word"
  assumes "clz_state x cv" and "2 * k \<le> LENGTH('a)" and "m = push_bit (LENGTH('a) - k) (mask k)"
    and "2 ^ (LENGTH('a) - 2 * k) \<le> unat (snd cv)"
  shows "2 ^ (LENGTH('a) - k) \<le> unat (snd (clz_step m k cv))"
proof (cases "snd cv AND m = 0")
  case True
  have st: "clz_state x (clz_step m k cv)" using assms by (intro clz_step_state) simp_all
  have "unat (snd (clz_step m k cv)) = unat (snd cv) * 2 ^ k"
    using st assms(1) True by (simp add: clz_state_def clz_step_def power_add)
  moreover have "2 ^ (LENGTH('a) - k) = (2 :: nat) ^ (LENGTH('a) - 2 * k) * 2 ^ k"
    using assms(2) by (simp add: power_add [symmetric])
  ultimately show ?thesis using assms(4) by simp
next
  case False
  then show ?thesis
    using and_high_mask_eq_0 [of k "snd cv"] assms(2,3) by (simp add: clz_step_def not_less)
qed

lemma clz_final:
  fixes x :: "'a::len word"
  assumes "clz_state x (c, v)" and "2 ^ (LENGTH('a) - 2) \<le> unat v" and "2 \<le> LENGTH('a)"
    and "m = push_bit (LENGTH('a) - 1) 1" and "c' = (if v AND m = 0 then c + 1 else c)"
  shows "c' < LENGTH('a) \<and> bit x (LENGTH('a) - 1 - c') \<and> (\<forall>i. bit x i \<longrightarrow> i \<le> LENGTH('a) - 1 - c')"
proof -
  let ?L = "LENGTH('a)"
  have m: "m = push_bit (?L - 1) (mask 1)" using assms(4) by (simp add: mask_eq_exp_minus_1)
  have st: "unat v = unat x * 2 ^ c" using assms(1) by (simp add: clz_state_def)
  have two: "(2::nat) ^ ?L = 2 * 2 ^ (?L - 1)" "(2::nat) ^ (?L - 1) = 2 * 2 ^ (?L - 2)"
    using assms(3) by (simp_all add: power_Suc [symmetric] Suc_diff_Suc numeral_2_eq_2 del: power_Suc)
  have hi: "v AND m = 0 \<longleftrightarrow> unat v < 2 ^ (?L - 1)" using and_high_mask_eq_0 [of 1 v] m assms(3) by simp
  have range: "2 ^ (?L - 1) \<le> unat x * 2 ^ c'" "unat x * 2 ^ c' < 2 ^ ?L"
    using hi st assms(2,5) two unat_less_exp [of v] by (auto split: if_splits)
  have xpos: "1 \<le> unat x" using range(1) by (cases "unat x") auto
  have c: "c' < ?L"
  proof (rule ccontr)
    assume "\<not> c' < ?L"
    then have "(2::nat) ^ ?L \<le> 2 ^ c'" by simp
    also have "\<dots> \<le> unat x * 2 ^ c'" using xpos by simp
    finally show False using range(2) by simp
  qed
  have "(2::nat) ^ (?L - 1) = 2 ^ (?L - 1 - c') * 2 ^ c'" and "(2::nat) ^ ?L = 2 ^ (?L - c') * 2 ^ c'"
    using c by (simp_all add: power_add [symmetric])
  with range have b: "2 ^ (?L - 1 - c') \<le> unat x" "unat x < 2 ^ Suc (?L - 1 - c')"
    using c by (simp_all add: Suc_diff_Suc)
  have "bit (unat x) (?L - 1 - c')"
    using b by (simp add: bit_iff_odd div_nat_eqI [of _ 1])
  moreover have "i \<le> ?L - 1 - c'" if "bit (unat x) i" for i
  proof (rule ccontr)
    assume "\<not> i \<le> ?L - 1 - c'"
    then have "(2::nat) ^ Suc (?L - 1 - c') \<le> 2 ^ i" by (intro power_increasing) simp_all
    with b(2) have "unat x < 2 ^ i" by linarith
    then show False using that by (simp add: bit_iff_odd)
  qed
  ultimately show ?thesis using c by (simp add: word_bit_iff_unat bit_iff_odd)
qed

lemma clz32_search:
  fixes x :: u32
  assumes "x \<noteq> 0"
  defines "s \<equiv> clz_step 0xc0000000 2 (clz_step 0xf0000000 4 (clz_step 0xff000000 8 (clz_step 0xffff0000 16 (0, x))))"
  shows "clz_state x s \<and> 2 ^ 30 \<le> unat (snd s)"
proof -
  have m: "(0xffff0000 :: u32) = push_bit (LENGTH(32) - 16) (mask 16)" "(0xff000000 :: u32) = push_bit (LENGTH(32) - 8) (mask 8)"
    "(0xf0000000 :: u32) = push_bit (LENGTH(32) - 4) (mask 4)" "(0xc0000000 :: u32) = push_bit (LENGTH(32) - 2) (mask 2)"
    by (simp_all add: mask_eq_exp_minus_1)
  have "1 \<le> unat x" using assms(1) by (simp add: Suc_le_eq unat_gt_0)
  then have s0: "clz_state x (0, x)" "2 ^ (LENGTH(32) - 2 * 16) \<le> unat (snd (0 :: nat, x))" by (simp_all add: clz_state_def)
  define s1 where "s1 = clz_step 0xffff0000 16 (0, x)"
  have s1: "clz_state x s1" "2 ^ (LENGTH(32) - 2 * 8) \<le> unat (snd s1)"
    using clz_step_state [OF s0(1) _ m(1)] clz_step_lower [OF s0(1) _ m(1) s0(2)] by (simp_all add: s1_def)
  define s2 where "s2 = clz_step 0xff000000 8 s1"
  have s2: "clz_state x s2" "2 ^ (LENGTH(32) - 2 * 4) \<le> unat (snd s2)"
    using clz_step_state [OF s1(1) _ m(2)] clz_step_lower [OF s1(1) _ m(2) s1(2)] by (simp_all add: s2_def)
  define s3 where "s3 = clz_step 0xf0000000 4 s2"
  have s3: "clz_state x s3" "2 ^ (LENGTH(32) - 2 * 2) \<le> unat (snd s3)"
    using clz_step_state [OF s2(1) _ m(3)] clz_step_lower [OF s2(1) _ m(3) s2(2)] by (simp_all add: s3_def)
  have "s = clz_step 0xc0000000 2 s3" by (simp add: s_def s1_def s2_def s3_def)
  then show ?thesis
    using clz_step_state [OF s3(1) _ m(4)] clz_step_lower [OF s3(1) _ m(4) s3(2)] by simp
qed

lemma clz64_search:
  fixes x :: u64
  assumes "x \<noteq> 0"
  defines "s \<equiv> clz_step 0xc000000000000000 2 (clz_step 0xf000000000000000 4 (clz_step 0xff00000000000000 8
              (clz_step 0xffff000000000000 16 (clz_step 0xffffffff00000000 32 (0, x)))))"
  shows "clz_state x s \<and> 2 ^ 62 \<le> unat (snd s)"
proof -
  have m: "(0xffffffff00000000 :: u64) = push_bit (LENGTH(64) - 32) (mask 32)"
    "(0xffff000000000000 :: u64) = push_bit (LENGTH(64) - 16) (mask 16)" "(0xff00000000000000 :: u64) = push_bit (LENGTH(64) - 8) (mask 8)"
    "(0xf000000000000000 :: u64) = push_bit (LENGTH(64) - 4) (mask 4)" "(0xc000000000000000 :: u64) = push_bit (LENGTH(64) - 2) (mask 2)"
    by (simp_all add: mask_eq_exp_minus_1)
  have "1 \<le> unat x" using assms(1) by (simp add: Suc_le_eq unat_gt_0)
  then have s0: "clz_state x (0, x)" "2 ^ (LENGTH(64) - 2 * 32) \<le> unat (snd (0 :: nat, x))" by (simp_all add: clz_state_def)
  define s1 where "s1 = clz_step 0xffffffff00000000 32 (0, x)"
  have s1: "clz_state x s1" "2 ^ (LENGTH(64) - 2 * 16) \<le> unat (snd s1)"
    using clz_step_state [OF s0(1) _ m(1)] clz_step_lower [OF s0(1) _ m(1) s0(2)] by (simp_all add: s1_def)
  define s2 where "s2 = clz_step 0xffff000000000000 16 s1"
  have s2: "clz_state x s2" "2 ^ (LENGTH(64) - 2 * 8) \<le> unat (snd s2)"
    using clz_step_state [OF s1(1) _ m(2)] clz_step_lower [OF s1(1) _ m(2) s1(2)] by (simp_all add: s2_def)
  define s3 where "s3 = clz_step 0xff00000000000000 8 s2"
  have s3: "clz_state x s3" "2 ^ (LENGTH(64) - 2 * 4) \<le> unat (snd s3)"
    using clz_step_state [OF s2(1) _ m(3)] clz_step_lower [OF s2(1) _ m(3) s2(2)] by (simp_all add: s3_def)
  define s4 where "s4 = clz_step 0xf000000000000000 4 s3"
  have s4: "clz_state x s4" "2 ^ (LENGTH(64) - 2 * 2) \<le> unat (snd s4)"
    using clz_step_state [OF s3(1) _ m(4)] clz_step_lower [OF s3(1) _ m(4) s3(2)] by (simp_all add: s4_def)
  have "s = clz_step 0xc000000000000000 2 s4" by (simp add: s_def s1_def s2_def s3_def s4_def)
  then show ?thesis
    using clz_step_state [OF s4(1) _ m(5)] clz_step_lower [OF s4(1) _ m(5) s4(2)] by simp
qed

text \<open>The position of the highest bit that is set.\<close>

definition highest_bit :: "'a::len word \<Rightarrow> nat \<Rightarrow> bool" where
  "highest_bit x n \<longleftrightarrow> bit x n \<and> (\<forall>i. bit x i \<longrightarrow> i \<le> n)"

definition lowest_bit :: "'a::len word \<Rightarrow> nat \<Rightarrow> bool" where
  "lowest_bit x n \<longleftrightarrow> bit x n \<and> (\<forall>i. bit x i \<longrightarrow> n \<le> i)"

lemma clz32_correct: "x \<noteq> 0 \<Longrightarrow> unat (turbowasm_clz32 x) < 32 \<and> highest_bit x (31 - unat (turbowasm_clz32 x))"
proof -
  assume x: "x \<noteq> 0"
  obtain c v where s: "clz_step 0xc0000000 2 (clz_step 0xf0000000 4 (clz_step 0xff000000 8 (clz_step 0xffff0000 16 (0, x)))) = (c, v)"
    by fastforce
  define c' where "c' = (if v AND 0x80000000 = 0 then c + 1 else c)"
  have "turbowasm_clz32 x = of_nat c'" using x s by (simp add: turbowasm_clz32_def c'_def)
  moreover have "c' < 32 \<and> bit x (31 - c') \<and> (\<forall>i. bit x i \<longrightarrow> i \<le> 31 - c')"
    using clz_final [of x c v "0x80000000" c'] clz32_search [OF x] s by (simp add: c'_def)
  ultimately show ?thesis by (simp add: unat_of_nat highest_bit_def)
qed

lemma clz64_correct: "x \<noteq> 0 \<Longrightarrow> unat (turbowasm_clz64 x) < 64 \<and> highest_bit x (63 - unat (turbowasm_clz64 x))"
proof -
  assume x: "x \<noteq> 0"
  obtain c v where s: "clz_step 0xc000000000000000 2 (clz_step 0xf000000000000000 4 (clz_step 0xff00000000000000 8
              (clz_step 0xffff000000000000 16 (clz_step 0xffffffff00000000 32 (0, x))))) = (c, v)"
    by fastforce
  define c' where "c' = (if v AND 0x8000000000000000 = 0 then c + 1 else c)"
  have "turbowasm_clz64 x = of_nat c'" using x s by (simp add: turbowasm_clz64_def c'_def)
  moreover have "c' < 64 \<and> bit x (63 - c') \<and> (\<forall>i. bit x i \<longrightarrow> i \<le> 63 - c')"
    using clz_final [of x c v "0x8000000000000000" c'] clz64_search [OF x] s by (simp add: c'_def)
  ultimately show ?thesis by (simp add: unat_of_nat highest_bit_def)
qed

text \<open>The state of a search for trailing zeros: the operand is the value shifted left by the count.\<close>

definition ctz_state :: "'a::len word \<Rightarrow> nat \<times> 'a word \<Rightarrow> bool" where
  "ctz_state x cv \<longleftrightarrow> unat x = unat (snd cv) * 2 ^ fst cv"

lemma and_mask_eq_0:
  fixes v :: "'a::len word"
  shows "v AND mask k = 0 \<longleftrightarrow> unat v mod 2 ^ k = 0"
proof -
  have "unat (v AND mask k) = unat v mod 2 ^ k"
    by (simp only: take_bit_eq_mask [symmetric] unsigned_take_bit_eq) (simp add: take_bit_eq_mod)
  moreover have "v AND mask k = 0 \<longleftrightarrow> unat (v AND mask k) = 0" by (simp only: unat_eq_0)
  ultimately show ?thesis by simp
qed

lemma ctz_step_state:
  fixes x :: "'a::len word"
  assumes "ctz_state x cv" and "m = mask k"
  shows "ctz_state x (ctz_step m k cv)"
proof (cases "snd cv AND m = 0")
  case True
  then have "unat (snd cv) = unat (drop_bit k (snd cv)) * 2 ^ k"
    using and_mask_eq_0 [of "snd cv" k] assms(2) div_mult_mod_eq [of "unat (snd cv)" "2 ^ k"]
    by (simp add: unat_drop_bit_eq drop_bit_eq_div [of k "unat (snd cv)"])
  then show ?thesis using True assms(1) by (simp add: ctz_step_def ctz_state_def power_add)
qed (use assms(1) in \<open>simp add: ctz_step_def\<close>)

text \<open>Some bit below position \<open>k\<close> is set.\<close>

lemma ctz_step_low:
  fixes x :: "'a::len word"
  assumes "m = mask k" and "unat (snd cv) mod 2 ^ (2 * k) \<noteq> 0"
  shows "unat (snd (ctz_step m k cv)) mod 2 ^ k \<noteq> 0"
proof (cases "snd cv AND m = 0")
  case True
  then have z: "unat (snd cv) mod 2 ^ k = 0" using and_mask_eq_0 [of "snd cv" k] assms(1) by simp
  have "unat (snd cv) mod (2 ^ k * 2 ^ k) = 2 ^ k * (unat (snd cv) div 2 ^ k mod 2 ^ k) + unat (snd cv) mod 2 ^ k"
    by (rule mod_mult2_eq)
  then have "unat (snd cv) div 2 ^ k mod 2 ^ k \<noteq> 0"
    using assms(2) z by (auto simp: mult_2 power_add)
  then show ?thesis
    using True by (simp add: ctz_step_def unat_drop_bit_eq drop_bit_eq_div [of k "unat (snd cv)"])
next
  case False
  then show ?thesis using and_mask_eq_0 [of "snd cv" k] assms(1) by (simp add: ctz_step_def)
qed

lemma ctz_final:
  fixes x :: "'a::len word"
  assumes "ctz_state x (c, v)" and "unat v mod 2 ^ 2 \<noteq> 0" and "c' = (if v AND 1 = 0 then c + 1 else c)"
  shows "lowest_bit x c'"
proof -
  have st: "unat x = unat v * 2 ^ c" using assms(1) by (simp add: ctz_state_def)
  have even: "v AND 1 = 0 \<longleftrightarrow> even (unat v)"
    using and_mask_eq_0 [of v 1] by (simp add: mask_eq_exp_minus_1 even_iff_mod_2_eq_zero)
  obtain w where w: "unat x = w * 2 ^ c'" "odd w"
  proof (cases "v AND 1 = 0")
    case True
    then obtain w where "unat v = 2 * w" using even by (auto elim: evenE)
    moreover have "odd w" using assms(2) calculation by (auto elim!: evenE)
    ultimately show thesis using that [of w] st True assms(3) by simp
  next
    case False
    then show thesis using that [of "unat v"] st even assms(3) by simp
  qed
  have "bit (unat x) c'" using w by (simp add: bit_iff_odd)
  moreover have "c' \<le> i" if "bit (unat x) i" for i
  proof (rule ccontr)
    assume "\<not> c' \<le> i"
    then have "(2::nat) ^ c' = 2 ^ Suc i * 2 ^ (c' - Suc i)" by (simp add: power_add [symmetric] del: power_Suc)
    then have "unat x div 2 ^ i = w * 2 ^ (c' - Suc i) * 2" using w(1) by simp
    then show False using that by (simp add: bit_iff_odd)
  qed
  ultimately show ?thesis by (simp add: lowest_bit_def word_bit_iff_unat bit_iff_odd)
qed

lemma lowest_bit_less:
  fixes x :: "'a::len word"
  shows "lowest_bit x n \<Longrightarrow> n < LENGTH('a)"
  by (auto simp: lowest_bit_def dest: bit_imp_le_length)

lemma ctz32_correct:
  assumes x: "x \<noteq> 0"
  shows "lowest_bit x (unat (turbowasm_ctz32 x))"
proof -
  have m: "(0xffff :: u32) = mask 16" "(0xff :: u32) = mask 8" "(0xf :: u32) = mask 4" "(0x3 :: u32) = mask 2"
    by (simp_all add: mask_eq_exp_minus_1)
  define s1 where "s1 = ctz_step 0xffff 16 (0, x)"
  define s2 where "s2 = ctz_step 0xff 8 s1"
  define s3 where "s3 = ctz_step 0xf 4 s2"
  obtain c v where s: "ctz_step 0x3 2 s3 = (c, v)" by fastforce
  have "unat x mod 2 ^ (2 * 16) = unat x" using unat_less_exp [of x] by simp
  then have s0: "unat (snd (0::nat, x)) mod 2 ^ (2 * 16) \<noteq> 0" using x by (simp add: unat_eq_0)
  have st: "ctz_state x (c, v)"
    unfolding s [symmetric] s3_def s2_def s1_def
    by (intro ctz_step_state m) (simp add: ctz_state_def)
  have "unat (snd s1) mod 2 ^ (2 * 8) \<noteq> 0" using ctz_step_low [OF m(1) s0] by (simp add: s1_def)
  then have "unat (snd s2) mod 2 ^ (2 * 4) \<noteq> 0" using ctz_step_low [OF m(2)] by (simp add: s2_def)
  then have "unat (snd s3) mod 2 ^ (2 * 2) \<noteq> 0" using ctz_step_low [OF m(3)] by (simp add: s3_def)
  then have low: "unat v mod 2 ^ 2 \<noteq> 0" using ctz_step_low [OF m(4)] s by fastforce
  define c' where "c' = (if v AND 1 = 0 then c + 1 else c)"
  have l: "lowest_bit x c'" by (rule ctz_final [OF st low c'_def])
  have "turbowasm_ctz32 x = of_nat c'" using x s by (simp add: turbowasm_ctz32_def c'_def s1_def s2_def s3_def)
  then show ?thesis using l lowest_bit_less [OF l] by (simp add: unat_of_nat)
qed

lemma ctz64_correct:
  assumes x: "x \<noteq> 0"
  shows "lowest_bit x (unat (turbowasm_ctz64 x))"
proof -
  have m: "(0xffffffff :: u64) = mask 32" "(0xffff :: u64) = mask 16" "(0xff :: u64) = mask 8" "(0xf :: u64) = mask 4"
    "(0x3 :: u64) = mask 2"
    by (simp_all add: mask_eq_exp_minus_1)
  define s0 where "s0 = ctz_step 0xffffffff 32 (0, x)"
  define s1 where "s1 = ctz_step 0xffff 16 s0"
  define s2 where "s2 = ctz_step 0xff 8 s1"
  define s3 where "s3 = ctz_step 0xf 4 s2"
  obtain c v where s: "ctz_step 0x3 2 s3 = (c, v)" by fastforce
  have "unat x mod 2 ^ (2 * 32) = unat x" using unat_less_exp [of x] by simp
  then have sx: "unat (snd (0::nat, x)) mod 2 ^ (2 * 32) \<noteq> 0" using x by (simp add: unat_eq_0)
  have st: "ctz_state x (c, v)"
    unfolding s [symmetric] s3_def s2_def s1_def s0_def
    by (intro ctz_step_state m) (simp add: ctz_state_def)
  have "unat (snd s0) mod 2 ^ (2 * 16) \<noteq> 0" using ctz_step_low [OF m(1) sx] by (simp add: s0_def)
  then have "unat (snd s1) mod 2 ^ (2 * 8) \<noteq> 0" using ctz_step_low [OF m(2)] by (simp add: s1_def)
  then have "unat (snd s2) mod 2 ^ (2 * 4) \<noteq> 0" using ctz_step_low [OF m(3)] by (simp add: s2_def)
  then have "unat (snd s3) mod 2 ^ (2 * 2) \<noteq> 0" using ctz_step_low [OF m(4)] by (simp add: s3_def)
  then have low: "unat v mod 2 ^ 2 \<noteq> 0" using ctz_step_low [OF m(5)] s by fastforce
  define c' where "c' = (if v AND 1 = 0 then c + 1 else c)"
  have l: "lowest_bit x c'" by (rule ctz_final [OF st low c'_def])
  have "turbowasm_ctz64 x = of_nat c'" using x s by (simp add: turbowasm_ctz64_def c'_def s0_def s1_def s2_def s3_def)
  then show ?thesis using l lowest_bit_less [OF l] by (simp add: unat_of_nat)
qed

subsection \<open>Counting ones\<close>

text \<open>A number as its bytes, least significant first.\<close>

fun lanes :: "nat list \<Rightarrow> nat" where
  "lanes [] = 0"
| "lanes (b # bs) = b + 256 * lanes bs"

fun bytes_of :: "nat \<Rightarrow> nat \<Rightarrow> nat list" where
  "bytes_of 0 n = []"
| "bytes_of (Suc k) n = n mod 256 # bytes_of k (n div 256)"

lemma lanes_bytes_of: "n < 256 ^ k \<Longrightarrow> lanes (bytes_of k n) = n"
  by (induction k arbitrary: n) (simp_all add: less_mult_imp_div_less)

lemma bytes_of_bound: "\<forall>b \<in> set (bytes_of k n). b < 256"
  by (induction k arbitrary: n) simp_all

lemma length_bytes_of [simp]: "length (bytes_of k n) = k"
  by (induction k arbitrary: n) simp_all

lemma lanes_less: "\<forall>b \<in> set bs. b < 256 \<Longrightarrow> lanes bs < 256 ^ length bs"
proof (induction bs)
  case (Cons b bs)
  then have "Suc (lanes bs) * 256 \<le> 256 ^ length bs * 256" by (intro mult_right_mono) simp_all
  with Cons.prems show ?case by simp
qed simp

lemma nat_and_le: "(a::nat) AND b \<le> a"
proof -
  have "int (a AND b) \<le> int a" by (simp add: of_nat_and_eq)
  then show ?thesis by simp
qed

lemma and_lane:
  fixes lo m hi M :: nat
  assumes "lo < 256" and "m < 256"
  shows "(lo + 256 * hi) AND (m + 256 * M) = (lo AND m) + 256 * (hi AND M)"
proof -
  have s: "a + 256 * b = a OR push_bit 8 b" if "a < 256" for a b :: nat
    using nat_or_push_bit [of a 8 b] that by simp
  have am: "lo AND m < 256" using assms(1) nat_and_le [of lo m] by simp
  have hb: "\<not> bit a n" if "a < 256" "8 \<le> n" for a n :: nat
  proof -
    have "(256::nat) \<le> 2 ^ n" using that(2) power_increasing [of 8 n "2::nat"] by simp
    with that(1) have "a < 2 ^ n" by linarith
    then show ?thesis by (simp add: bit_iff_odd)
  qed
  show ?thesis
    unfolding s [OF assms(1)] s [OF assms(2)] s [OF am]
    using hb [OF assms(1)] hb [OF assms(2)]
    by (intro bit_eqI) (auto simp: bit_and_iff bit_or_iff bit_push_bit_iff)
qed

lemma and_drop_high:
  fixes a t m :: nat
  assumes "a < 2 ^ s" and "m < 2 ^ s"
  shows "(a + 2 ^ s * t) AND m = a AND m"
proof -
  have "\<not> bit m n" if "s \<le> n" for n
  proof -
    have "(2::nat) ^ s \<le> 2 ^ n" using that by (rule power_increasing) simp
    with assms(2) have "m < 2 ^ n" by linarith
    then show ?thesis by (simp add: bit_iff_odd)
  qed
  then show ?thesis
    unfolding nat_or_push_bit [OF assms(1), symmetric]
    by (intro bit_eqI) (auto simp: bit_and_iff bit_or_iff bit_push_bit_iff)
qed

lemma div_lane:
  fixes b L :: nat
  assumes "s \<le> 8"
  shows "(b + 256 * L) div 2 ^ s = (b div 2 ^ s + 2 ^ (8 - s) * (L mod 2 ^ s)) + 256 * (L div 2 ^ s)"
proof -
  have e: "(256::nat) = 2 ^ s * 2 ^ (8 - s)" using assms by (simp add: power_add [symmetric])
  have "b + 256 * L = b + 2 ^ s * (2 ^ (8 - s) * L)" using e by simp
  then have "(b + 256 * L) div 2 ^ s = b div 2 ^ s + 2 ^ (8 - s) * L"
    by (simp only:) (simp add: div_mult_self2)
  also have "2 ^ (8 - s) * L = 2 ^ (8 - s) * (2 ^ s * (L div 2 ^ s) + L mod 2 ^ s)" by simp
  also have "\<dots> = 2 ^ (8 - s) * (L mod 2 ^ s) + 256 * (L div 2 ^ s)"
    unfolding e distrib_left by (simp only: ac_simps)
  finally show ?thesis by simp
qed

lemma lanes_and:
  "\<forall>b \<in> set bs. b < 256 \<Longrightarrow> m < 256 \<Longrightarrow>
     lanes bs AND lanes (replicate (length bs) m) = lanes (map (\<lambda>b. b AND m) bs)"
  by (induction bs) (simp_all add: and_lane)

lemma lanes_shift_and:
  "s \<le> 8 \<Longrightarrow> m < 2 ^ (8 - s) \<Longrightarrow> \<forall>b \<in> set bs. b < 256 \<Longrightarrow>
     (lanes bs div 2 ^ s) AND lanes (replicate (length bs) m) = lanes (map (\<lambda>b. (b div 2 ^ s) AND m) bs)"
proof (induction bs)
  case (Cons b bs)
  have e: "(256::nat) = 2 ^ s * 2 ^ (8 - s)" using Cons.prems(1) by (simp add: power_add [symmetric])
  have bd: "b div 2 ^ s < 2 ^ (8 - s)"
    using Cons.prems(3) by (intro less_mult_imp_div_less) (simp add: e [symmetric] mult.commute)
  have "L mod 2 ^ s + 1 \<le> 2 ^ s" for L :: nat by (simp add: Suc_le_eq)
  then have "2 ^ (8 - s) * (lanes bs mod 2 ^ s + 1) \<le> 2 ^ (8 - s) * 2 ^ s" by (rule mult_le_mono2)
  then have lo: "b div 2 ^ s + 2 ^ (8 - s) * (lanes bs mod 2 ^ s) < 256"
    using bd by (simp add: e algebra_simps)
  have m: "m < 256" using Cons.prems(2) power_increasing [of "8 - s" 8 "2::nat"] by simp
  have "lanes (b # bs) div 2 ^ s AND lanes (replicate (length (b # bs)) m) =
      ((b div 2 ^ s + 2 ^ (8 - s) * (lanes bs mod 2 ^ s)) AND m) +
      256 * ((lanes bs div 2 ^ s) AND lanes (replicate (length bs) m))"
    unfolding lanes.simps div_lane [OF Cons.prems(1)] length_Cons replicate_Suc by (rule and_lane [OF lo m])
  also have "(b div 2 ^ s + 2 ^ (8 - s) * (lanes bs mod 2 ^ s)) AND m = (b div 2 ^ s) AND m"
    by (rule and_drop_high [OF bd Cons.prems(2)])
  finally show ?case using Cons by simp
qed simp

lemma lanes_add: "lanes (map f bs) + lanes (map g bs) = lanes (map (\<lambda>b. f b + g b) bs)"
  by (induction bs) simp_all

lemma lanes_mono: "\<forall>b \<in> set bs. f b \<le> g b \<Longrightarrow> lanes (map f bs) \<le> lanes (map g bs)"
  by (induction bs) (simp_all add: add_mono)

lemma lanes_sub:
  assumes "\<forall>b \<in> set bs. g b \<le> f b"
  shows "lanes (map f bs) - lanes (map g bs) = lanes (map (\<lambda>b. f b - g b) bs)"
proof -
  have "lanes (map g bs) + lanes (map (\<lambda>b. f b - g b) bs) = lanes (map f bs)"
    using assms by (induction bs) simp_all
  then show ?thesis by simp
qed

text \<open>The sum of the two halves of every byte.\<close>

lemma lanes_fold_nibbles:
  assumes "\<forall>b \<in> set bs. b div 16 \<le> 4 \<and> b mod 16 \<le> 4"
  shows "(lanes bs + lanes bs div 2 ^ 4) AND lanes (replicate (length bs) 15) = lanes (map (\<lambda>b. b div 16 + b mod 16) bs)"
  using assms
proof (induction bs)
  case (Cons b bs)
  define L where "L = lanes bs"
  have L: "L mod 16 \<le> 4"
  proof (cases bs)
    case (Cons b' bs')
    then have "L mod 16 = (b' + 16 * (16 * lanes bs')) mod 16" by (simp add: L_def)
    then show ?thesis using Cons Cons.prems by (simp only: mod_mult_self2) simp
  qed (simp add: L_def)
  have b: "b div 16 \<le> 4" "b mod 16 \<le> 4" "b = 16 * (b div 16) + b mod 16" using Cons.prems by simp_all
  have sum: "lanes (b # bs) + lanes (b # bs) div 2 ^ 4 = (b + b div 16 + 16 * (L mod 16)) + 256 * (L + L div 2 ^ 4)"
    unfolding lanes.simps L_def [symmetric] using div_lane [of 4 b L] by simp
  have lo: "b + b div 16 + 16 * (L mod 16) < 256" using b L by linarith
  have "(lanes (b # bs) + lanes (b # bs) div 2 ^ 4) AND lanes (replicate (length (b # bs)) 15) =
      ((b + b div 16 + 16 * (L mod 16)) AND 15) + 256 * ((L + L div 2 ^ 4) AND lanes (replicate (length bs) 15))"
    unfolding sum length_Cons replicate_Suc lanes.simps(2) [of 15] by (rule and_lane [OF lo]) simp
  also have "(b + b div 16 + 16 * (L mod 16)) AND 15 = b div 16 + b mod 16"
  proof -
    have "b + b div 16 + 16 * (L mod 16) = (b div 16 + b mod 16) + 16 * (b div 16 + L mod 16)" using b(3) by simp
    moreover have "n AND 15 = n mod 16" for n :: nat
      using take_bit_eq_mask [of 4 n] by (simp add: take_bit_eq_mod mask_eq_exp_minus_1)
    ultimately have "(b + b div 16 + 16 * (L mod 16)) AND 15 = (b div 16 + b mod 16) mod 16"
      by (simp only: mod_mult_self2)
    then show ?thesis using b by simp
  qed
  finally show ?case using Cons by (simp add: L_def)
qed simp

definition pop8 :: "nat \<Rightarrow> nat" where
  "pop8 b = length (filter (bit b) [0..<8])"

text \<open>The three folding steps on one byte.\<close>

definition byte1 :: "nat \<Rightarrow> nat" where "byte1 b = b - ((b div 2) AND 0x55)"
definition byte2 :: "nat \<Rightarrow> nat" where "byte2 b = (b AND 0x33) + ((b div 4) AND 0x33)"


definition fold_byte1 :: "int \<Rightarrow> int" where
  "fold_byte1 b = b - ((b div 2) AND 0x55)"

definition fold_byte2 :: "int \<Rightarrow> int" where
  "fold_byte2 b = (b AND 0x33) + ((b div 4) AND 0x33)"

definition fold_ok :: "int \<Rightarrow> bool" where
  "fold_ok b = (let x = fold_byte1 b; y = fold_byte2 x in
     (b div 2) AND 0x55 \<le> b \<and> x < 256 \<and> y < 256 \<and> y div 16 \<le> 4 \<and> y mod 16 \<le> 4 \<and>
     y div 16 + y mod 16 = b mod 2 + b div 2 mod 2 + b div 4 mod 2 + b div 8 mod 2 + b div 16 mod 2 +
       b div 32 mod 2 + b div 64 mod 2 + b div 128 mod 2)"

lemma fold_ok_all: "list_all fold_ok [0..255]"
  by code_simp

lemma upt8: "[0..<8] = [0, 1, 2, 3, 4, 5, 6, 7::nat]"
  by code_simp
lemma pop8_sum: "pop8 b = b mod 2 + b div 2 mod 2 + b div 4 mod 2 + b div 8 mod 2 + b div 16 mod 2 +
    b div 32 mod 2 + b div 64 mod 2 + b div 128 mod 2"
proof -
  have f: "length (filter (bit b) (i # is)) = b div 2 ^ i mod 2 + length (filter (bit b) is)" for i "is"
    by (simp add: bit_iff_odd odd_iff_mod_2_eq_one)
  show ?thesis by (simp only: pop8_def upt8 f) simp
qed

lemma byte_steps:
  assumes "b < 256"
  shows "(b div 2) AND 0x55 \<le> b" "byte1 b < 256" "byte2 (byte1 b) < 256"
    "byte2 (byte1 b) div 16 \<le> 4" "byte2 (byte1 b) mod 16 \<le> 4"
    "byte2 (byte1 b) div 16 + byte2 (byte1 b) mod 16 = pop8 b"
proof -
  have ok: "fold_ok (int b)" using fold_ok_all assms by (simp add: list_all_iff)
  have h: "int ((b div 2) AND 0x55) = (int b div 2) AND 0x55" by (simp add: of_nat_and_eq of_nat_div)
  show le: "(b div 2) AND 0x55 \<le> b"
    by (rule order_trans [OF nat_and_le]) simp
  have b1: "int (byte1 b) = fold_byte1 (int b)" using le h by (simp add: byte1_def fold_byte1_def)
  have b2: "int (byte2 n) = fold_byte2 (int n)" for n
    by (simp add: byte2_def fold_byte2_def of_nat_and_eq of_nat_div)
  have p: "int (pop8 b) = int b mod 2 + int b div 2 mod 2 + int b div 4 mod 2 + int b div 8 mod 2 + int b div 16 mod 2 +
    int b div 32 mod 2 + int b div 64 mod 2 + int b div 128 mod 2"
    by (simp add: pop8_sum of_nat_mod of_nat_div)
  note ok = ok [unfolded fold_ok_def Let_def b1 [symmetric] b2 [symmetric]]
  have "int (byte1 b) < int 256 \<and> int (byte2 (byte1 b)) < int 256 \<and> int (byte2 (byte1 b) div 16) \<le> int 4 \<and>
      int (byte2 (byte1 b) mod 16) \<le> int 4 \<and> int (byte2 (byte1 b) div 16 + byte2 (byte1 b) mod 16) = int (pop8 b)"
    unfolding of_nat_add of_nat_div of_nat_mod p of_nat_numeral using ok by blast
  then have final: "byte1 b < 256 \<and> byte2 (byte1 b) < 256 \<and> byte2 (byte1 b) div 16 \<le> 4 \<and>
      byte2 (byte1 b) mod 16 \<le> 4 \<and> byte2 (byte1 b) div 16 + byte2 (byte1 b) mod 16 = pop8 b"
    unfolding of_nat_less_iff of_nat_le_iff of_nat_eq_iff .
  then show "byte1 b < 256" "byte2 (byte1 b) < 256" "byte2 (byte1 b) div 16 \<le> 4" "byte2 (byte1 b) mod 16 \<le> 4"
    "byte2 (byte1 b) div 16 + byte2 (byte1 b) mod 16 = pop8 b"
    by blast+
qed

lemma lanes_popcount:
  fixes bs :: "nat list"
  defines "m \<equiv> \<lambda>k. lanes (replicate (length bs) k)"
  defines "v1 \<equiv> lanes bs - ((lanes bs div 2 ^ 1) AND m 0x55)"
  defines "v2 \<equiv> (v1 AND m 0x33) + ((v1 div 2 ^ 2) AND m 0x33)"
  assumes b: "\<forall>b \<in> set bs. b < 256"
  shows "(lanes bs div 2 ^ 1) AND m 0x55 \<le> lanes bs" "v2 < 256 ^ length bs"
    "v2 + v2 div 2 ^ 4 < 256 ^ length bs" "(v2 + v2 div 2 ^ 4) AND m 0x0f = lanes (map pop8 bs)"
proof -
  have s1: "(lanes bs div 2 ^ 1) AND m 0x55 = lanes (map (\<lambda>b. (b div 2) AND 0x55) bs)"
    unfolding m_def using lanes_shift_and [of 1 "0x55" bs] b by simp
  show "(lanes bs div 2 ^ 1) AND m 0x55 \<le> lanes bs"
    unfolding s1 using lanes_mono [of bs "\<lambda>b. (b div 2) AND 0x55" "\<lambda>b. b"] b byte_steps(1) by simp
  have v1: "v1 = lanes (map byte1 bs)"
    unfolding v1_def s1 byte1_def using lanes_sub [of bs "\<lambda>b. (b div 2) AND 0x55" "\<lambda>b. b"] b byte_steps(1) by simp
  have b1: "\<forall>b \<in> set (map byte1 bs). b < 256" using b byte_steps(2) by simp
  have "v1 AND m 0x33 = lanes (map (\<lambda>b. byte1 b AND 0x33) bs)"
    unfolding v1 m_def using lanes_and [OF b1, of "0x33"] by (simp add: comp_def)
  moreover have "(v1 div 2 ^ 2) AND m 0x33 = lanes (map (\<lambda>b. (byte1 b div 4) AND 0x33) bs)"
    unfolding v1 m_def using lanes_shift_and [of 2 "0x33", OF _ _ b1] by (simp add: comp_def)
  ultimately have v2: "v2 = lanes (map (\<lambda>b. byte2 (byte1 b)) bs)"
    unfolding v2_def byte2_def by (simp add: lanes_add)
  show "v2 < 256 ^ length bs"
    unfolding v2 using lanes_less [of "map (\<lambda>b. byte2 (byte1 b)) bs"] b byte_steps(3) by simp
  have small: "byte2 (byte1 b) \<le> 68" if "b < 256" for b
    using byte_steps(4,5) [OF that] by presburger
  have "v2 \<le> lanes (map (\<lambda>_. 68) bs)" unfolding v2 using b small by (intro lanes_mono) simp
  moreover have "v2 div 2 ^ 4 \<le> v2" by simp
  moreover have "lanes (map (\<lambda>_. 68) bs) + lanes (map (\<lambda>_. 68) bs) < 256 ^ length bs"
    unfolding lanes_add using lanes_less [of "map (\<lambda>_. 136) bs"] by simp
  ultimately show "v2 + v2 div 2 ^ 4 < 256 ^ length bs" by linarith
  show "(v2 + v2 div 2 ^ 4) AND m 0x0f = lanes (map pop8 bs)"
    unfolding v2 m_def
    using lanes_fold_nibbles [of "map (\<lambda>b. byte2 (byte1 b)) bs"] b byte_steps(4,5,6)
    by (simp add: comp_def cong: map_cong)
qed

lemma pop8_le: "pop8 b \<le> 8"
  using length_filter_le [of "bit b" "[0..<8]"] by (simp add: pop8_def)

lemma lanes_total4:
  assumes "a \<le> 8" "b \<le> 8" "c \<le> 8" "d \<le> 8"
  shows "lanes [a, b, c, d] * 0x01010101 mod 2 ^ 32 div 2 ^ 24 = a + b + c + d"
proof -
  have "lanes [a, b, c, d] * 0x01010101 =
      (a + 256 * (a + b) + 65536 * (a + b + c) + 16777216 * (a + b + c + d)) +
      2 ^ 32 * ((b + c + d) + 256 * (c + d) + 65536 * d)"
    by simp
  then have "lanes [a, b, c, d] * 0x01010101 mod 2 ^ 32 =
      a + 256 * (a + b) + 65536 * (a + b + c) + 16777216 * (a + b + c + d)"
    using assms by (simp only: mod_mult_self2) simp
  then show ?thesis using assms by simp
qed

lemma lanes_total8:
  assumes "a \<le> 8" "b \<le> 8" "c \<le> 8" "d \<le> 8" "e \<le> 8" "f \<le> 8" "g \<le> 8" "h \<le> 8"
  shows "lanes [a, b, c, d, e, f, g, h] * 0x0101010101010101 mod 2 ^ 64 div 2 ^ 56 = a + b + c + d + e + f + g + h"
proof -
  define low where "low = a + 256 * (a + b) + 65536 * (a + b + c) + 2 ^ 24 * (a + b + c + d) +
    2 ^ 32 * (a + b + c + d + e) + 2 ^ 40 * (a + b + c + d + e + f) + 2 ^ 48 * (a + b + c + d + e + f + g)"
  define high where "high = (b + c + d + e + f + g + h) + 256 * (c + d + e + f + g + h) +
    65536 * (d + e + f + g + h) + 2 ^ 24 * (e + f + g + h) + 2 ^ 32 * (f + g + h) + 2 ^ 40 * (g + h) + 2 ^ 48 * h"
  define top where "top = a + b + c + d + e + f + g + h"
  have low: "low < 2 ^ 56" and t: "top < 256" using assms by (simp_all add: low_def top_def)
  have "lanes [a, b, c, d, e, f, g, h] * 0x0101010101010101 = (low + 2 ^ 56 * top) + 2 ^ 64 * high"
    by (simp add: low_def high_def top_def)
  then have "lanes [a, b, c, d, e, f, g, h] * 0x0101010101010101 mod 2 ^ 64 = low + 2 ^ 56 * top"
    using low t by (simp only: mod_mult_self2) simp
  then show ?thesis using low by (simp add: top_def)
qed

lemma pop8_bytes:
  "sum_list (map pop8 (bytes_of k n)) = length (filter (bit n) [0..<8 * k])"
proof (induction k arbitrary: n)
  case (Suc k)
  have "[0..<8 * Suc k] = [0..<8] @ map (\<lambda>i. i + 8) [0..<8 * k]"
    using upt_add_eq_append [of 0 8 "8 * k"] by (simp add: map_add_upt add.commute)
  then have "length (filter (bit n) [0..<8 * Suc k]) =
      length (filter (bit n) [0..<8]) + length (filter (\<lambda>i. bit n (i + 8)) [0..<8 * k])"
    by (simp add: filter_map comp_def)
  moreover have "filter (bit n) [0..<8] = filter (bit (n mod 256)) [0..<8]"
  proof (rule filter_cong)
    fix i :: nat assume "i \<in> set [0..<8]"
    then have "bit (take_bit 8 n) i = bit n i" by (simp add: bit_take_bit_iff)
    then show "bit n i = bit (n mod 256) i" by (simp add: take_bit_eq_mod)
  qed simp
  moreover have "bit n (i + 8) = bit (n div 256) i" for i
    using div_mult2_eq [of n 256 "2 ^ i"] by (simp add: bit_iff_odd power_add mult.commute)
  ultimately have "length (filter (bit n) [0..<8 * Suc k]) =
      pop8 (n mod 256) + length (filter (bit (n div 256)) [0..<8 * k])"
    unfolding pop8_def by (simp only:)
  then show ?case by (simp only: Suc.IH [symmetric] bytes_of.simps list.map sum_list.Cons)
qed simp

lemma card_bits:
  fixes x :: "'a::len word"
  shows "length (filter (bit (unat x)) [0..<LENGTH('a)]) = card {i. bit x i}"
proof -
  have "{i. bit x i} = set (filter (bit (unat x)) [0..<LENGTH('a)])"
    using bit_imp_le_length [of x] by (auto simp: bit_unsigned_iff)
  then show ?thesis using distinct_card [of "filter (bit (unat x)) [0..<LENGTH('a)]"] by simp
qed


lemma drop_bit_nat_div: "drop_bit k (n::nat) = n div 2 ^ k"
  by (rule drop_bit_eq_div)

lemma unat_and_nat: "unat (a AND b) = unat a AND unat b"
  by (simp add: unsigned_and_eq)

lemma popcnt_state:
  fixes x v1 v2 m1 m2 m3 :: "'a::len word"
  assumes len: "LENGTH('a) = 8 * n"
    and bs: "bs = bytes_of n (unat x)"
    and m: "unat m1 = lanes (replicate n 0x55)" "unat m2 = lanes (replicate n 0x33)" "unat m3 = lanes (replicate n 0x0f)"
    and v1: "v1 = x - (drop_bit 1 x AND m1)"
    and v2: "v2 = (v1 AND m2) + (drop_bit 2 v1 AND m2)"
  shows "unat ((v2 + drop_bit 4 v2) AND m3) = lanes (map pop8 bs)"
proof -
  have size: "(2::nat) ^ LENGTH('a) = 256 ^ n" by (simp add: len power_mult)
  have b: "\<forall>b \<in> set bs. b < 256" by (simp add: bs bytes_of_bound)
  have x: "unat x = lanes bs" using unat_less_exp [of x] by (simp add: bs lanes_bytes_of size)
  have n: "length bs = n" by (simp add: bs)
  note pc = lanes_popcount [OF b, unfolded n]
  have u1: "unat (drop_bit 1 x AND m1) = (lanes bs div 2 ^ 1) AND lanes (replicate n 0x55)"
    by (simp only: unat_and_nat unat_drop_bit_eq drop_bit_nat_div x m)
  have w1: "unat v1 = lanes bs - ((lanes bs div 2 ^ 1) AND lanes (replicate n 0x55))"
    unfolding v1 using pc(1) by (subst unat_sub) (simp_all only: word_le_nat_alt u1 x)
  have sum: "unat (a + c) = unat a + unat c" if "unat a + unat c < 256 ^ n" for a c :: "'a word"
    using that by (simp add: unat_word_ariths size)
  have w2: "unat v2 = (unat v1 AND lanes (replicate n 0x33)) + ((unat v1 div 2 ^ 2) AND lanes (replicate n 0x33))"
    unfolding v2
    by (subst sum) (simp_all only: unat_and_nat unat_drop_bit_eq drop_bit_nat_div m w1 pc(2))
  have w3: "unat (v2 + drop_bit 4 v2) = unat v2 + unat v2 div 2 ^ 4"
    by (subst sum) (simp_all only: unat_drop_bit_eq drop_bit_nat_div w2 w1 pc(3))
  show ?thesis by (simp only: unat_and_nat w3 w2 w1 m pc(4))
qed

lemma popcnt32_correct: "unat (turbowasm_popcnt32 x) = card {i. bit x i}"
proof -
  obtain a b c d where bs: "bytes_of (Suc (Suc (Suc (Suc 0)))) (unat x) = [a, b, c, d]"
    by simp
  define v1 v2 v3 where "v1 = x - (drop_bit 1 x AND 0x55555555)"
    and "v2 = (v1 AND 0x33333333) + (drop_bit 2 v1 AND 0x33333333)"
    and "v3 = (v2 + drop_bit 4 v2) AND 0x0f0f0f0f"
  have "unat v3 = lanes (map pop8 (bytes_of (Suc (Suc (Suc (Suc 0)))) (unat x)))"
    unfolding v3_def by (rule popcnt_state [OF _ refl _ _ _ v1_def v2_def]) simp_all
  then have v3: "unat v3 = lanes [pop8 a, pop8 b, pop8 c, pop8 d]" unfolding bs list.map .
  have "turbowasm_popcnt32 x = drop_bit 24 (v3 * 0x01010101)"
    by (simp only: turbowasm_popcnt32_def Let_def v3_def v2_def v1_def)
  then have "unat (turbowasm_popcnt32 x) = unat v3 * 0x01010101 mod 2 ^ 32 div 2 ^ 24"
    by (simp only: unat_drop_bit_eq drop_bit_nat_div unat_word_ariths) simp
  also have "\<dots> = sum_list (map pop8 (bytes_of (Suc (Suc (Suc (Suc 0)))) (unat x)))"
    unfolding v3 bs lanes_total4 [OF pop8_le pop8_le pop8_le pop8_le] by simp
  also have "\<dots> = card {i. bit x i}" unfolding pop8_bytes by (simp add: card_bits [symmetric])
  finally show ?thesis .
qed

lemma popcnt64_correct: "unat (turbowasm_popcnt64 x) = card {i. bit x i}"
proof -
  obtain a b c d e f g h where bs: "bytes_of (Suc (Suc (Suc (Suc (Suc (Suc (Suc (Suc 0)))))))) (unat x) = [a, b, c, d, e, f, g, h]"
    by simp
  define v1 v2 v3 where "v1 = x - (drop_bit 1 x AND 0x5555555555555555)"
    and "v2 = (v1 AND 0x3333333333333333) + (drop_bit 2 v1 AND 0x3333333333333333)"
    and "v3 = (v2 + drop_bit 4 v2) AND 0x0f0f0f0f0f0f0f0f"
  have "unat v3 = lanes (map pop8 (bytes_of (Suc (Suc (Suc (Suc (Suc (Suc (Suc (Suc 0)))))))) (unat x)))"
    unfolding v3_def by (rule popcnt_state [OF _ refl _ _ _ v1_def v2_def]) simp_all
  then have v3: "unat v3 = lanes [pop8 a, pop8 b, pop8 c, pop8 d, pop8 e, pop8 f, pop8 g, pop8 h]" unfolding bs list.map .
  have "turbowasm_popcnt64 x = drop_bit 56 (v3 * 0x0101010101010101)"
    by (simp only: turbowasm_popcnt64_def Let_def v3_def v2_def v1_def)
  then have "unat (turbowasm_popcnt64 x) = unat v3 * 0x0101010101010101 mod 2 ^ 64 div 2 ^ 56"
    by (simp only: unat_drop_bit_eq drop_bit_nat_div unat_word_ariths) simp
  also have "\<dots> = sum_list (map pop8 (bytes_of (Suc (Suc (Suc (Suc (Suc (Suc (Suc (Suc 0)))))))) (unat x)))"
    unfolding v3 bs lanes_total8 [OF pop8_le pop8_le pop8_le pop8_le pop8_le pop8_le pop8_le pop8_le] by simp
  also have "\<dots> = card {i. bit x i}" unfolding pop8_bytes by (simp add: card_bits [symmetric])
  finally show ?thesis .
qed

text \<open>
  C15. The bit counting primitives: for a nonzero operand of width \<open>w\<close>, \<open>w - 1 - clz\<close> is the position of its highest set bit
  and \<open>ctz\<close> the position of its lowest one; for zero both are \<open>w\<close>; and \<open>popcnt\<close> is the number of set bits.
\<close>

theorem bit_counting_correct:
  "(if x = 0 then turbowasm_clz32 x = 32 \<and> turbowasm_ctz32 x = 32
    else unat (turbowasm_clz32 x) < 32 \<and> highest_bit x (31 - unat (turbowasm_clz32 x)) \<and> lowest_bit x (unat (turbowasm_ctz32 x))) \<and>
   (if y = 0 then turbowasm_clz64 y = 64 \<and> turbowasm_ctz64 y = 64
    else unat (turbowasm_clz64 y) < 64 \<and> highest_bit y (63 - unat (turbowasm_clz64 y)) \<and> lowest_bit y (unat (turbowasm_ctz64 y))) \<and>
   unat (turbowasm_popcnt32 x) = card {i. bit x i} \<and> unat (turbowasm_popcnt64 y) = card {i. bit y i}"
  using clz32_correct [of x] clz64_correct [of y] ctz32_correct [of x] ctz64_correct [of y]
    popcnt32_correct [of x] popcnt64_correct [of y]
  by (simp add: turbowasm_clz32_def turbowasm_ctz32_def turbowasm_clz64_def turbowasm_ctz64_def)

end
