(* ===== verification/TW_Numeric_Laws.thy ===== *)
theory TW_Numeric_Laws
  imports TW_Numeric_Bits
begin

text \<open>
  The numeric instructions as the bridge \<^verbatim>\<open>turbowasm_jit_numeric\<close> executes them: type soundness for every opcode with a signature,
  integer division, and the conversions of floats to integers against the integer nearest to zero.
\<close>

subsection \<open>Typing\<close>

definition numeric_traps :: "turbowasm_trap set" where
  "numeric_traps = {TURBOWASM_TRAP_INTEGER_DIVIDE_BY_ZERO, TURBOWASM_TRAP_INTEGER_OVERFLOW,
     TURBOWASM_TRAP_INVALID_CONVERSION_TO_INTEGER}"

definition outcome_ok :: "turbowasm_value_kind \<Rightarrow> numeric_outcome \<Rightarrow> bool" where
  "outcome_ok k r = (case r of NumValue v \<Rightarrow> value_kind v = Some k | NumTrap t \<Rightarrow> t \<in> numeric_traps | NumUnsupported \<Rightarrow> False)"

abbreviation bridge_stack :: "turbowasm_value list \<Rightarrow> turbowasm_value_stack" where
  "bridge_stack vs \<equiv> \<lparr>stack_values = vs, stack_capacity = 2\<rparr>"

text \<open>The handler consumes the operands and finishes with an outcome of kind \<open>k\<close>, whatever the allocator grants.\<close>

definition delivers :: "turbowasm_value_kind \<Rightarrow> ((nat \<Rightarrow> bool) \<Rightarrow> exec_result) \<Rightarrow> bool" where
  "delivers k h \<longleftrightarrow> (\<exists>r. outcome_ok k r \<and> (\<forall>grant. h grant = exec_finish grant (bridge_stack []) r))"

lemma outcome_ok_simps [simp]:
  "outcome_ok k (NumValue v) \<longleftrightarrow> value_kind v = Some k" "outcome_ok k (NumTrap t) \<longleftrightarrow> t \<in> numeric_traps"
  "\<not> outcome_ok k NumUnsupported" "outcome_ok k (bool_i32 p) \<longleftrightarrow> k = TURBOWASM_VALUE_I32"
  by (auto simp: outcome_ok_def bool_i32_def)

lemma numeric_traps_simps [simp]:
  "TURBOWASM_TRAP_INTEGER_DIVIDE_BY_ZERO \<in> numeric_traps" "TURBOWASM_TRAP_INTEGER_OVERFLOW \<in> numeric_traps"
  "TURBOWASM_TRAP_INVALID_CONVERSION_TO_INTEGER \<in> numeric_traps"
  by (auto simp: numeric_traps_def)

lemma exec_pop1_top: "value_kind a = Some k \<Longrightarrow> exec_pop1 k (bridge_stack (a # vs)) f = f a (bridge_stack vs)"
  by (simp add: exec_pop1_def turbowasm_stack_pop_kind_def turbowasm_stack_pop_def)

lemma exec_pop2_top:
  "value_kind a = Some k \<Longrightarrow> value_kind b = Some k \<Longrightarrow> exec_pop2 k (bridge_stack (b # a # vs)) f = f a b (bridge_stack vs)"
  by (simp add: exec_pop2_def exec_pop1_top)

lemma deliversI:
  "outcome_ok k r \<Longrightarrow> (\<And>grant. h grant = exec_finish grant (bridge_stack []) r) \<Longrightarrow> delivers k h"
  unfolding delivers_def by blast

lemma in_upt: "a \<le> n \<Longrightarrow> n < b \<Longrightarrow> n \<in> set [a..<b]"
  by simp

text \<open>The operators of each handler: on the opcodes that reach it, an operator is defined and yields the right kind.\<close>

lemma i32_compare_ok: "0x46 \<le> n \<Longrightarrow> n < 0x50 \<Longrightarrow> outcome_ok TURBOWASM_VALUE_I32 (i32_compare (of_nat n) a b)"
  by (drule (1) in_upt) (auto simp: upt_rec_numeral i32_compare_def)

lemma i64_compare_ok: "0x51 \<le> n \<Longrightarrow> n < 0x5b \<Longrightarrow> outcome_ok TURBOWASM_VALUE_I32 (i64_compare (of_nat n) a b)"
  by (drule (1) in_upt) (auto simp: upt_rec_numeral i64_compare_def)

lemma i32_binary_ok: "0x6a \<le> n \<Longrightarrow> n < 0x79 \<Longrightarrow> outcome_ok TURBOWASM_VALUE_I32 (i32_binary (of_nat n) a b)"
  by (drule (1) in_upt) (auto simp: upt_rec_numeral i32_binary_def)

lemma i64_binary_ok: "0x7c \<le> n \<Longrightarrow> n < 0x8b \<Longrightarrow> outcome_ok TURBOWASM_VALUE_I64 (i64_binary (of_nat n) a b)"
  by (drule (1) in_upt) (auto simp: upt_rec_numeral i64_binary_def)

lemma f32_unary_ok: "0x8b \<le> n \<Longrightarrow> n < 0x92 \<Longrightarrow> outcome_ok TURBOWASM_VALUE_F32 (f32_unary (of_nat n) a)"
  by (drule (1) in_upt) (auto simp: upt_rec_numeral f32_unary_def)

lemma f64_unary_ok: "0x99 \<le> n \<Longrightarrow> n < 0xa0 \<Longrightarrow> outcome_ok TURBOWASM_VALUE_F64 (f64_unary (of_nat n) a)"
  by (drule (1) in_upt) (auto simp: upt_rec_numeral f64_unary_def)

lemma trapping_conversion_cases:
  "op = 0xa8 \<or> op = 0xaa \<Longrightarrow> trapping_conversion op v =
     (if \<not> f_eq F64 v v then NumTrap TURBOWASM_TRAP_INVALID_CONVERSION_TO_INTEGER
      else if f_le F64 (d_const 2147483648) v \<or> f_le F64 v (d_const (- 2147483649))
         then NumTrap TURBOWASM_TRAP_INTEGER_OVERFLOW
         else NumValue (VALUE_I32 (word_of_int (f_trunc_int F64 v))))"
  "op = 0xa9 \<or> op = 0xab \<Longrightarrow> trapping_conversion op v =
     (if \<not> f_eq F64 v v then NumTrap TURBOWASM_TRAP_INVALID_CONVERSION_TO_INTEGER
      else if f_le F64 (d_const 4294967296) v \<or> f_le F64 v (d_const (- 1))
         then NumTrap TURBOWASM_TRAP_INTEGER_OVERFLOW
         else NumValue (VALUE_I32 (word_of_int (f_trunc_int F64 v))))"
  "op = 0xae \<or> op = 0xb0 \<Longrightarrow> trapping_conversion op v =
     (if \<not> f_eq F64 v v then NumTrap TURBOWASM_TRAP_INVALID_CONVERSION_TO_INTEGER
      else if f_le F64 (d_const (2 ^ 63)) v \<or> f_less F64 v (d_const (- (2 ^ 63)))
         then NumTrap TURBOWASM_TRAP_INTEGER_OVERFLOW
         else NumValue (VALUE_I64 (word_of_int (f_trunc_int F64 v))))"
  "op = 0xaf \<or> op = 0xb1 \<Longrightarrow> trapping_conversion op v =
     (if \<not> f_eq F64 v v then NumTrap TURBOWASM_TRAP_INVALID_CONVERSION_TO_INTEGER
      else if f_le F64 (d_const (2 ^ 64)) v \<or> f_le F64 v (d_const (- 1))
         then NumTrap TURBOWASM_TRAP_INTEGER_OVERFLOW
         else NumValue (VALUE_I64 (word_of_int (f_trunc_int F64 v))))"
  by (elim disjE; simp add: trapping_conversion_def)+

lemma trapping_conversion_ok:
  "n \<in> {0xa8, 0xa9, 0xaa, 0xab} \<Longrightarrow> outcome_ok TURBOWASM_VALUE_I32 (trapping_conversion (of_nat n) v)"
  "n \<in> {0xae, 0xaf, 0xb0, 0xb1} \<Longrightarrow> outcome_ok TURBOWASM_VALUE_I64 (trapping_conversion (of_nat n) v)"
  by (auto simp: trapping_conversion_cases)

text \<open>What each handler delivers for operands of its kind.\<close>

lemma test_compare_delivers:
  assumes "0x46 \<le> n" "n < 0x50" "value_kind a = Some TURBOWASM_VALUE_I32" "value_kind b = Some TURBOWASM_VALUE_I32"
  shows "delivers TURBOWASM_VALUE_I32 (\<lambda>grant. turbowasm_exec_i32_test_or_compare grant (of_nat n) (bridge_stack [b, a]))"
proof -
  have "(of_nat n :: u8) \<noteq> 0x45" using in_upt [OF assms(1,2)] by (auto simp: upt_rec_numeral)
  then show ?thesis
    by (intro deliversI [OF i32_compare_ok [OF assms(1,2)]]) (simp add: turbowasm_exec_i32_test_or_compare_def exec_pop2_top assms)
qed

lemma test_compare64_delivers:
  assumes "0x51 \<le> n" "n < 0x5b" "value_kind a = Some TURBOWASM_VALUE_I64" "value_kind b = Some TURBOWASM_VALUE_I64"
  shows "delivers TURBOWASM_VALUE_I32 (\<lambda>grant. turbowasm_exec_i64_test_or_compare grant (of_nat n) (bridge_stack [b, a]))"
proof -
  have "(of_nat n :: u8) \<noteq> 0x50" using in_upt [OF assms(1,2)] by (auto simp: upt_rec_numeral)
  then show ?thesis
    by (intro deliversI [OF i64_compare_ok [OF assms(1,2)]]) (simp add: turbowasm_exec_i64_test_or_compare_def exec_pop2_top assms)
qed

lemma eqz_delivers:
  "value_kind a = Some TURBOWASM_VALUE_I32 \<Longrightarrow>
     delivers TURBOWASM_VALUE_I32 (\<lambda>grant. turbowasm_exec_i32_test_or_compare grant 0x45 (bridge_stack [a]))"
  "value_kind a = Some TURBOWASM_VALUE_I64 \<Longrightarrow>
     delivers TURBOWASM_VALUE_I32 (\<lambda>grant. turbowasm_exec_i64_test_or_compare grant 0x50 (bridge_stack [a]))"
  by (rule deliversI [of _ "bool_i32 (value_i32 a = 0)"]; simp add: turbowasm_exec_i32_test_or_compare_def exec_pop1_top)
     (rule deliversI [of _ "bool_i32 (value_i64 a = 0)"]; simp add: turbowasm_exec_i64_test_or_compare_def exec_pop1_top)

lemma float_compare_delivers:
  "0x5b \<le> n \<Longrightarrow> n < 0x61 \<Longrightarrow> value_kind a = Some TURBOWASM_VALUE_F32 \<Longrightarrow> value_kind b = Some TURBOWASM_VALUE_F32 \<Longrightarrow>
     delivers TURBOWASM_VALUE_I32 (\<lambda>grant. turbowasm_exec_f32_compare grant (of_nat n) (bridge_stack [b, a]))"
  "0x61 \<le> n \<Longrightarrow> n < 0x67 \<Longrightarrow> value_kind a = Some TURBOWASM_VALUE_F64 \<Longrightarrow> value_kind b = Some TURBOWASM_VALUE_F64 \<Longrightarrow>
     delivers TURBOWASM_VALUE_I32 (\<lambda>grant. turbowasm_exec_f64_compare grant (of_nat n) (bridge_stack [b, a]))"
  by (drule (1) in_upt; auto simp: upt_rec_numeral turbowasm_exec_f32_compare_def turbowasm_exec_f64_compare_def exec_pop2_top
      intro!: deliversI [OF _ refl])+

lemma int_unary_delivers:
  "0x67 \<le> n \<Longrightarrow> n < 0x6a \<Longrightarrow> value_kind a = Some TURBOWASM_VALUE_I32 \<Longrightarrow>
     delivers TURBOWASM_VALUE_I32 (\<lambda>grant. turbowasm_exec_i32_unary grant (of_nat n) (bridge_stack [a]))"
  "0x79 \<le> n \<Longrightarrow> n < 0x7c \<Longrightarrow> value_kind a = Some TURBOWASM_VALUE_I64 \<Longrightarrow>
     delivers TURBOWASM_VALUE_I64 (\<lambda>grant. turbowasm_exec_i64_unary grant (of_nat n) (bridge_stack [a]))"
  by (drule (1) in_upt; auto simp: upt_rec_numeral turbowasm_exec_i32_unary_def turbowasm_exec_i64_unary_def exec_pop1_top
      intro!: deliversI [OF _ refl])+

lemma binary_delivers:
  "0x6a \<le> n \<Longrightarrow> n < 0x79 \<Longrightarrow> value_kind a = Some TURBOWASM_VALUE_I32 \<Longrightarrow> value_kind b = Some TURBOWASM_VALUE_I32 \<Longrightarrow>
     delivers TURBOWASM_VALUE_I32 (\<lambda>grant. turbowasm_exec_i32_binary grant (of_nat n) (bridge_stack [b, a]))"
  "0x7c \<le> n \<Longrightarrow> n < 0x8b \<Longrightarrow> value_kind a = Some TURBOWASM_VALUE_I64 \<Longrightarrow> value_kind b = Some TURBOWASM_VALUE_I64 \<Longrightarrow>
     delivers TURBOWASM_VALUE_I64 (\<lambda>grant. turbowasm_exec_i64_binary grant (of_nat n) (bridge_stack [b, a]))"
  by (simp_all add: turbowasm_exec_i32_binary_def turbowasm_exec_i64_binary_def exec_pop2_top
      deliversI [OF i32_binary_ok] deliversI [OF i64_binary_ok])

lemma float_unary_delivers:
  "0x8b \<le> n \<Longrightarrow> n < 0x92 \<Longrightarrow> value_kind a = Some TURBOWASM_VALUE_F32 \<Longrightarrow>
     delivers TURBOWASM_VALUE_F32 (\<lambda>grant. turbowasm_exec_f32_unary grant (of_nat n) (bridge_stack [a]))"
  "0x99 \<le> n \<Longrightarrow> n < 0xa0 \<Longrightarrow> value_kind a = Some TURBOWASM_VALUE_F64 \<Longrightarrow>
     delivers TURBOWASM_VALUE_F64 (\<lambda>grant. turbowasm_exec_f64_unary grant (of_nat n) (bridge_stack [a]))"
  by (simp_all add: turbowasm_exec_f32_unary_def turbowasm_exec_f64_unary_def exec_pop1_top
      deliversI [OF f32_unary_ok] deliversI [OF f64_unary_ok])

lemma float_binary_delivers:
  "0x92 \<le> n \<Longrightarrow> n < 0x99 \<Longrightarrow> value_kind a = Some TURBOWASM_VALUE_F32 \<Longrightarrow> value_kind b = Some TURBOWASM_VALUE_F32 \<Longrightarrow>
     delivers TURBOWASM_VALUE_F32 (\<lambda>grant. turbowasm_exec_f32_binary env grant (of_nat n) (bridge_stack [b, a]))"
  "0xa0 \<le> n \<Longrightarrow> n < 0xa7 \<Longrightarrow> value_kind a = Some TURBOWASM_VALUE_F64 \<Longrightarrow> value_kind b = Some TURBOWASM_VALUE_F64 \<Longrightarrow>
     delivers TURBOWASM_VALUE_F64 (\<lambda>grant. turbowasm_exec_f64_binary env grant (of_nat n) (bridge_stack [b, a]))"
  by (drule (1) in_upt; auto simp: upt_rec_numeral turbowasm_exec_f32_binary_def turbowasm_exec_f64_binary_def exec_pop2_top Let_def
      intro!: deliversI [OF _ refl])+

lemma trapping_conversion_delivers:
  assumes "0xa8 \<le> n \<and> n < 0xac \<or> 0xae \<le> n \<and> n < 0xb2"
    and "value_kind a = Some (if n \<in> {0xa8, 0xa9, 0xae, 0xaf} then TURBOWASM_VALUE_F32 else TURBOWASM_VALUE_F64)"
  shows "delivers (if n < 0xac then TURBOWASM_VALUE_I32 else TURBOWASM_VALUE_I64)
     (\<lambda>grant. turbowasm_exec_trapping_conversion env grant (of_nat n) (bridge_stack [a]))"
proof -
  have "n \<in> {0xa8, 0xa9, 0xaa, 0xab} \<or> n \<in> {0xae, 0xaf, 0xb0, 0xb1}"
    using assms(1) in_upt [of "0xa8" n "0xac"] in_upt [of "0xae" n "0xb2"] by (auto simp: upt_rec_numeral)
  then show ?thesis
    using assms(2) trapping_conversion_ok [of n "conversion_value env a"]
    by (intro deliversI [of _ "trapping_conversion (of_nat n) (conversion_value env a)"])
       (auto simp: turbowasm_exec_trapping_conversion_def exec_pop1_top)
qed


lemma trunc_sat_delivers:
  assumes "n < 8" and "value_kind a = Some (if (n div 2) mod 2 = 0 then TURBOWASM_VALUE_F32 else TURBOWASM_VALUE_F64)"
  shows "delivers (if n < 4 then TURBOWASM_VALUE_I32 else TURBOWASM_VALUE_I64)
     (\<lambda>grant. turbowasm_exec_trunc_sat env grant (of_nat n) (bridge_stack [a]))"
proof -
  have n: "(of_nat n :: u32) \<le> 3 \<longleftrightarrow> n < 4" "(of_nat n :: u32) \<le> 1 \<longleftrightarrow> n < 2" "(of_nat n :: u32) \<le> 5 \<longleftrightarrow> n < 6"
    "4 \<le> (of_nat n :: u32) \<longleftrightarrow> 4 \<le> n" "(of_nat n :: u32) \<le> 7"
    using assms(1) by (auto simp: word_le_nat_alt unat_of_nat)
  have "(n div 2) mod 2 = 0 \<longleftrightarrow> n < 2 \<or> 4 \<le> n \<and> n < 6" using assms(1) by presburger
  then show ?thesis
    using assms(2)
    by (intro deliversI [of _ "trunc_sat (of_nat n) (conversion_value env a)"])
       (auto simp: turbowasm_exec_trunc_sat_def trunc_sat_def n exec_pop1_top split del: if_split split: if_split_asm)
qed

abbreviation nontrapping_opcodes :: "nat list" where
  "nontrapping_opcodes \<equiv> [0xa7, 0xac, 0xad, 0xb2, 0xb3, 0xb4, 0xb5, 0xb6, 0xb7, 0xb8, 0xb9, 0xba, 0xbb, 0xbc, 0xbd, 0xbe, 0xbf,
     0xc0, 0xc1, 0xc2, 0xc3, 0xc4]"

lemma nontrapping_source:
  "list_all (\<lambda>n. conversion_source (of_nat n) = turbowasm_kind_from_valtype (fst (conversion_types ! (n - 0xa7)))) nontrapping_opcodes"
  by (simp add: conversion_types_def conversion_source_def turbowasm_kind_from_valtype_def)

lemma nontrapping_target:
  "list_all (\<lambda>n. \<exists>v. nontrapping_conversion env (of_nat n) a = NumValue v \<and>
     value_kind v = turbowasm_kind_from_valtype (snd (conversion_types ! (n - 0xa7)))) nontrapping_opcodes"
  by (simp add: nontrapping_conversion_def conversion_types_def turbowasm_kind_from_valtype_def)

lemma nontrapping_conversion_delivers:
  assumes n: "n \<in> set nontrapping_opcodes"
    and "turbowasm_kind_from_valtype (fst (conversion_types ! (n - 0xa7))) = Some k" and "value_kind a = Some k"
    and "turbowasm_kind_from_valtype (snd (conversion_types ! (n - 0xa7))) = Some k'"
  shows "delivers k' (\<lambda>grant. turbowasm_exec_nontrapping_conversion env grant (of_nat n) (bridge_stack [a]))"
proof -
  obtain v where v: "nontrapping_conversion env (of_nat n) a = NumValue v" "value_kind v = Some k'"
    using nontrapping_target [of env a, unfolded list_all_iff] n assms(4) by metis
  have "conversion_source (of_nat n) = Some k"
    using nontrapping_source [unfolded list_all_iff] n assms(2) by metis
  then show ?thesis
    using assms(3) v(2) by (intro deliversI [of _ "NumValue v"]) (simp_all add: turbowasm_exec_nontrapping_conversion_def exec_pop1_top v(1))
qed

text \<open>Operands of the input type: the stack that the bridge starts with.\<close>

lemma numeric_kind:
  assumes "turbowasm_value_matches_type v t" "t \<in> {0x7f, 0x7e, 0x7d, 0x7c}"
  shows "value_kind v = turbowasm_kind_from_valtype t"
  using assms by (auto simp: turbowasm_value_matches_type_def turbowasm_kind_from_valtype_def split: option.splits if_splits)

lemma conversion_types_numeric:
  assumes "i < 30"
  shows "fst (conversion_types ! i) \<in> {0x7f, 0x7e, 0x7d, 0x7c}" "snd (conversion_types ! i) \<in> {0x7f, 0x7e, 0x7d, 0x7c}"
proof -
  have "list_all (\<lambda>p. fst p \<in> {0x7f, 0x7e, 0x7d, 0x7c} \<and> snd p \<in> {0x7f, 0x7e, 0x7d, 0x7c}) conversion_types"
    by (simp add: conversion_types_def)
  moreover have "conversion_types ! i \<in> set conversion_types"
    using assms by (intro nth_mem) (simp add: conversion_types_def)
  ultimately show "fst (conversion_types ! i) \<in> {0x7f, 0x7e, 0x7d, 0x7c}" "snd (conversion_types ! i) \<in> {0x7f, 0x7e, 0x7d, 0x7c}"
    unfolding list_all_iff by blast+
qed

definition typed_operands :: "turbowasm_numeric_signature \<Rightarrow> turbowasm_value list \<Rightarrow> bool" where
  "typed_operands sg args \<longleftrightarrow>
     length args = input_count sg \<and> list_all (\<lambda>v. turbowasm_value_matches_type v (input_type sg)) args"

lemma typed_operands1:
  assumes "typed_operands (numeric_signature t t' 1) args" "t \<in> {0x7f, 0x7e, 0x7d, 0x7c}"
  obtains a where "args = [a]" "value_kind a = turbowasm_kind_from_valtype t"
  using assms numeric_kind [OF _ assms(2)]
  by (auto simp: typed_operands_def numeric_signature_def length_Suc_conv)

lemma typed_operands2:
  assumes "typed_operands (numeric_signature t t' 2) args" "t \<in> {0x7f, 0x7e, 0x7d, 0x7c}"
  obtains a b where "args = [a, b]" "value_kind a = turbowasm_kind_from_valtype t" "value_kind b = turbowasm_kind_from_valtype t"
  using assms numeric_kind [OF _ assms(2)]
  by (auto simp: typed_operands_def numeric_signature_def length_Suc_conv numeral_2_eq_2)

definition bridge_delivers :: "float_env \<Rightarrow> nat \<Rightarrow> turbowasm_numeric_signature \<Rightarrow> turbowasm_value list \<Rightarrow> bool" where
  "bridge_delivers env n sg args \<longleftrightarrow>
     (\<exists>k. turbowasm_kind_from_valtype (output_type sg) = Some k \<and>
       delivers k (\<lambda>grant. numeric_dispatch env grant n (bridge_stack (rev (take (input_count sg) args)))))"

lemma bridge_delivers1:
  assumes "sg = numeric_signature t t' 1" "typed_operands sg args" "t \<in> {0x7f, 0x7e, 0x7d, 0x7c}"
    and "turbowasm_kind_from_valtype t = Some k" "turbowasm_kind_from_valtype t' = Some k'"
    and "\<And>a. value_kind a = Some k \<Longrightarrow> delivers k' (\<lambda>grant. numeric_dispatch env grant n (bridge_stack [a]))"
  shows "bridge_delivers env n sg args"
proof -
  obtain a where "args = [a]" "value_kind a = Some k" by (rule typed_operands1 [of t t' args]) (use assms in simp_all)
  then show ?thesis using assms by (simp add: bridge_delivers_def numeric_signature_def)
qed

lemma bridge_delivers2:
  assumes "sg = numeric_signature t t' 2" "typed_operands sg args" "t \<in> {0x7f, 0x7e, 0x7d, 0x7c}"
    and "turbowasm_kind_from_valtype t = Some k" "turbowasm_kind_from_valtype t' = Some k'"
    and "\<And>a b. value_kind a = Some k \<Longrightarrow> value_kind b = Some k \<Longrightarrow> delivers k' (\<lambda>grant. numeric_dispatch env grant n (bridge_stack [b, a]))"
  shows "bridge_delivers env n sg args"
proof -
  obtain a b where "args = [a, b]" "value_kind a = Some k" "value_kind b = Some k"
    by (rule typed_operands2 [of t t' args]) (use assms in simp_all)
  then show ?thesis using assms by (simp add: bridge_delivers_def numeric_signature_def)
qed

lemmas bridge_simps = turbowasm_numeric_signature_get_def numeric_dispatch_def Let_def

lemma kind_from_numeric [simp]:
  "turbowasm_kind_from_valtype 0x7f = Some TURBOWASM_VALUE_I32" "turbowasm_kind_from_valtype 0x7e = Some TURBOWASM_VALUE_I64"
  "turbowasm_kind_from_valtype 0x7d = Some TURBOWASM_VALUE_F32" "turbowasm_kind_from_valtype 0x7c = Some TURBOWASM_VALUE_F64"
  by (simp_all add: turbowasm_kind_from_valtype_def)

lemma bridge_integer:
  assumes "turbowasm_numeric_signature_get n = Some sg" "typed_operands sg args"
    and "0x45 \<le> n \<and> n < 0x5b \<or> 0x67 \<le> n \<and> n < 0x8b"
  shows "bridge_delivers env n sg args"
proof -
  consider "n = 0x45" | "0x46 \<le> n" "n < 0x50" | "n = 0x50" | "0x51 \<le> n" "n < 0x5b" | "0x67 \<le> n" "n < 0x6a"
    | "0x6a \<le> n" "n < 0x79" | "0x79 \<le> n" "n < 0x7c" | "0x7c \<le> n" "n < 0x8b"
    using assms(3) by linarith
  then show ?thesis
  proof cases
    case 1
    then have "sg = numeric_signature 0x7f 0x7f 1" using assms(1) by (simp add: bridge_simps)
    then show ?thesis by (rule bridge_delivers1 [OF _ assms(2)]) (auto simp: bridge_simps 1 intro: eqz_delivers)
  next
    case 2
    then have "sg = numeric_signature 0x7f 0x7f 2" using assms(1) by (simp add: bridge_simps)
    then show ?thesis by (rule bridge_delivers2 [OF _ assms(2)]) (use 2 in \<open>auto simp: bridge_simps intro: test_compare_delivers\<close>)
  next
    case 3
    then have "sg = numeric_signature 0x7e 0x7f 1" using assms(1) by (simp add: bridge_simps)
    then show ?thesis by (rule bridge_delivers1 [OF _ assms(2)]) (auto simp: bridge_simps 3 intro: eqz_delivers)
  next
    case 4
    then have "sg = numeric_signature 0x7e 0x7f 2" using assms(1) by (simp add: bridge_simps)
    then show ?thesis by (rule bridge_delivers2 [OF _ assms(2)]) (use 4 in \<open>auto simp: bridge_simps intro: test_compare64_delivers\<close>)
  next
    case 5
    then have "sg = numeric_signature 0x7f 0x7f 1" using assms(1) by (simp add: bridge_simps)
    then show ?thesis by (rule bridge_delivers1 [OF _ assms(2)]) (use 5 in \<open>auto simp: bridge_simps intro: int_unary_delivers\<close>)
  next
    case 6
    then have "sg = numeric_signature 0x7f 0x7f 2" using assms(1) by (simp add: bridge_simps)
    then show ?thesis by (rule bridge_delivers2 [OF _ assms(2)]) (use 6 in \<open>auto simp: bridge_simps intro: binary_delivers\<close>)
  next
    case 7
    then have "sg = numeric_signature 0x7e 0x7e 1" using assms(1) by (simp add: bridge_simps)
    then show ?thesis by (rule bridge_delivers1 [OF _ assms(2)]) (use 7 in \<open>auto simp: bridge_simps intro: int_unary_delivers\<close>)
  next
    case 8
    then have "sg = numeric_signature 0x7e 0x7e 2" using assms(1) by (simp add: bridge_simps)
    then show ?thesis by (rule bridge_delivers2 [OF _ assms(2)]) (use 8 in \<open>auto simp: bridge_simps intro: binary_delivers\<close>)
  qed
qed

lemma bridge_float:
  assumes "turbowasm_numeric_signature_get n = Some sg" "typed_operands sg args"
    and "0x5b \<le> n \<and> n < 0x67 \<or> 0x8b \<le> n \<and> n < 0xa7"
  shows "bridge_delivers env n sg args"
proof -
  consider "0x5b \<le> n" "n < 0x61" | "0x61 \<le> n" "n < 0x67" | "0x8b \<le> n" "n < 0x92" | "0x92 \<le> n" "n < 0x99"
    | "0x99 \<le> n" "n < 0xa0" | "0xa0 \<le> n" "n < 0xa7"
    using assms(3) by linarith
  then show ?thesis
  proof cases
    case 1
    then have "sg = numeric_signature 0x7d 0x7f 2" using assms(1) by (simp add: bridge_simps)
    then show ?thesis by (rule bridge_delivers2 [OF _ assms(2)]) (use 1 in \<open>auto simp: bridge_simps intro: float_compare_delivers\<close>)
  next
    case 2
    then have "sg = numeric_signature 0x7c 0x7f 2" using assms(1) by (simp add: bridge_simps)
    then show ?thesis by (rule bridge_delivers2 [OF _ assms(2)]) (use 2 in \<open>auto simp: bridge_simps intro: float_compare_delivers\<close>)
  next
    case 3
    then have "sg = numeric_signature 0x7d 0x7d 1" using assms(1) by (simp add: bridge_simps)
    then show ?thesis by (rule bridge_delivers1 [OF _ assms(2)]) (use 3 in \<open>auto simp: bridge_simps intro: float_unary_delivers\<close>)
  next
    case 4
    then have "sg = numeric_signature 0x7d 0x7d 2" using assms(1) by (simp add: bridge_simps)
    then show ?thesis by (rule bridge_delivers2 [OF _ assms(2)]) (use 4 in \<open>auto simp: bridge_simps intro: float_binary_delivers\<close>)
  next
    case 5
    then have "sg = numeric_signature 0x7c 0x7c 1" using assms(1) by (simp add: bridge_simps)
    then show ?thesis by (rule bridge_delivers1 [OF _ assms(2)]) (use 5 in \<open>auto simp: bridge_simps intro: float_unary_delivers\<close>)
  next
    case 6
    then have "sg = numeric_signature 0x7c 0x7c 2" using assms(1) by (simp add: bridge_simps)
    then show ?thesis by (rule bridge_delivers2 [OF _ assms(2)]) (use 6 in \<open>auto simp: bridge_simps intro: float_binary_delivers\<close>)
  qed
qed

lemma trapping_types:
  assumes "0xa8 \<le> n \<and> n < 0xac \<or> 0xae \<le> n \<and> n < 0xb2"
  shows "conversion_types ! (n - 0xa7) =
    (if n \<in> {0xa8, 0xa9, 0xae, 0xaf} then 0x7d else 0x7c, if n < 0xac then 0x7f else 0x7e)"
  using assms in_upt [of "0xa8" n "0xac"] in_upt [of "0xae" n "0xb2"]
  by (auto simp: upt_rec_numeral conversion_types_def)

lemma bridge_trapping:
  assumes "turbowasm_numeric_signature_get n = Some sg" "typed_operands sg args"
    and n: "0xa8 \<le> n \<and> n < 0xac \<or> 0xae \<le> n \<and> n < 0xb2"
  shows "bridge_delivers env n sg args"
proof -
  define t where "t = (if n \<in> {0xa8, 0xa9, 0xae, 0xaf} then 0x7d else 0x7c :: u8)"
  define t' where "t' = (if n < 0xac then 0x7f else 0x7e :: u8)"
  have "sg = numeric_signature t t' 1"
    using assms(1) n trapping_types [OF n] unfolding t_def t'_def by (auto simp: bridge_simps)
  then show ?thesis
    by (rule bridge_delivers1 [OF _ assms(2), where
          k = "if n \<in> {0xa8, 0xa9, 0xae, 0xaf} then TURBOWASM_VALUE_F32 else TURBOWASM_VALUE_F64" and
          k' = "if n < 0xac then TURBOWASM_VALUE_I32 else TURBOWASM_VALUE_I64"])
       (use n trapping_conversion_delivers [OF n] in \<open>auto simp: t_def t'_def bridge_simps\<close>)
qed

lemma bridge_nontrapping:
  assumes sg: "turbowasm_numeric_signature_get n = Some sg" "typed_operands sg args" and n: "n \<in> set nontrapping_opcodes"
  shows "bridge_delivers env n sg args"
proof -
  have r: "0xa7 \<le> n" "n < 0xc5" "\<not> (0xa8 \<le> n \<and> n \<le> 0xab \<or> 0xae \<le> n \<and> n \<le> 0xb1)"
    using n by auto
  obtain t t' where t: "conversion_types ! (n - 0xa7) = (t, t')" by fastforce
  have num: "t \<in> {0x7f, 0x7e, 0x7d, 0x7c}" "t' \<in> {0x7f, 0x7e, 0x7d, 0x7c}"
    using conversion_types_numeric [of "n - 0xa7"] r t by auto
  then obtain k k' where k: "turbowasm_kind_from_valtype t = Some k" "turbowasm_kind_from_valtype t' = Some k'" by auto
  have "sg = numeric_signature t t' 1" using sg(1) r t by (auto simp: bridge_simps)
  then show ?thesis
  proof (rule bridge_delivers1 [OF _ sg(2) num(1) k])
    fix a assume "value_kind a = Some k"
    then have "delivers k' (\<lambda>grant. turbowasm_exec_nontrapping_conversion env grant (of_nat n) (bridge_stack [a]))"
      using nontrapping_conversion_delivers [OF n] t k by simp
    then show "delivers k' (\<lambda>grant. numeric_dispatch env grant n (bridge_stack [a]))"
      using r(1,2) by (simp add: numeric_dispatch_def Let_def r(3) cong del: if_cong)
  qed
qed

lemma bridge_saturating:
  assumes "turbowasm_numeric_signature_get n = Some sg" "typed_operands sg args" and n: "0x100 \<le> n" "n < 0x108"
  shows "bridge_delivers env n sg args"
proof -
  define m where "m = n - 0x100"
  have m: "m < 8" "n = 0x100 + m" using n by (simp_all add: m_def)
  have "sg = numeric_signature (if (m div 2) mod 2 = 0 then 0x7d else 0x7c) (if m < 4 then 0x7f else 0x7e) 1"
    using assms(1) n by (simp add: bridge_simps m_def)
  then show ?thesis
    by (rule bridge_delivers1 [OF _ assms(2), where
          k = "if (m div 2) mod 2 = 0 then TURBOWASM_VALUE_F32 else TURBOWASM_VALUE_F64" and
          k' = "if m < 4 then TURBOWASM_VALUE_I32 else TURBOWASM_VALUE_I64"])
       (use m trunc_sat_delivers [OF m(1)] in \<open>auto simp: numeric_dispatch_def\<close>)
qed

lemma bridge_all:
  assumes sg: "turbowasm_numeric_signature_get n = Some sg" "typed_operands sg args"
  shows "bridge_delivers env n sg args"
proof -
  have "0x45 \<le> n \<and> n < 0xc5 \<or> 0x100 \<le> n \<and> n < 0x108"
    using sg(1) by (auto simp: turbowasm_numeric_signature_get_def split: if_splits)
  then consider "0x45 \<le> n \<and> n < 0x5b \<or> 0x67 \<le> n \<and> n < 0x8b" | "0x5b \<le> n \<and> n < 0x67 \<or> 0x8b \<le> n \<and> n < 0xa7"
    | "0xa8 \<le> n \<and> n < 0xac \<or> 0xae \<le> n \<and> n < 0xb2" | "n = 0xa7 \<or> 0xac \<le> n \<and> n < 0xae \<or> 0xb2 \<le> n \<and> n < 0xc5"
    | "0x100 \<le> n" "n < 0x108"
    by linarith
  then show ?thesis
  proof cases
    case 4
    then have "n = 0xa7 \<or> n \<in> set [0xac..<0xae] \<or> n \<in> set [0xb2..<0xc5]" by (metis in_upt)
    then have "n \<in> set nontrapping_opcodes" by (auto simp: upt_rec_numeral)
    then show ?thesis by (rule bridge_nontrapping [OF sg])
  qed (simp_all add: bridge_integer [OF sg] bridge_float [OF sg] bridge_trapping [OF sg] bridge_saturating [OF sg])
qed

definition bridge_result :: "numeric_outcome \<Rightarrow> turbowasm_status \<times> turbowasm_trap \<times> turbowasm_value option" where
  "bridge_result r =
     (case r of NumValue v \<Rightarrow> (TURBOWASM_OK, TURBOWASM_TRAP_NONE, Some v)
      | NumTrap t \<Rightarrow> (TURBOWASM_TRAPPED, t, None)
      | NumUnsupported \<Rightarrow> (TURBOWASM_UNSUPPORTED, TURBOWASM_TRAP_NONE, None))"

lemma jit_numeric_result:
  assumes "turbowasm_numeric_signature_get n = Some sg" "n \<le> UINT32_MAX"
    and "numeric_dispatch env grant n (bridge_stack (rev (take (input_count sg) arguments))) = exec_finish grant (bridge_stack []) r"
  shows "turbowasm_jit_numeric env grant (int n) arguments = bridge_result r"
  using assms
  by (cases r) (simp_all add: turbowasm_jit_numeric_def bridge_result_def exec_finish_def turbowasm_stack_push_def
      turbowasm_stack_reserve_def Let_def)

text \<open>
  C11. The numeric bridge is type sound: for an opcode with a signature and operands of its input type it returns one
  value of the output type, or traps with one of the three arithmetic traps; no other status is possible. The result
  does not depend on the allocator.
\<close>

theorem numeric_type_sound:
  assumes "0 \<le> opcode" "opcode \<le> int UINT32_MAX" "turbowasm_numeric_signature_get (nat opcode) = Some sg"
    and "length arguments = input_count sg" "list_all (\<lambda>v. turbowasm_value_matches_type v (input_type sg)) arguments"
  shows "((\<exists>v. turbowasm_jit_numeric env grant opcode arguments = (TURBOWASM_OK, TURBOWASM_TRAP_NONE, Some v) \<and>
             turbowasm_value_matches_type v (output_type sg)) \<or>
          (\<exists>t \<in> {TURBOWASM_TRAP_INTEGER_DIVIDE_BY_ZERO, TURBOWASM_TRAP_INTEGER_OVERFLOW,
                TURBOWASM_TRAP_INVALID_CONVERSION_TO_INTEGER}.
             turbowasm_jit_numeric env grant opcode arguments = (TURBOWASM_TRAPPED, t, None))) \<and>
         turbowasm_jit_numeric env grant opcode arguments = turbowasm_jit_numeric env grant' opcode arguments"
proof -
  have "bridge_delivers env (nat opcode) sg arguments"
    by (rule bridge_all [OF assms(3)]) (use assms(4,5) in \<open>simp add: typed_operands_def\<close>)
  then obtain k r where k: "turbowasm_kind_from_valtype (output_type sg) = Some k" "outcome_ok k r" and
    d: "\<And>grant. numeric_dispatch env grant (nat opcode) (bridge_stack (rev (take (input_count sg) arguments))) =
      exec_finish grant (bridge_stack []) r"
    unfolding bridge_delivers_def delivers_def by blast
  have "nat opcode \<le> UINT32_MAX" using assms(1,2) by (simp add: nat_le_iff)
  from jit_numeric_result [OF assms(3) this d] assms(1)
  have j: "turbowasm_jit_numeric env grant opcode arguments = bridge_result r" for grant by simp
  show ?thesis
    using k by (cases r) (auto simp: j bridge_result_def turbowasm_value_matches_type_def numeric_traps_def)
qed

definition sample_float_env :: float_env where
  "sample_float_env = \<lparr>arith_nan32 = (\<lambda>_ _. 0x7fc00000), arith_nan64 = (\<lambda>_ _. 0x7ff8000000000000),
     demote_nan = (\<lambda>_. 0x7fc00000), promote_nan = (\<lambda>_. 0x7ff8000000000000)\<rparr>"

theorem numeric_type_sound_witness:
  "turbowasm_numeric_signature_get (nat 0x6d) = Some (numeric_signature 0x7f 0x7f 2) \<and>
   (\<exists>v. turbowasm_jit_numeric sample_float_env (\<lambda>_. False) 0x6d [VALUE_I32 7, VALUE_I32 2] =
          (TURBOWASM_OK, TURBOWASM_TRAP_NONE, Some v) \<and> turbowasm_value_matches_type v 0x7f)"
proof -
  have s: "turbowasm_numeric_signature_get (nat 0x6d) = Some (numeric_signature 0x7f 0x7f 2)"
    by (simp add: turbowasm_numeric_signature_get_def)
  have m: "turbowasm_value_matches_type (VALUE_I32 x) 0x7f" for x by (simp add: turbowasm_value_matches_type_def)
  have "fst (turbowasm_jit_numeric sample_float_env (\<lambda>_. False) 0x6d [VALUE_I32 7, VALUE_I32 2]) = TURBOWASM_OK"
    using s by (simp add: turbowasm_jit_numeric_def numeric_dispatch_def turbowasm_exec_i32_binary_def numeric_signature_def
        exec_pop2_top i32_binary_def exec_finish_def turbowasm_stack_push_def turbowasm_stack_reserve_def Let_def)
  then show ?thesis
    using numeric_type_sound [of "0x6d" "numeric_signature 0x7f 0x7f 2" "[VALUE_I32 7, VALUE_I32 2]" sample_float_env
        "\<lambda>_. False" "\<lambda>_. False"] s m
    by (auto simp: numeric_signature_def)
qed

subsection \<open>Division\<close>

lemma jit_i32_binary:
  assumes "0x6a \<le> n" "n < 0x79"
  shows "turbowasm_jit_numeric env grant (int n) [VALUE_I32 a, VALUE_I32 b] = bridge_result (i32_binary (of_nat n) a b)"
  by (rule jit_numeric_result [of n "numeric_signature 0x7f 0x7f 2"])
     (use assms in \<open>simp_all add: bridge_simps numeric_signature_def turbowasm_exec_i32_binary_def exec_pop2_top\<close>)

lemma jit_i64_binary:
  assumes "0x7c \<le> n" "n < 0x8b"
  shows "turbowasm_jit_numeric env grant (int n) [VALUE_I64 a, VALUE_I64 b] = bridge_result (i64_binary (of_nat n) a b)"
  by (rule jit_numeric_result [of n "numeric_signature 0x7e 0x7e 2"])
     (use assms in \<open>simp_all add: bridge_simps numeric_signature_def turbowasm_exec_i64_binary_def exec_pop2_top\<close>)

lemma sint_word_of_int_fits:
  assumes "- (2 ^ (LENGTH('a::len) - 1)) \<le> x" "x < 2 ^ (LENGTH('a) - 1)"
  shows "sint (word_of_int x :: 'a word) = x"
  using assms by (simp add: sint_sbintrunc' signed_take_bit_int_eq_self)

text \<open>The quotient of two numbers of a range stays in it, the most negative number by \<open>- 1\<close> apart.\<close>

lemma sdiv_bounds:
  fixes x y :: int
  assumes "- m \<le> x" "x < m" "- m \<le> y" "y < m" "y \<noteq> 0" "\<not> (x = - m \<and> y = - 1)"
  shows "- m \<le> x sdiv y" "x sdiv y < m"
proof -
  have q: "\<bar>x sdiv y\<bar> = \<bar>x\<bar> div \<bar>y\<bar>" using assms(5)
    by (cases "x = 0") (simp_all add: signed_divide_int_def abs_mult abs_sgn_eq pos_imp_zdiv_nonneg_iff)
  have le: "\<bar>x\<bar> div \<bar>y\<bar> \<le> \<bar>x\<bar>" using zdiv_mono2 [of "\<bar>x\<bar>" 1 "\<bar>y\<bar>"] assms(5) by simp
  then show "- m \<le> x sdiv y" using q assms(1,2) by linarith
  show "x sdiv y < m"
  proof (cases "x = - m")
    case True
    then consider "y = 1" | "2 \<le> \<bar>y\<bar>" using assms(5,6) by linarith
    then show ?thesis
    proof cases
      case 2
      then have "\<bar>x\<bar> div \<bar>y\<bar> \<le> \<bar>x\<bar> div 2" by (intro zdiv_mono2) auto
      then show ?thesis using q True assms(1,2) by linarith
    qed (use True assms(2) in \<open>simp add: signed_divide_int_def\<close>)
  next
    case False
    then show ?thesis using q le assms(1,2) by linarith
  qed
qed

lemma smod_bounds:
  fixes x y :: int
  assumes "- m \<le> y" "y < m" "y \<noteq> 0"
  shows "- m \<le> x smod y" "x smod y < m"
proof -
  have "\<bar>x smod y\<bar> \<le> \<bar>x\<bar> mod \<bar>y\<bar>" using assms(3)
    by (simp add: smod_int_alt_def abs_mult abs_sgn_eq)
  moreover have "\<bar>x\<bar> mod \<bar>y\<bar> < \<bar>y\<bar>" using assms(3) by simp
  ultimately show "- m \<le> x smod y" "x smod y < m" using assms(1,2) by linarith+
qed

lemma sint_bounds:
  fixes x :: "'a::len word"
  shows "- (2 ^ (LENGTH('a) - 1)) \<le> sint x" "sint x < 2 ^ (LENGTH('a) - 1)"
  using sint_greater_eq [of x] sint_less [of x] by simp_all

lemma sdiv_overflow_iff:
  fixes x y :: int
  assumes "- m \<le> x" "x < m" "- m \<le> y" "y < m" "y \<noteq> 0"
  shows "x = - m \<and> y = - 1 \<longleftrightarrow> x sdiv y = m"
  using sdiv_bounds(2) [OF assms] by fastforce

lemma word_sdiv_fits:
  fixes a b :: "'a::len word"
  assumes "b \<noteq> 0" "\<not> (sint a = - (2 ^ (LENGTH('a) - 1)) \<and> sint b = - 1)"
  shows "sint (word_of_int (sint a sdiv sint b) :: 'a word) = sint a sdiv sint b"
  by (rule sint_word_of_int_fits; rule sdiv_bounds [OF sint_bounds sint_bounds])
     (use assms in \<open>simp_all add: signed_eq_0_iff\<close>)

lemma word_smod_fits:
  fixes a b :: "'a::len word"
  assumes "b \<noteq> 0"
  shows "sint (word_of_int (sint a smod sint b) :: 'a word) = sint a smod sint b"
  by (rule sint_word_of_int_fits; rule smod_bounds [OF sint_bounds]) (use assms in \<open>simp_all add: signed_eq_0_iff\<close>)

lemma i32_division:
  assumes "b \<noteq> 0"
  shows "i32_binary 0x6d a b = (if sint a sdiv sint b = 2 ^ 31 then NumTrap TURBOWASM_TRAP_INTEGER_OVERFLOW
      else NumValue (VALUE_I32 (word_of_int (sint a sdiv sint b))))"
    "i32_binary 0x6f a b = NumValue (VALUE_I32 (word_of_int (sint a smod sint b)))"
  using assms sdiv_overflow_iff [OF sint_bounds [of a] sint_bounds [of b]]
  by (auto simp: i32_binary_def signed_eq_0_iff smod_int_alt_def)

lemma i64_division:
  assumes "b \<noteq> 0"
  shows "i64_binary 0x7f a b = (if sint a sdiv sint b = 2 ^ 63 then NumTrap TURBOWASM_TRAP_INTEGER_OVERFLOW
      else NumValue (VALUE_I64 (word_of_int (sint a sdiv sint b))))"
    "i64_binary 0x81 a b = NumValue (VALUE_I64 (word_of_int (sint a smod sint b)))"
  using assms sdiv_overflow_iff [OF sint_bounds [of a] sint_bounds [of b]]
  by (auto simp: i64_binary_def signed_eq_0_iff smod_int_alt_def)

text \<open>
  The four operators from \<open>base\<close>: signed and unsigned quotient, signed and unsigned remainder of \<open>a\<close> and \<open>b\<close>.
\<close>

definition division_laws ::
    "(int \<Rightarrow> turbowasm_status \<times> turbowasm_trap \<times> turbowasm_value option) \<Rightarrow> ('a::len word \<Rightarrow> turbowasm_value) \<Rightarrow>
     int \<Rightarrow> 'a word \<Rightarrow> 'a word \<Rightarrow> bool" where
  "division_laws f mk base a b \<longleftrightarrow>
     (if b = 0
      then list_all (\<lambda>i. f (base + i) = (TURBOWASM_TRAPPED, TURBOWASM_TRAP_INTEGER_DIVIDE_BY_ZERO, None)) [0, 1, 2, 3]
      else
        (if sint a sdiv sint b = 2 ^ (LENGTH('a) - 1)
         then f base = (TURBOWASM_TRAPPED, TURBOWASM_TRAP_INTEGER_OVERFLOW, None)
         else \<exists>q. f base = (TURBOWASM_OK, TURBOWASM_TRAP_NONE, Some (mk q)) \<and> sint q = sint a sdiv sint b) \<and>
        (\<exists>q. f (base + 1) = (TURBOWASM_OK, TURBOWASM_TRAP_NONE, Some (mk q)) \<and> unat q = unat a div unat b) \<and>
        (\<exists>r. f (base + 2) = (TURBOWASM_OK, TURBOWASM_TRAP_NONE, Some (mk r)) \<and> sint r = sint a smod sint b) \<and>
        (\<exists>r. f (base + 3) = (TURBOWASM_OK, TURBOWASM_TRAP_NONE, Some (mk r)) \<and> unat r = unat a mod unat b))"

lemma i32_division_laws:
  "division_laws (\<lambda>opcode. turbowasm_jit_numeric env grant opcode [VALUE_I32 a, VALUE_I32 b]) VALUE_I32 0x6d a b"
proof -
  note jit = jit_i32_binary [of "0x6d"] jit_i32_binary [of "0x6e"] jit_i32_binary [of "0x6f"] jit_i32_binary [of "0x70"]
  show ?thesis
  proof (cases "b = 0")
    case False
    have n: "\<not> (sint a = - (2 ^ (LENGTH(32) - 1)) \<and> sint b = - 1)" if "sint a sdiv sint b \<noteq> 2 ^ 31"
      using that by auto
    show ?thesis
      using False word_sdiv_fits [OF False n] word_smod_fits [OF False, of a] jit
      by (auto simp: division_laws_def i32_division i32_binary_def [of "0x6e"] i32_binary_def [of "0x70"] bridge_result_def
          unat_div unat_mod)
  qed (use jit in \<open>simp add: division_laws_def i32_binary_def bridge_result_def\<close>)
qed

lemma i64_division_laws:
  "division_laws (\<lambda>opcode. turbowasm_jit_numeric env grant opcode [VALUE_I64 a, VALUE_I64 b]) VALUE_I64 0x7f a b"
proof -
  note jit = jit_i64_binary [of "0x7f"] jit_i64_binary [of "0x80"] jit_i64_binary [of "0x81"] jit_i64_binary [of "0x82"]
  show ?thesis
  proof (cases "b = 0")
    case False
    have n: "\<not> (sint a = - (2 ^ (LENGTH(64) - 1)) \<and> sint b = - 1)" if "sint a sdiv sint b \<noteq> 2 ^ 63"
      using that by auto
    show ?thesis
      using False word_sdiv_fits [OF False n] word_smod_fits [OF False, of a] jit
      by (auto simp: division_laws_def i64_division i64_binary_def [of "0x80"] i64_binary_def [of "0x82"] bridge_result_def
          unat_div unat_mod)
  qed (use jit in \<open>simp add: division_laws_def i64_binary_def bridge_result_def\<close>)
qed

text \<open>
  C12. Integer division and remainder at both widths: a zero divisor traps as division by zero for all four operators; the
  signed quotient traps as overflow exactly when it is \<open>2 ^ (w - 1)\<close>, which does not fit in \<open>w\<close> bits, and is otherwise the
  quotient rounded toward zero; the signed remainder never traps on overflow; the unsigned operators are
  those of the natural numbers.
\<close>

theorem integer_division_correct:
  "division_laws (\<lambda>opcode. turbowasm_jit_numeric env grant opcode [VALUE_I32 a, VALUE_I32 b]) VALUE_I32 0x6d a b \<and>
   division_laws (\<lambda>opcode. turbowasm_jit_numeric env grant opcode [VALUE_I64 c, VALUE_I64 d]) VALUE_I64 0x7f c d"
  by (simp only: i32_division_laws i64_division_laws)

subsection \<open>Truncation to integers\<close>

text \<open>What the language promises of the conversion of a NaN: it is a NaN.\<close>

definition promotes_nan :: "float_env \<Rightarrow> bool" where
  "promotes_nan env \<longleftrightarrow> (\<forall>x. f_is_nan F64 (unat (promote_nan env x)))"

text \<open>The operand rounded toward zero, and none for a NaN; the infinities count as \<open>2 ^ 128\<close> and \<open>2 ^ 1024\<close>.\<close>

definition float_trunc :: "turbowasm_value \<Rightarrow> int option" where
  "float_trunc v =
     (case v of
        VALUE_F32 x \<Rightarrow> if f_is_nan F32 (unat x) then None else Some (f_trunc_int F32 (unat x))
      | VALUE_F64 x \<Rightarrow> if f_is_nan F64 (unat x) then None else Some (f_trunc_int F64 (unat x))
      | _ \<Rightarrow> None)"

definition is_float :: "turbowasm_value \<Rightarrow> bool" where
  "is_float v \<longleftrightarrow> value_kind v = Some TURBOWASM_VALUE_F32 \<or> value_kind v = Some TURBOWASM_VALUE_F64"

lemma conversion_nan:
  assumes "promotes_nan env" "is_float v"
  shows "f_is_nan F64 (conversion_value env v) \<longleftrightarrow> float_trunc v = None"
proof (cases v)
  case (VALUE_F32 x)
  consider "f_is_nan F32 (unat x)" | "f_is_inf F32 (unat x)" | "f_abs F32 (unat x) < f_infinity F32"
    unfolding f_is_nan_def f_is_inf_def by linarith
  then show ?thesis
  proof cases
    case 1
    then have "conversion_value env v = unat (promote_nan env x)" by (simp add: conversion_value_def VALUE_F32 f_convert_def)
    then show ?thesis using 1 assms(1) by (simp add: VALUE_F32 float_trunc_def promotes_nan_def)
  next
    case 2
    then have "\<not> f_is_nan F32 (unat x)" by (simp add: f_is_nan_def f_is_inf_def)
    then show ?thesis using widen_trunc_infinite(1) [OF 2] by (simp add: VALUE_F32 float_trunc_def conversion_value_def)
  next
    case 3
    then have "\<not> f_is_nan F32 (unat x)" by (simp add: f_is_nan_def)
    then show ?thesis using widen_finite(1) [OF 3] by (simp add: VALUE_F32 float_trunc_def conversion_value_def)
  qed
qed (use assms(2) in \<open>simp_all add: float_trunc_def conversion_value_def is_float_def\<close>)

text \<open>The truncated operand and the truncated double agree, or both are beyond every integer type.\<close>

definition same_trunc :: "int \<Rightarrow> int \<Rightarrow> bool" where
  "same_trunc t t' \<longleftrightarrow> t = t' \<or> 2 ^ 128 \<le> t \<and> 2 ^ 128 \<le> t' \<or> t \<le> - (2 ^ 128) \<and> t' \<le> - (2 ^ 128)"

lemma conversion_trunc:
  assumes "float_trunc v = Some t"
  shows "same_trunc t (f_trunc_int F64 (conversion_value env v))"
proof (cases v)
  case (VALUE_F32 x)
  then have nn: "\<not> f_is_nan F32 (unat x)" and t: "t = f_trunc_int F32 (unat x)"
    using assms by (simp_all add: float_trunc_def split: if_splits)
  consider "f_is_inf F32 (unat x)" | "f_abs F32 (unat x) < f_infinity F32"
    using nn unfolding f_is_nan_def f_is_inf_def by linarith
  then show ?thesis
  proof cases
    case 1
    show ?thesis using widen_trunc_infinite(2,3) [OF 1] by (simp add: same_trunc_def t VALUE_F32 conversion_value_def)
  next
    case 2
    show ?thesis using widen_trunc_finite [OF 2] by (simp add: same_trunc_def t VALUE_F32 conversion_value_def)
  qed
qed (use assms in \<open>simp_all add: float_trunc_def conversion_value_def same_trunc_def split: if_splits\<close>)

text \<open>The comparisons of the sources with their constants.\<close>

lemma const_le_iff:
  assumes "nat c = m * 2 ^ j" "m < 2 ^ 53" "0 < c" "c \<le> 2 ^ 64" "\<not> f_is_nan F64 v"
  shows "f_le F64 (d_const c) v \<longleftrightarrow> c \<le> f_trunc_int F64 v" "f_le F64 v (d_const (- c)) \<longleftrightarrow> f_trunc_int F64 v \<le> - c"
    "f_less F64 v (d_const (- c)) \<Longrightarrow> f_trunc_int F64 v \<le> - c" "\<not> f_less F64 v (d_const (- c)) \<Longrightarrow> - c \<le> f_trunc_int F64 v"
proof -
  note pos = d_const_exact [of c m j] and neg = d_const_exact [of "- c" m j] and iff = f_trunc_le_iff [OF assms(3), of F64 v]
  show "f_le F64 (d_const c) v \<longleftrightarrow> c \<le> f_trunc_int F64 v" using pos iff assms by (simp add: f_le_def)
  show "f_le F64 v (d_const (- c)) \<longleftrightarrow> f_trunc_int F64 v \<le> - c" using neg iff assms by (simp add: f_le_def)
  have less: "f_less F64 v (d_const (- c)) \<longleftrightarrow> f_val F64 v < - c * 2 ^ f_scale F64" using neg assms by (simp add: f_less_def)
  show "f_trunc_int F64 v \<le> - c" if "f_less F64 v (d_const (- c))" using that iff less by simp
  show "- c \<le> f_trunc_int F64 v" if n: "\<not> f_less F64 v (d_const (- c))"
  proof (rule ccontr)
    assume "\<not> - c \<le> f_trunc_int F64 v"
    then have "f_val F64 v \<le> - (c + 1) * 2 ^ f_scale F64"
      using f_trunc_le_iff(2) [of "c + 1" F64 v] assms(3) by simp
    also have "\<dots> < - c * 2 ^ f_scale F64" by (simp add: algebra_simps)
    finally show False using n less by simp
  qed
qed

lemma const_less_iff:
  assumes "\<not> f_is_nan F64 v"
  shows "f_less F64 v (d_const (- (2 ^ 63))) \<longleftrightarrow> f_trunc_int F64 v < - (2 ^ 63)"
  using f_trunc_less_iff [of "2 ^ 63" F64 v] d_const_exact [of "- (2 ^ 63)" 1 63] assms
  by (simp add: f_less_def F64_def)

lemmas const_2_31 = const_le_iff [of 2147483648 1 31, simplified]
lemmas const_2_31' = const_le_iff [of 2147483649 2147483649 0, simplified]
lemmas const_2_32 = const_le_iff [of 4294967296 1 32, simplified]
lemmas const_2_63 = const_le_iff [of "2 ^ 63" 1 63, simplified]
lemmas const_2_64 = const_le_iff [of "2 ^ 64" 1 64, simplified]
lemmas const_1 = const_le_iff [of 1 1 0, simplified]

lemma f_eq_self: "f_eq F64 v v \<longleftrightarrow> \<not> f_is_nan F64 v"
  by (simp add: f_eq_def)

text \<open>A conversion to the integers from \<open>lo\<close> to \<open>hi\<close>.\<close>

definition integer_conversion ::
    "int \<Rightarrow> int \<Rightarrow> ('a::len word \<Rightarrow> turbowasm_value) \<Rightarrow> int option \<Rightarrow>
     turbowasm_status \<times> turbowasm_trap \<times> turbowasm_value option" where
  "integer_conversion lo hi mk x =
     (case x of
        None \<Rightarrow> (TURBOWASM_TRAPPED, TURBOWASM_TRAP_INVALID_CONVERSION_TO_INTEGER, None)
      | Some t \<Rightarrow>
          if lo \<le> t \<and> t \<le> hi then (TURBOWASM_OK, TURBOWASM_TRAP_NONE, Some (mk (word_of_int t)))
          else (TURBOWASM_TRAPPED, TURBOWASM_TRAP_INTEGER_OVERFLOW, None))"

lemma integer_conversion_same:
  "same_trunc t t' \<Longrightarrow> - (2 ^ 63) \<le> lo \<Longrightarrow> hi < 2 ^ 64 \<Longrightarrow> integer_conversion lo hi mk (Some t) = integer_conversion lo hi mk (Some t')"
  by (auto simp: integer_conversion_def same_trunc_def)

definition trapping_range :: "u8 \<Rightarrow> (int \<times> int)" where
  "trapping_range opcode =
     (if opcode \<in> {0xa8, 0xaa} then (- (2 ^ 31), 2 ^ 31 - 1)
      else if opcode \<in> {0xa9, 0xab} then (0, 2 ^ 32 - 1)
      else if opcode \<in> {0xae, 0xb0} then (- (2 ^ 63), 2 ^ 63 - 1)
      else (0, 2 ^ 64 - 1))"

lemma trapping_result:
  "op \<in> {0xa8, 0xa9, 0xaa, 0xab} \<Longrightarrow> \<not> f_is_nan F64 v \<Longrightarrow> bridge_result (trapping_conversion op v) =
     integer_conversion (fst (trapping_range op)) (snd (trapping_range op)) VALUE_I32 (Some (f_trunc_int F64 v))"
  "op \<in> {0xae, 0xaf, 0xb0, 0xb1} \<Longrightarrow> \<not> f_is_nan F64 v \<Longrightarrow> bridge_result (trapping_conversion op v) =
     integer_conversion (fst (trapping_range op)) (snd (trapping_range op)) VALUE_I64 (Some (f_trunc_int F64 v))"
  by (auto simp: trapping_conversion_cases f_eq_self const_2_31 const_2_31' const_2_32 const_2_63 const_2_64 const_1
      const_less_iff [simplified] bridge_result_def integer_conversion_def trapping_range_def)

lemma jit_trapping:
  assumes "0xa8 \<le> n \<and> n < 0xac \<or> 0xae \<le> n \<and> n < 0xb2"
    and "value_kind v = Some (if n \<in> {0xa8, 0xa9, 0xae, 0xaf} then TURBOWASM_VALUE_F32 else TURBOWASM_VALUE_F64)"
  shows "turbowasm_jit_numeric env grant (int n) [v] = bridge_result (trapping_conversion (of_nat n) (conversion_value env v))"
proof -
  have "n \<in> {0xa8, 0xa9, 0xaa, 0xab} \<or> n \<in> {0xae, 0xaf, 0xb0, 0xb1}"
    using assms(1) in_upt [of "0xa8" n "0xac"] in_upt [of "0xae" n "0xb2"] by (auto simp: upt_rec_numeral)
  then have e: "turbowasm_exec_trapping_conversion env grant (of_nat n) (bridge_stack [v]) =
      exec_finish grant (bridge_stack []) (trapping_conversion (of_nat n) (conversion_value env v))"
    using assms(2) by (auto simp: turbowasm_exec_trapping_conversion_def exec_pop1_top)
  have sg: "turbowasm_numeric_signature_get n =
      Some (numeric_signature (fst (conversion_types ! (n - 0xa7))) (snd (conversion_types ! (n - 0xa7))) 1)"
    using assms(1) by (auto simp: turbowasm_numeric_signature_get_def)
  have "numeric_dispatch env grant n (bridge_stack [v]) = turbowasm_exec_trapping_conversion env grant (of_nat n) (bridge_stack [v])"
    using assms(1) by (auto simp: numeric_dispatch_def Let_def)
  then show ?thesis using assms(1) e by (intro jit_numeric_result [OF sg]) (auto simp: numeric_signature_def)
qed

lemma trapping_conversion_result:
  assumes "promotes_nan env" "is_float v"
  shows "op \<in> {0xa8, 0xa9, 0xaa, 0xab} \<Longrightarrow> bridge_result (trapping_conversion op (conversion_value env v)) =
     integer_conversion (fst (trapping_range op)) (snd (trapping_range op)) VALUE_I32 (float_trunc v)"
    "op \<in> {0xae, 0xaf, 0xb0, 0xb1} \<Longrightarrow> bridge_result (trapping_conversion op (conversion_value env v)) =
     integer_conversion (fst (trapping_range op)) (snd (trapping_range op)) VALUE_I64 (float_trunc v)"
proof -
  have r: "- (2 ^ 63) \<le> fst (trapping_range op)" "snd (trapping_range op) < 2 ^ 64" for op
    by (simp_all add: trapping_range_def)
  show "bridge_result (trapping_conversion op (conversion_value env v)) =
     integer_conversion (fst (trapping_range op)) (snd (trapping_range op)) VALUE_I32 (float_trunc v)"
    if op: "op \<in> {0xa8, 0xa9, 0xaa, 0xab}"
  proof (cases "float_trunc v")
    case None
    then show ?thesis using conversion_nan [OF assms] op
      by (auto simp: trapping_conversion_cases f_eq_self bridge_result_def integer_conversion_def)
  next
    case (Some t)
    then have "\<not> f_is_nan F64 (conversion_value env v)" using conversion_nan [OF assms] by simp
    from trapping_result(1) [OF op this] show ?thesis
      unfolding Some by (rule trans) (rule integer_conversion_same [OF conversion_trunc [OF Some] r, symmetric])
  qed
  show "bridge_result (trapping_conversion op (conversion_value env v)) =
     integer_conversion (fst (trapping_range op)) (snd (trapping_range op)) VALUE_I64 (float_trunc v)"
    if op: "op \<in> {0xae, 0xaf, 0xb0, 0xb1}"
  proof (cases "float_trunc v")
    case None
    then show ?thesis using conversion_nan [OF assms] op
      by (auto simp: trapping_conversion_cases f_eq_self bridge_result_def integer_conversion_def)
  next
    case (Some t)
    then have "\<not> f_is_nan F64 (conversion_value env v)" using conversion_nan [OF assms] by simp
    from trapping_result(2) [OF op this] show ?thesis
      unfolding Some by (rule trans) (rule integer_conversion_same [OF conversion_trunc [OF Some] r, symmetric])
  qed
qed

lemma jit_trapping_conversion:
  assumes "promotes_nan env"
    and "value_kind v = Some (if n \<in> {0xa8, 0xa9, 0xae, 0xaf} then TURBOWASM_VALUE_F32 else TURBOWASM_VALUE_F64)"
  shows "n \<in> {0xa8, 0xa9, 0xaa, 0xab} \<Longrightarrow> turbowasm_jit_numeric env grant (int n) [v] =
      integer_conversion (fst (trapping_range (of_nat n))) (snd (trapping_range (of_nat n))) VALUE_I32 (float_trunc v)"
    "n \<in> {0xae, 0xaf, 0xb0, 0xb1} \<Longrightarrow> turbowasm_jit_numeric env grant (int n) [v] =
      integer_conversion (fst (trapping_range (of_nat n))) (snd (trapping_range (of_nat n))) VALUE_I64 (float_trunc v)"
proof -
  have f: "is_float v" using assms(2) by (simp add: is_float_def split: if_splits)
  show "turbowasm_jit_numeric env grant (int n) [v] =
      integer_conversion (fst (trapping_range (of_nat n))) (snd (trapping_range (of_nat n))) VALUE_I32 (float_trunc v)"
    if n: "n \<in> {0xa8, 0xa9, 0xaa, 0xab}"
  proof -
    have "0xa8 \<le> n \<and> n < 0xac \<or> 0xae \<le> n \<and> n < 0xb2" "(of_nat n :: u8) \<in> {0xa8, 0xa9, 0xaa, 0xab}" using n by auto
    then show ?thesis using jit_trapping [OF _ assms(2)] trapping_conversion_result(1) [OF assms(1) f] by simp
  qed
  show "turbowasm_jit_numeric env grant (int n) [v] =
      integer_conversion (fst (trapping_range (of_nat n))) (snd (trapping_range (of_nat n))) VALUE_I64 (float_trunc v)"
    if n: "n \<in> {0xae, 0xaf, 0xb0, 0xb1}"
  proof -
    have "0xa8 \<le> n \<and> n < 0xac \<or> 0xae \<le> n \<and> n < 0xb2" "(of_nat n :: u8) \<in> {0xae, 0xaf, 0xb0, 0xb1}" using n by auto
    then show ?thesis using jit_trapping [OF _ assms(2)] trapping_conversion_result(2) [OF assms(1) f] by simp
  qed
qed

text \<open>
  C13. The trapping conversions: a NaN traps as an invalid conversion; any other operand, rounded toward
  zero, is returned exactly when it is in the range of the target type and traps as overflow otherwise. This holds for
  the signed and unsigned targets of both widths, from single and double, although the sources compare the operand
  with rounded constants and widen a single first.
\<close>

theorem trapping_conversion_correct:
  assumes "promotes_nan env"
  shows
   "turbowasm_jit_numeric env grant 0xa8 [VALUE_F32 x] = integer_conversion (- (2 ^ 31)) (2 ^ 31 - 1) VALUE_I32 (float_trunc (VALUE_F32 x)) \<and>
    turbowasm_jit_numeric env grant 0xa9 [VALUE_F32 x] = integer_conversion 0 (2 ^ 32 - 1) VALUE_I32 (float_trunc (VALUE_F32 x)) \<and>
    turbowasm_jit_numeric env grant 0xaa [VALUE_F64 y] = integer_conversion (- (2 ^ 31)) (2 ^ 31 - 1) VALUE_I32 (float_trunc (VALUE_F64 y)) \<and>
    turbowasm_jit_numeric env grant 0xab [VALUE_F64 y] = integer_conversion 0 (2 ^ 32 - 1) VALUE_I32 (float_trunc (VALUE_F64 y)) \<and>
    turbowasm_jit_numeric env grant 0xae [VALUE_F32 x] = integer_conversion (- (2 ^ 63)) (2 ^ 63 - 1) VALUE_I64 (float_trunc (VALUE_F32 x)) \<and>
    turbowasm_jit_numeric env grant 0xaf [VALUE_F32 x] = integer_conversion 0 (2 ^ 64 - 1) VALUE_I64 (float_trunc (VALUE_F32 x)) \<and>
    turbowasm_jit_numeric env grant 0xb0 [VALUE_F64 y] = integer_conversion (- (2 ^ 63)) (2 ^ 63 - 1) VALUE_I64 (float_trunc (VALUE_F64 y)) \<and>
    turbowasm_jit_numeric env grant 0xb1 [VALUE_F64 y] = integer_conversion 0 (2 ^ 64 - 1) VALUE_I64 (float_trunc (VALUE_F64 y))"
  using jit_trapping_conversion [OF assms, where n = "0xa8" and v = "VALUE_F32 x" and grant = grant]
    jit_trapping_conversion [OF assms, where n = "0xa9" and v = "VALUE_F32 x" and grant = grant]
    jit_trapping_conversion [OF assms, where n = "0xaa" and v = "VALUE_F64 y" and grant = grant]
    jit_trapping_conversion [OF assms, where n = "0xab" and v = "VALUE_F64 y" and grant = grant]
    jit_trapping_conversion [OF assms, where n = "0xae" and v = "VALUE_F32 x" and grant = grant]
    jit_trapping_conversion [OF assms, where n = "0xaf" and v = "VALUE_F32 x" and grant = grant]
    jit_trapping_conversion [OF assms, where n = "0xb0" and v = "VALUE_F64 y" and grant = grant]
    jit_trapping_conversion [OF assms, where n = "0xb1" and v = "VALUE_F64 y" and grant = grant]
  by (simp add: trapping_range_def)

theorem trapping_conversion_correct_witness:
  "promotes_nan sample_float_env \<and>
   turbowasm_jit_numeric sample_float_env (\<lambda>_. False) 0xa8 [VALUE_F32 0xbfc00000] =
     (TURBOWASM_OK, TURBOWASM_TRAP_NONE, Some (VALUE_I32 0xffffffff))"
proof -
  have p: "promotes_nan sample_float_env"
    by (simp add: promotes_nan_def sample_float_env_def f_is_nan_def f_infinity_def f_abs_def f_sign_bit_def F64_def)
  have "float_trunc (VALUE_F32 0xbfc00000) = Some (- 1)"
    by (simp add: float_trunc_def f_is_nan_def f_infinity_def f_abs_def f_sign_bit_def f_trunc_int_def f_neg_def f_mag_def f_exp_def
        f_frac_def f_scale_def F32_def)
  then show ?thesis
    using trapping_conversion_correct [OF p, of "\<lambda>_. False" "0xbfc00000"] p by (simp add: integer_conversion_def)
qed

end
