(* ===== verification/TW_Numeric_Conversions.thy ===== *)
theory TW_Numeric_Conversions
  imports TW_Numeric_Laws
begin

text \<open>
  The conversions that cannot trap: saturating truncation clamps to the range of the target type, and the sign extension
  operators are those of the word library.
\<close>

subsection \<open>Saturating truncation\<close>

definition saturated_conversion ::
    "int \<Rightarrow> int \<Rightarrow> ('a::len word \<Rightarrow> turbowasm_value) \<Rightarrow> int option \<Rightarrow>
     turbowasm_status \<times> turbowasm_trap \<times> turbowasm_value option" where
  "saturated_conversion lo hi mk x =
     (TURBOWASM_OK, TURBOWASM_TRAP_NONE,
      Some (mk (case x of None \<Rightarrow> 0 | Some t \<Rightarrow> word_of_int (max lo (min hi t)))))"

lemma saturated_conversion_same:
  "same_trunc t t' \<Longrightarrow> - (2 ^ 63) \<le> lo \<Longrightarrow> lo \<le> hi \<Longrightarrow> hi < 2 ^ 64 \<Longrightarrow>
     saturated_conversion lo hi mk (Some t) = saturated_conversion lo hi mk (Some t')"
  by (auto simp: saturated_conversion_def same_trunc_def max_def min_def)

lemma trunc_sat_cases:
  "m = 0 \<or> m = 2 \<Longrightarrow> trunc_sat m v = NumValue (VALUE_I32
     (if f_is_nan F64 v then 0
      else if f_less F64 v (d_const (- 2147483648)) then 0x80000000
      else if f_le F64 (d_const 2147483648) v then 0x7fffffff
      else word_of_int (f_trunc_int F64 v)))"
  "m = 1 \<or> m = 3 \<Longrightarrow> trunc_sat m v = NumValue (VALUE_I32
     (if f_is_nan F64 v then 0
      else if f_le F64 v (d_const (- 1)) then 0
      else if f_le F64 (d_const 4294967296) v then U32_MAX
      else word_of_int (f_trunc_int F64 v)))"
  "m = 4 \<or> m = 6 \<Longrightarrow> trunc_sat m v = NumValue (VALUE_I64
     (if f_is_nan F64 v then 0
      else if f_less F64 v (d_const (- (2 ^ 63))) then 0x8000000000000000
      else if f_le F64 (d_const (2 ^ 63)) v then 0x7fffffffffffffff
      else word_of_int (f_trunc_int F64 v)))"
  "m = 5 \<or> m = 7 \<Longrightarrow> trunc_sat m v = NumValue (VALUE_I64
     (if f_is_nan F64 v then 0
      else if f_le F64 v (d_const (- 1)) then 0
      else if f_le F64 (d_const (2 ^ 64)) v then U64_MAX
      else word_of_int (f_trunc_int F64 v)))"
  by (elim disjE; simp add: trunc_sat_def f_eq_self)+

lemma clamp_signed:
  fixes t c :: int
  assumes "is_low \<Longrightarrow> t \<le> - c" "\<not> is_low \<Longrightarrow> - c \<le> t" "is_high \<longleftrightarrow> c \<le> t" "0 < c"
    and "lo = word_of_int (- c)" "hi = word_of_int (c - 1)"
  shows "(if is_low then lo else if is_high then hi else word_of_int t) = word_of_int (max (- c) (min (c - 1) t))"
proof -
  have "max (- c) (min (c - 1) t) = (if is_low then - c else if is_high then c - 1 else t)"
    using assms(1-4) by (auto simp: max_def min_def)
  then show ?thesis using assms(5,6) by simp
qed

lemma clamp_unsigned:
  fixes t c :: int
  assumes "is_low \<longleftrightarrow> t \<le> - 1" "is_high \<longleftrightarrow> c \<le> t" "0 < c" and "hi = word_of_int (c - 1)"
  shows "(if is_low then 0 else if is_high then hi else word_of_int t) = word_of_int (max 0 (min (c - 1) t))"
proof -
  have "max 0 (min (c - 1) t) = (if is_low then 0 else if is_high then c - 1 else t)"
    using assms(1-3) by (auto simp: max_def min_def)
  then show ?thesis using assms(4) by simp
qed

lemma trunc_sat_values:
  assumes n: "\<not> f_is_nan F64 v"
  shows "m = 0 \<or> m = 2 \<Longrightarrow> trunc_sat m v = NumValue (VALUE_I32 (word_of_int (max (- (2 ^ 31)) (min (2 ^ 31 - 1) (f_trunc_int F64 v)))))"
    "m = 1 \<or> m = 3 \<Longrightarrow> trunc_sat m v = NumValue (VALUE_I32 (word_of_int (max 0 (min (2 ^ 32 - 1) (f_trunc_int F64 v)))))"
    "m = 4 \<or> m = 6 \<Longrightarrow> trunc_sat m v = NumValue (VALUE_I64 (word_of_int (max (- (2 ^ 63)) (min (2 ^ 63 - 1) (f_trunc_int F64 v)))))"
    "m = 5 \<or> m = 7 \<Longrightarrow> trunc_sat m v = NumValue (VALUE_I64 (word_of_int (max 0 (min (2 ^ 64 - 1) (f_trunc_int F64 v)))))"
  by (simp_all only: trunc_sat_cases n if_False numeric_outcome.inject turbowasm_value.inject)
     (rule clamp_signed clamp_unsigned; use const_2_31 [OF n] const_2_63 [OF n] const_1 [OF n] const_2_32 [OF n] const_2_64 [OF n] in simp)+

lemma trunc_sat_nan:
  assumes "f_is_nan F64 v"
  shows "m \<in> {0, 1, 2, 3} \<Longrightarrow> trunc_sat m v = NumValue (VALUE_I32 0)" "m \<in> {4, 5, 6, 7} \<Longrightarrow> trunc_sat m v = NumValue (VALUE_I64 0)"
  using assms by (auto simp: trunc_sat_def f_eq_self)

lemma jit_saturating:
  assumes "n < 8" and "value_kind v = Some (if (n div 2) mod 2 = 0 then TURBOWASM_VALUE_F32 else TURBOWASM_VALUE_F64)"
  shows "turbowasm_jit_numeric env grant (int (0x100 + n)) [v] = bridge_result (trunc_sat (of_nat n) (conversion_value env v))"
proof -
  have n: "(of_nat n :: u32) \<le> 1 \<longleftrightarrow> n < 2" "(of_nat n :: u32) \<le> 5 \<longleftrightarrow> n < 6"
    "4 \<le> (of_nat n :: u32) \<longleftrightarrow> 4 \<le> n" "(of_nat n :: u32) \<le> 7"
    using assms(1) by (auto simp: word_le_nat_alt unat_of_nat)
  have "(n div 2) mod 2 = 0 \<longleftrightarrow> n < 2 \<or> 4 \<le> n \<and> n < 6" using assms(1) by presburger
  then have e: "turbowasm_exec_trunc_sat env grant (of_nat n) (bridge_stack [v]) =
      exec_finish grant (bridge_stack []) (trunc_sat (of_nat n) (conversion_value env v))"
    using assms(2) by (auto simp: turbowasm_exec_trunc_sat_def n exec_pop1_top)
  have sg: "turbowasm_numeric_signature_get (0x100 + n) =
      Some (numeric_signature (if (n div 2) mod 2 = 0 then 0x7d else 0x7c) (if n < 4 then 0x7f else 0x7e) 1)"
    using assms(1) by (simp add: turbowasm_numeric_signature_get_def)
  show ?thesis
    by (rule jit_numeric_result [OF sg]) (use assms(1) e in \<open>simp_all add: numeric_signature_def numeric_dispatch_def\<close>)
qed

lemma jit_saturated_conversion:
  assumes "promotes_nan env" "n < 8" "- (2 ^ 63) \<le> lo" "lo \<le> hi" "hi < 2 ^ 64"
    and v: "value_kind v = Some (if (n div 2) mod 2 = 0 then TURBOWASM_VALUE_F32 else TURBOWASM_VALUE_F64)"
    and nan: "\<And>w. f_is_nan F64 w \<Longrightarrow> trunc_sat (of_nat n) w = NumValue (mk 0)"
    and sat: "\<And>w. \<not> f_is_nan F64 w \<Longrightarrow> trunc_sat (of_nat n) w = NumValue (mk (word_of_int (max lo (min hi (f_trunc_int F64 w)))))"
  shows "turbowasm_jit_numeric env grant (int (0x100 + n)) [v] = saturated_conversion lo hi mk (float_trunc v)"
proof -
  have f: "is_float v" using v by (simp add: is_float_def split: if_splits)
  show ?thesis
  proof (cases "float_trunc v")
    case None
    then have "f_is_nan F64 (conversion_value env v)" using conversion_nan [OF assms(1) f] by simp
    then show ?thesis using None by (simp only: jit_saturating [OF assms(2) v] nan) (simp add: bridge_result_def saturated_conversion_def)
  next
    case (Some t)
    then have n: "\<not> f_is_nan F64 (conversion_value env v)" using conversion_nan [OF assms(1) f] by simp
    have "turbowasm_jit_numeric env grant (int (0x100 + n)) [v] =
        saturated_conversion lo hi mk (Some (f_trunc_int F64 (conversion_value env v)))"
      by (simp only: jit_saturating [OF assms(2) v] sat [OF n]) (simp add: bridge_result_def saturated_conversion_def)
    also have "\<dots> = saturated_conversion lo hi mk (Some t)"
      by (rule saturated_conversion_same [OF conversion_trunc [OF Some] assms(3-5), symmetric])
    finally show ?thesis by (simp only: Some)
  qed
qed

text \<open>
  C14. The saturating conversions never trap: a NaN gives zero, and any other operand, rounded toward zero, is
  clamped to the range of the target type; for all eight combinations of source, width and signedness.
\<close>

theorem saturating_conversion_correct:
  assumes "promotes_nan env"
  shows
   "turbowasm_jit_numeric env grant 0x100 [VALUE_F32 x] = saturated_conversion (- (2 ^ 31)) (2 ^ 31 - 1) VALUE_I32 (float_trunc (VALUE_F32 x)) \<and>
    turbowasm_jit_numeric env grant 0x101 [VALUE_F32 x] = saturated_conversion 0 (2 ^ 32 - 1) VALUE_I32 (float_trunc (VALUE_F32 x)) \<and>
    turbowasm_jit_numeric env grant 0x102 [VALUE_F64 y] = saturated_conversion (- (2 ^ 31)) (2 ^ 31 - 1) VALUE_I32 (float_trunc (VALUE_F64 y)) \<and>
    turbowasm_jit_numeric env grant 0x103 [VALUE_F64 y] = saturated_conversion 0 (2 ^ 32 - 1) VALUE_I32 (float_trunc (VALUE_F64 y)) \<and>
    turbowasm_jit_numeric env grant 0x104 [VALUE_F32 x] = saturated_conversion (- (2 ^ 63)) (2 ^ 63 - 1) VALUE_I64 (float_trunc (VALUE_F32 x)) \<and>
    turbowasm_jit_numeric env grant 0x105 [VALUE_F32 x] = saturated_conversion 0 (2 ^ 64 - 1) VALUE_I64 (float_trunc (VALUE_F32 x)) \<and>
    turbowasm_jit_numeric env grant 0x106 [VALUE_F64 y] = saturated_conversion (- (2 ^ 63)) (2 ^ 63 - 1) VALUE_I64 (float_trunc (VALUE_F64 y)) \<and>
    turbowasm_jit_numeric env grant 0x107 [VALUE_F64 y] = saturated_conversion 0 (2 ^ 64 - 1) VALUE_I64 (float_trunc (VALUE_F64 y))"
proof -
  show ?thesis
    using jit_saturated_conversion [OF assms, of 0 "- (2 ^ 31)" "2 ^ 31 - 1" "VALUE_F32 x" VALUE_I32 grant]
      jit_saturated_conversion [OF assms, of 1 0 "2 ^ 32 - 1" "VALUE_F32 x" VALUE_I32 grant]
      jit_saturated_conversion [OF assms, of 2 "- (2 ^ 31)" "2 ^ 31 - 1" "VALUE_F64 y" VALUE_I32 grant]
      jit_saturated_conversion [OF assms, of 3 0 "2 ^ 32 - 1" "VALUE_F64 y" VALUE_I32 grant]
      jit_saturated_conversion [OF assms, of 4 "- (2 ^ 63)" "2 ^ 63 - 1" "VALUE_F32 x" VALUE_I64 grant]
      jit_saturated_conversion [OF assms, of 5 0 "2 ^ 64 - 1" "VALUE_F32 x" VALUE_I64 grant]
      jit_saturated_conversion [OF assms, of 6 "- (2 ^ 63)" "2 ^ 63 - 1" "VALUE_F64 y" VALUE_I64 grant]
      jit_saturated_conversion [OF assms, of 7 0 "2 ^ 64 - 1" "VALUE_F64 y" VALUE_I64 grant]
    by (simp add: trunc_sat_values trunc_sat_nan)
qed

theorem saturating_conversion_correct_witness:
  "promotes_nan sample_float_env \<and>
   turbowasm_jit_numeric sample_float_env (\<lambda>_. False) 0x101 [VALUE_F32 0xbfc00000] =
     (TURBOWASM_OK, TURBOWASM_TRAP_NONE, Some (VALUE_I32 0))"
proof -
  have p: "promotes_nan sample_float_env"
    by (simp add: promotes_nan_def sample_float_env_def f_is_nan_def f_infinity_def f_abs_def f_sign_bit_def F64_def)
  have "float_trunc (VALUE_F32 0xbfc00000) = Some (- 1)"
    by (simp add: float_trunc_def f_is_nan_def f_infinity_def f_abs_def f_sign_bit_def f_trunc_int_def f_neg_def f_mag_def f_exp_def
        f_frac_def f_scale_def F32_def)
  then show ?thesis
    using saturating_conversion_correct [OF p, of "\<lambda>_. False" "0xbfc00000"] p by (simp add: saturated_conversion_def)
qed

subsection \<open>Sign extension\<close>

lemma sign_extension:
  fixes x m s :: "'a::len word"
  assumes "Suc n \<le> LENGTH('a)" "m = mask (Suc n)" "s = push_bit n 1"
  shows "(if (x AND m) AND s \<noteq> 0 then (x AND m) OR NOT m else x AND m) = signed_take_bit n x"
proof -
  have "bit ((x AND m) AND s) i \<longleftrightarrow> i = n \<and> bit x n" for i
    using assms by (auto simp: bit_and_iff bit_mask_iff bit_exp_iff)
  then have t: "(x AND m) AND s \<noteq> 0 \<longleftrightarrow> bit x n" by (metis bit_0_eq bit_eqI bot_apply bot_bool_def)
  show ?thesis
  proof (rule bit_eqI)
    fix i assume "possible_bit TYPE('a word) i"
    then have "i < LENGTH('a)" by simp
    then show "bit (if (x AND m) AND s \<noteq> 0 then (x AND m) OR NOT m else x AND m) i = bit (signed_take_bit n x) i"
      using assms(2) unfolding t
      by (cases "i \<le> n") (auto simp: bit_and_iff bit_or_iff bit_not_iff bit_mask_iff bit_signed_take_bit_iff min_def)
  qed
qed

lemma sign_extend32: "1 \<le> w \<Longrightarrow> w \<le> 32 \<Longrightarrow> turbowasm_sign_extend_u32 x w = signed_take_bit (w - 1) x"
proof -
  assume w: "1 \<le> w" "w \<le> 32"
  have "(if w = 32 then U32_MAX else push_bit w 1 - 1) = (mask (Suc (w - 1)) :: u32)"
    using w by (simp add: mask_eq_exp_minus_1 push_bit_eq_mult)
  then show ?thesis using sign_extension [of "w - 1" _ _ x] w by (simp add: turbowasm_sign_extend_u32_def Let_def)
qed

lemma sign_extend64: "1 \<le> w \<Longrightarrow> w \<le> 64 \<Longrightarrow> turbowasm_sign_extend_u64 x w = signed_take_bit (w - 1) x"
proof -
  assume w: "1 \<le> w" "w \<le> 64"
  have "(if w = 64 then U64_MAX else push_bit w 1 - 1) = (mask (Suc (w - 1)) :: u64)"
    using w by (simp add: mask_eq_exp_minus_1 push_bit_eq_mult)
  then show ?thesis using sign_extension [of "w - 1" _ _ x] w by (simp add: turbowasm_sign_extend_u64_def Let_def)
qed

lemma jit_extend:
  assumes "n = 0xc0 \<or> n = 0xc1 \<or> n = 0xc2 \<or> n = 0xc3 \<or> n = 0xc4"
    and "value_kind v = Some (if n < 0xc2 then TURBOWASM_VALUE_I32 else TURBOWASM_VALUE_I64)"
  shows "turbowasm_jit_numeric env grant (int n) [v] = bridge_result (nontrapping_conversion env (of_nat n) v)"
proof -
  have sg: "turbowasm_numeric_signature_get n =
      Some (numeric_signature (fst (conversion_types ! (n - 0xa7))) (snd (conversion_types ! (n - 0xa7))) 1)"
    using assms(1) by (auto simp: turbowasm_numeric_signature_get_def)
  have "conversion_source (of_nat n) = value_kind v" using assms by (auto simp: conversion_source_def)
  then have "numeric_dispatch env grant n (bridge_stack [v]) = exec_finish grant (bridge_stack []) (nontrapping_conversion env (of_nat n) v)"
    using assms by (auto simp: numeric_dispatch_def Let_def turbowasm_exec_nontrapping_conversion_def exec_pop1_top)
  then show ?thesis using assms(1) by (intro jit_numeric_result [OF sg]) (auto simp: numeric_signature_def)
qed

text \<open>
  C17. The sign extension operators copy bit 7, 15 or 31 of the operand into all higher bits and keep the lower
  ones, for 32-bit and 64-bit operands.
\<close>

theorem sign_extension_correct:
  "turbowasm_jit_numeric env grant 0xc0 [VALUE_I32 x] = (TURBOWASM_OK, TURBOWASM_TRAP_NONE, Some (VALUE_I32 (signed_take_bit 7 x))) \<and>
   turbowasm_jit_numeric env grant 0xc1 [VALUE_I32 x] = (TURBOWASM_OK, TURBOWASM_TRAP_NONE, Some (VALUE_I32 (signed_take_bit 15 x))) \<and>
   turbowasm_jit_numeric env grant 0xc2 [VALUE_I64 y] = (TURBOWASM_OK, TURBOWASM_TRAP_NONE, Some (VALUE_I64 (signed_take_bit 7 y))) \<and>
   turbowasm_jit_numeric env grant 0xc3 [VALUE_I64 y] = (TURBOWASM_OK, TURBOWASM_TRAP_NONE, Some (VALUE_I64 (signed_take_bit 15 y))) \<and>
   turbowasm_jit_numeric env grant 0xc4 [VALUE_I64 y] = (TURBOWASM_OK, TURBOWASM_TRAP_NONE, Some (VALUE_I64 (signed_take_bit 31 y)))"
  using jit_extend [of "0xc0" "VALUE_I32 x" env grant] jit_extend [of "0xc1" "VALUE_I32 x" env grant]
    jit_extend [of "0xc2" "VALUE_I64 y" env grant] jit_extend [of "0xc3" "VALUE_I64 y" env grant]
    jit_extend [of "0xc4" "VALUE_I64 y" env grant]
  by (simp add: nontrapping_conversion_def bridge_result_def sign_extend32 sign_extend64)

end
