(* ===== verification/TW_Memory.thy ===== *)
theory TW_Memory
  imports TW_Value TW_Numeric "HOL-Library.Monad_Syntax"
begin

text \<open>
  Linear memories: \<^verbatim>\<open>src/src/instance_state.c\<close> from \<^verbatim>\<open>turbowasm_instance_memory_storage_init\<close> to \<^verbatim>\<open>turbowasm_instance_memory_fill\<close>, the atomic
  accesses and their descriptor table of \<^verbatim>\<open>src/src/atomic.c\<close>. Instances live in a heap indexed by address; of an instance the
  model keeps the fields that these operations use. A memory is named by the instance that defines it and
  its index there, so two imports of one memory are the same pair.

  A lookup follows the chain of imports and need not end for an arbitrary heap; it is a partial function, and
  every operation on a memory is inside the option of its result. Addresses, offsets and sizes are
  64-bit words; \<^verbatim>\<open>size_t\<close> has 64 bits, so \<^verbatim>\<open>SIZE_MAX\<close> is \<open>U64_MAX\<close>. The bytes of a memory are a list, empty for the NULL
  pointer. The locks serialise accesses from several threads: an operation here is one critical section. The
  parameters of the model are what the allocator and the lock library grant.
\<close>

subsection \<open>State\<close>

record turbowasm_memory_waiter =
  waiter_address :: u64
  waiter_active :: bool
  waiter_notified :: bool

record turbowasm_instance_memory =
  mem_data :: "u8 list"
  mem_waiters :: "turbowasm_memory_waiter list"
  mem_waiter_count :: u32
  mem_pages :: u64
  mem_maximum_pages :: u64
  mem_page_size :: u32
  mem_resource_max_bytes :: u64
  mem_has_maximum :: bool
  mem_shared :: bool
  mem_memory64 :: bool
  mem_access_lock_initialized :: bool
  mem_waiter_mutex_initialized :: bool
  mem_storage_initialized :: bool

record turbowasm_validation_memory_limits =
  limits_minimum :: u64
  limits_maximum :: u64
  limits_has_maximum :: bool

record turbowasm_validation_memory =
  vmem_imported :: bool
  vmem_shared :: bool
  vmem_memory64 :: bool
  vmem_page_size :: u32
  vmem_limits :: turbowasm_validation_memory_limits

text \<open>Of the loaded module: its memory types, its data segments and the configured limit.\<close>

record turbowasm_module_memories =
  val_memories :: "turbowasm_validation_memory list"
  val_data_segments :: "u8 list list"
  max_linear_memory_bytes :: u64

record turbowasm_instance_impl =
  inst_module :: "turbowasm_module_memories option"
  inst_memories :: "turbowasm_instance_memory list"
  linked_memories :: "(addr option \<times> nat) list"
  data_segment_dropped :: "bool list"

type_synonym instance_heap = "addr \<Rightarrow> turbowasm_instance_impl"
type_synonym memory_id = "addr \<times> nat"

abbreviation memory_count :: "turbowasm_instance_impl \<Rightarrow> nat" where
  "memory_count inst \<equiv> length (inst_memories inst)"

subsection \<open>Lookup\<close>

partial_function (option) turbowasm_instance_memory_resolve :: "instance_heap \<Rightarrow> addr \<Rightarrow> nat \<Rightarrow> memory_id option option" where
  "turbowasm_instance_memory_resolve h i k =
     (if k \<ge> memory_count (h i) then Some None
      else case inst_module (h i) of
        None \<Rightarrow> Some None
      | Some m \<Rightarrow>
          if k \<ge> length (val_memories m) then Some None
          else if \<not> vmem_imported (val_memories m ! k) then Some (Some (i, k))
          else if k \<ge> length (linked_memories (h i)) then Some None
          else case fst (linked_memories (h i) ! k) of
            None \<Rightarrow> Some None
          | Some provider \<Rightarrow> turbowasm_instance_memory_resolve h provider (snd (linked_memories (h i) ! k)))"

definition turbowasm_instance_memory_same :: "instance_heap \<Rightarrow> addr \<Rightarrow> nat \<Rightarrow> addr \<Rightarrow> nat \<Rightarrow> bool option" where
  "turbowasm_instance_memory_same h left left_index right right_index =
     do { m \<leftarrow> turbowasm_instance_memory_resolve h left left_index;
          if m = None then Some False
          else do { m' \<leftarrow> turbowasm_instance_memory_resolve h right right_index; Some (m = m') } }"

definition mem_at :: "instance_heap \<Rightarrow> memory_id \<Rightarrow> turbowasm_instance_memory" where
  "mem_at h x = inst_memories (h (fst x)) ! snd x"

definition mem_put :: "instance_heap \<Rightarrow> memory_id \<Rightarrow> turbowasm_instance_memory \<Rightarrow> instance_heap" where
  "mem_put h x m = h(fst x := (h (fst x))\<lparr>inst_memories := (inst_memories (h (fst x)))[snd x := m]\<rparr>)"

text \<open>The argument check and the lookup that open every operation: a status to return, or the memory.\<close>

definition memory_target :: "instance_heap \<Rightarrow> addr \<Rightarrow> nat \<Rightarrow> (turbowasm_status + memory_id) option" where
  "memory_target h i k =
     (if k \<ge> memory_count (h i) then Some (Inl TURBOWASM_INVALID_ARGUMENT)
      else do { r \<leftarrow> turbowasm_instance_memory_resolve h i k;
                Some (case r of None \<Rightarrow> Inl TURBOWASM_UNSUPPORTED | Some x \<Rightarrow> Inr x) })"

definition turbowasm_instance_memory_shared :: "instance_heap \<Rightarrow> addr \<Rightarrow> nat \<Rightarrow> (turbowasm_status \<times> bool) option" where
  "turbowasm_instance_memory_shared h i k =
     do { t \<leftarrow> memory_target h i k;
          Some (case t of Inl status \<Rightarrow> (status, False) | Inr x \<Rightarrow> (TURBOWASM_OK, mem_shared (mem_at h x))) }"

subsection \<open>Ranges\<close>

abbreviation SIZE_MAX :: u64 where "SIZE_MAX \<equiv> U64_MAX"

definition turbowasm_instance_memory_storage_range ::
    "turbowasm_instance_memory \<Rightarrow> u64 \<Rightarrow> u64 \<Rightarrow> u64 \<Rightarrow> turbowasm_status + nat" where
  "turbowasm_instance_memory_storage_range m address offset width =
     (if \<not> mem_storage_initialized m \<or> mem_page_size m = 0 then Inl TURBOWASM_INVALID_ARGUMENT
      else if address > U64_MAX - offset then Inl TURBOWASM_TRAPPED
      else
        let effective = address + offset in
        if mem_pages m > U64_MAX div ucast (mem_page_size m) then Inl TURBOWASM_TRAPPED
        else
          let n = mem_pages m * ucast (mem_page_size m) in
          if effective > n \<or> width > n - effective \<or> effective > SIZE_MAX \<or> width > SIZE_MAX then Inl TURBOWASM_TRAPPED
          else Inr (unat effective))"

text \<open>A borrowed pointer into the bytes of an unshared memory is the position it points to.\<close>

definition turbowasm_instance_memory_bounds ::
    "instance_heap \<Rightarrow> addr \<Rightarrow> nat \<Rightarrow> u64 \<Rightarrow> u64 \<Rightarrow> u64 \<Rightarrow> (turbowasm_status + memory_id \<times> nat) option" where
  "turbowasm_instance_memory_bounds h i k address offset width =
     do { t \<leftarrow> memory_target h i k;
          Some (case t of
            Inl status \<Rightarrow> Inl status
          | Inr x \<Rightarrow>
              let m = mem_at h x in
              if mem_shared m then Inl TURBOWASM_UNSUPPORTED
              else if address > U64_MAX - offset then Inl TURBOWASM_TRAPPED
              else
                let effective = address + offset in
                if mem_page_size m = 0 \<or> mem_pages m > U64_MAX div ucast (mem_page_size m) then Inl TURBOWASM_TRAPPED
                else
                  let n = mem_pages m * ucast (mem_page_size m) in
                  if effective > n \<or> width > n - effective \<or> effective > SIZE_MAX then Inl TURBOWASM_TRAPPED
                  else Inr (x, unat effective)) }"

definition turbowasm_range_fits :: "u64 \<Rightarrow> u64 \<Rightarrow> u64 \<Rightarrow> bool" where
  "turbowasm_range_fits offset len n \<longleftrightarrow> offset \<le> n \<and> len \<le> n - offset"

subsection \<open>Bytes\<close>

definition mem_store :: "instance_heap \<Rightarrow> memory_id \<Rightarrow> nat \<Rightarrow> u8 list \<Rightarrow> instance_heap" where
  "mem_store h x e bs = mem_put h x ((mem_at h x)\<lparr>mem_data := bytes_put (mem_data (mem_at h x)) e bs\<rparr>)"

definition turbowasm_instance_memory_check_bytes :: "instance_heap \<Rightarrow> addr \<Rightarrow> nat \<Rightarrow> u64 \<Rightarrow> u64 \<Rightarrow> turbowasm_status option" where
  "turbowasm_instance_memory_check_bytes h i k address len =
     do { t \<leftarrow> memory_target h i k;
          Some (case t of
            Inl status \<Rightarrow> status
          | Inr x \<Rightarrow> (case turbowasm_instance_memory_storage_range (mem_at h x) address 0 len of
              Inl status \<Rightarrow> status
            | Inr e \<Rightarrow> TURBOWASM_OK)) }"

definition turbowasm_instance_memory_read_bytes ::
    "instance_heap \<Rightarrow> addr \<Rightarrow> nat \<Rightarrow> u64 \<Rightarrow> u64 \<Rightarrow> nat \<Rightarrow> (turbowasm_status \<times> u8 list) option" where
  "turbowasm_instance_memory_read_bytes h i k address offset width =
     do { t \<leftarrow> memory_target h i k;
          Some (case t of
            Inl status \<Rightarrow> (status, [])
          | Inr x \<Rightarrow> (case turbowasm_instance_memory_storage_range (mem_at h x) address offset (of_nat width) of
              Inl status \<Rightarrow> (status, [])
            | Inr e \<Rightarrow> (TURBOWASM_OK, bytes_get (mem_data (mem_at h x)) e width))) }"

definition turbowasm_instance_memory_write_bytes ::
    "instance_heap \<Rightarrow> addr \<Rightarrow> nat \<Rightarrow> u64 \<Rightarrow> u64 \<Rightarrow> u8 list \<Rightarrow> (turbowasm_status \<times> instance_heap) option" where
  "turbowasm_instance_memory_write_bytes h i k address offset source =
     do { t \<leftarrow> memory_target h i k;
          Some (case t of
            Inl status \<Rightarrow> (status, h)
          | Inr x \<Rightarrow> (case turbowasm_instance_memory_storage_range (mem_at h x) address offset (of_nat (length source)) of
              Inl status \<Rightarrow> (status, h)
            | Inr e \<Rightarrow> (TURBOWASM_OK, if source = [] then h else mem_store h x e source))) }"

definition turbowasm_instance_memory_fill_bytes ::
    "instance_heap \<Rightarrow> addr \<Rightarrow> nat \<Rightarrow> u64 \<Rightarrow> u8 \<Rightarrow> u64 \<Rightarrow> (turbowasm_status \<times> instance_heap) option" where
  "turbowasm_instance_memory_fill_bytes h i k destination v len =
     do { t \<leftarrow> memory_target h i k;
          Some (case t of
            Inl status \<Rightarrow> (status, h)
          | Inr x \<Rightarrow> (case turbowasm_instance_memory_storage_range (mem_at h x) destination 0 len of
              Inl status \<Rightarrow> (status, h)
            | Inr e \<Rightarrow> (TURBOWASM_OK, if len = 0 then h else mem_store h x e (replicate (unat len) v)))) }"

text \<open>The two lookups precede every test; the branches for one memory and for two differ in the locks they take.\<close>

definition turbowasm_instance_memory_copy_bytes ::
    "instance_heap \<Rightarrow> addr \<Rightarrow> nat \<Rightarrow> nat \<Rightarrow> u64 \<Rightarrow> u64 \<Rightarrow> u64 \<Rightarrow> (turbowasm_status \<times> instance_heap) option" where
  "turbowasm_instance_memory_copy_bytes h i destination_memory source_memory destination source len =
     (if destination_memory \<ge> memory_count (h i) \<or> source_memory \<ge> memory_count (h i)
      then Some (TURBOWASM_INVALID_ARGUMENT, h)
      else do {
        dst \<leftarrow> turbowasm_instance_memory_resolve h i destination_memory;
        src \<leftarrow> turbowasm_instance_memory_resolve h i source_memory;
        Some (case (dst, src) of
          (Some d, Some s) \<Rightarrow>
            (case turbowasm_instance_memory_storage_range (mem_at h d) destination 0 len of
               Inl status \<Rightarrow> (status, h)
             | Inr de \<Rightarrow>
                 (case turbowasm_instance_memory_storage_range (mem_at h s) source 0 len of
                    Inl status \<Rightarrow> (status, h)
                  | Inr se \<Rightarrow>
                      (TURBOWASM_OK,
                       if len = 0 then h
                       else mem_store h d de (bytes_get (mem_data (mem_at h s)) se (unat len)))))
        | _ \<Rightarrow> (TURBOWASM_UNSUPPORTED, h)) })"

definition turbowasm_instance_memory_copy ::
    "instance_heap \<Rightarrow> addr \<Rightarrow> nat \<Rightarrow> nat \<Rightarrow> u64 \<Rightarrow> u64 \<Rightarrow> u64 \<Rightarrow> (turbowasm_status \<times> instance_heap) option" where
  "turbowasm_instance_memory_copy = turbowasm_instance_memory_copy_bytes"

definition turbowasm_instance_memory_fill ::
    "instance_heap \<Rightarrow> addr \<Rightarrow> nat \<Rightarrow> u64 \<Rightarrow> u8 \<Rightarrow> u64 \<Rightarrow> (turbowasm_status \<times> instance_heap) option" where
  "turbowasm_instance_memory_fill = turbowasm_instance_memory_fill_bytes"

definition turbowasm_instance_memory_init ::
    "instance_heap \<Rightarrow> addr \<Rightarrow> nat \<Rightarrow> nat \<Rightarrow> u64 \<Rightarrow> u32 \<Rightarrow> u32 \<Rightarrow> (turbowasm_status \<times> instance_heap) option" where
  "turbowasm_instance_memory_init h i data_index memory_index destination source len =
     (if data_index \<ge> length (data_segment_dropped (h i)) then Some (TURBOWASM_INVALID_ARGUMENT, h)
      else case inst_module (h i) of
        None \<Rightarrow> Some (TURBOWASM_INVALID_ARGUMENT, h)
      | Some md \<Rightarrow>
          if data_index \<ge> length (val_data_segments md) then Some (TURBOWASM_INVALID_ARGUMENT, h)
          else
            let segment = val_data_segments md ! data_index;
                source_size = (if data_segment_dropped (h i) ! data_index then 0 else of_nat (length segment)) in
            if \<not> turbowasm_range_fits (ucast source) (ucast len) source_size then Some (TURBOWASM_TRAPPED, h)
            else turbowasm_instance_memory_write_bytes h i memory_index destination 0
                   (bytes_get segment (unat source) (unat len)))"

definition turbowasm_instance_data_drop :: "instance_heap \<Rightarrow> addr \<Rightarrow> nat \<Rightarrow> turbowasm_status \<times> instance_heap" where
  "turbowasm_instance_data_drop h i data_index =
     (if data_index \<ge> length (data_segment_dropped (h i)) then (TURBOWASM_INVALID_ARGUMENT, h)
      else (TURBOWASM_OK, h(i := (h i)\<lparr>data_segment_dropped := (data_segment_dropped (h i))[data_index := True]\<rparr>)))"

subsection \<open>Size and growth\<close>

definition turbowasm_instance_memory_size64 :: "instance_heap \<Rightarrow> addr \<Rightarrow> nat \<Rightarrow> (turbowasm_status \<times> u64) option" where
  "turbowasm_instance_memory_size64 h i k =
     do { t \<leftarrow> memory_target h i k;
          Some (case t of Inl status \<Rightarrow> (status, 0) | Inr x \<Rightarrow> (TURBOWASM_OK, mem_pages (mem_at h x))) }"

definition turbowasm_instance_memory_size :: "instance_heap \<Rightarrow> addr \<Rightarrow> nat \<Rightarrow> (turbowasm_status \<times> u32) option" where
  "turbowasm_instance_memory_size h i k =
     do { r \<leftarrow> turbowasm_instance_memory_size64 h i k;
          Some (case r of (status, pages) \<Rightarrow>
            if status \<noteq> TURBOWASM_OK then (status, 0)
            else if pages > ucast U32_MAX then (TURBOWASM_UNSUPPORTED, 0)
            else (TURBOWASM_OK, ucast pages)) }"

record turbowasm_instance_limits =
  inst_minimum :: u64
  inst_maximum :: u64
  inst_has_maximum :: bool

definition turbowasm_instance_memory_limits ::
    "instance_heap \<Rightarrow> addr \<Rightarrow> nat \<Rightarrow> (turbowasm_status + turbowasm_instance_limits) option" where
  "turbowasm_instance_memory_limits h i k =
     do { t \<leftarrow> memory_target h i k;
          Some (case t of
            Inl status \<Rightarrow> Inl status
          | Inr x \<Rightarrow> Inr \<lparr>inst_minimum = mem_pages (mem_at h x), inst_maximum = mem_maximum_pages (mem_at h x),
                        inst_has_maximum = mem_has_maximum (mem_at h x)\<rparr>) }"

text \<open>The number of pages that an address type can name.\<close>

definition memory_page_bound :: "turbowasm_instance_memory \<Rightarrow> u64" where
  "memory_page_bound m =
     (if mem_memory64 m then (if mem_page_size m = 1 then U64_MAX else push_bit 48 1)
      else if mem_page_size m = 1 then ucast U32_MAX else 65536)"

text \<open>Growth of one memory: the previous size, \<open>U64_MAX\<close> when it is refused, and the memory.\<close>

definition memory_grow :: "(nat \<Rightarrow> bool) \<Rightarrow> turbowasm_instance_memory \<Rightarrow> u64 \<Rightarrow> u64 \<times> turbowasm_instance_memory" where
  "memory_grow grant m delta_pages =
     (if mem_page_size m = 0 \<or> mem_pages m > U64_MAX - delta_pages then (U64_MAX, m)
      else
        let next_pages = mem_pages m + delta_pages in
        if next_pages > memory_page_bound m \<or> (mem_has_maximum m \<and> next_pages > mem_maximum_pages m) \<or>
           next_pages > SIZE_MAX div ucast (mem_page_size m)
        then (U64_MAX, m)
        else
          let next_bytes = next_pages * ucast (mem_page_size m);
              previous_bytes = mem_pages m * ucast (mem_page_size m) in
          if mem_resource_max_bytes m \<noteq> 0 \<and> next_bytes > mem_resource_max_bytes m then (U64_MAX, m)
          else if next_bytes = 0 then (mem_pages m, m\<lparr>mem_pages := next_pages\<rparr>)
          else if \<not> grant (unat next_bytes) then (U64_MAX, m)
          else
            (mem_pages m,
             m\<lparr>mem_data := take (unat previous_bytes) (mem_data m) @ replicate (unat next_bytes - unat previous_bytes) 0,
               mem_pages := next_pages\<rparr>))"

definition turbowasm_instance_memory_grow64 ::
    "(nat \<Rightarrow> bool) \<Rightarrow> instance_heap \<Rightarrow> addr \<Rightarrow> nat \<Rightarrow> u64 \<Rightarrow> (turbowasm_status \<times> u64 \<times> instance_heap) option" where
  "turbowasm_instance_memory_grow64 grant h i k delta_pages =
     do { t \<leftarrow> memory_target h i k;
          Some (case t of
            Inl status \<Rightarrow> (status, 0, h)
          | Inr x \<Rightarrow> (case memory_grow grant (mem_at h x) delta_pages of
              (previous, m) \<Rightarrow> (TURBOWASM_OK, previous, mem_put h x m))) }"

definition turbowasm_instance_memory_grow ::
    "(nat \<Rightarrow> bool) \<Rightarrow> instance_heap \<Rightarrow> addr \<Rightarrow> nat \<Rightarrow> u32 \<Rightarrow> (turbowasm_status \<times> u32 \<times> instance_heap) option" where
  "turbowasm_instance_memory_grow grant h i k delta_pages =
     do { r \<leftarrow> turbowasm_instance_memory_grow64 grant h i k (ucast delta_pages);
          Some (case r of (status, previous, h') \<Rightarrow>
            if status \<noteq> TURBOWASM_OK then (status, 0, h')
            else if previous = U64_MAX then (TURBOWASM_OK, U32_MAX, h')
            else if previous > ucast U32_MAX then (TURBOWASM_UNSUPPORTED, 0, h')
            else (TURBOWASM_OK, ucast previous, h')) }"

subsection \<open>Creation\<close>

text \<open>What the allocator and the lock library grant to the storage of one memory.\<close>

record storage_env =
  grant_data :: "nat \<Rightarrow> bool"
  grant_lock :: bool
  grant_mutex :: bool
  grant_waiters :: bool
  grant_condition :: "nat \<Rightarrow> bool"

abbreviation (input) TURBOWASM_MEMORY_WAITER_CAPACITY :: nat where
  "TURBOWASM_MEMORY_WAITER_CAPACITY \<equiv> 64"

definition idle_waiter :: turbowasm_memory_waiter where
  "idle_waiter = \<lparr>waiter_address = 0, waiter_active = False, waiter_notified = False\<rparr>"

definition turbowasm_instance_memory_storage_init ::
    "storage_env \<Rightarrow> turbowasm_instance_memory \<Rightarrow> bool \<Rightarrow> nat \<Rightarrow> turbowasm_status \<times> turbowasm_instance_memory" where
  "turbowasm_instance_memory_storage_init env m shared bytes =
     (if mem_storage_initialized m then (TURBOWASM_INVALID_ARGUMENT, m)
      else if bytes \<noteq> 0 \<and> \<not> grant_data env bytes then (TURBOWASM_OUT_OF_MEMORY, m)
      else if shared \<and> (\<not> grant_lock env \<or> \<not> grant_mutex env \<or> \<not> grant_waiters env \<or>
                       \<not> list_all (grant_condition env) [0..<TURBOWASM_MEMORY_WAITER_CAPACITY])
      then (TURBOWASM_OUT_OF_MEMORY, m)
      else
        (TURBOWASM_OK,
         m\<lparr>mem_data := replicate bytes 0,
           mem_waiters := (if shared then replicate TURBOWASM_MEMORY_WAITER_CAPACITY idle_waiter else []),
           mem_waiter_count := 0,
           mem_shared := shared,
           mem_access_lock_initialized := shared,
           mem_waiter_mutex_initialized := shared,
           mem_storage_initialized := True\<rparr>))"

definition turbowasm_instance_memory_storage_destroy :: "turbowasm_instance_memory \<Rightarrow> turbowasm_instance_memory" where
  "turbowasm_instance_memory_storage_destroy m =
     (if \<not> mem_storage_initialized m then m
      else m\<lparr>mem_waiters := [], mem_waiter_mutex_initialized := False, mem_data := [],
             mem_access_lock_initialized := False, mem_shared := False, mem_storage_initialized := False\<rparr>)"

definition cleared_memory :: turbowasm_instance_memory where
  "cleared_memory =
     \<lparr>mem_data = [], mem_waiters = [], mem_waiter_count = 0, mem_pages = 0, mem_maximum_pages = 0, mem_page_size = 0,
      mem_resource_max_bytes = 0, mem_has_maximum = False, mem_shared = False, mem_memory64 = False,
      mem_access_lock_initialized = False, mem_waiter_mutex_initialized = False, mem_storage_initialized = False\<rparr>"

text \<open>The body of the loop over the memories of a module, for the memory \<open>k\<close>.\<close>

definition allocate_memory ::
    "storage_env \<Rightarrow> u64 \<Rightarrow> (addr option \<times> nat) list \<Rightarrow> nat \<Rightarrow> turbowasm_validation_memory \<Rightarrow>
     turbowasm_status \<times> turbowasm_instance_memory" where
  "allocate_memory env max_bytes linked k source =
     (if vmem_imported source then
        (if k \<ge> length linked \<or> fst (linked ! k) = None then (TURBOWASM_UNSUPPORTED, cleared_memory)
         else (TURBOWASM_OK, cleared_memory))
      else if vmem_page_size source = 0 \<or>
              limits_minimum (vmem_limits source) > SIZE_MAX div ucast (vmem_page_size source)
      then (TURBOWASM_OUT_OF_MEMORY, cleared_memory)
      else
        let bytes = limits_minimum (vmem_limits source) * ucast (vmem_page_size source);
            m = cleared_memory\<lparr>
                  mem_pages := limits_minimum (vmem_limits source),
                  mem_maximum_pages := limits_maximum (vmem_limits source),
                  mem_page_size := vmem_page_size source,
                  mem_resource_max_bytes := max_bytes,
                  mem_has_maximum := limits_has_maximum (vmem_limits source),
                  mem_memory64 := vmem_memory64 source\<rparr> in
        if mem_resource_max_bytes m \<noteq> 0 \<and> bytes > mem_resource_max_bytes m then (TURBOWASM_OUT_OF_MEMORY, m)
        else turbowasm_instance_memory_storage_init env m (vmem_shared source) (unat bytes))"

fun allocate_memories_loop ::
    "(nat \<Rightarrow> storage_env) \<Rightarrow> u64 \<Rightarrow> (addr option \<times> nat) list \<Rightarrow> nat \<Rightarrow> turbowasm_validation_memory list \<Rightarrow>
     turbowasm_instance_memory list \<Rightarrow> turbowasm_status \<times> turbowasm_instance_memory list" where
  "allocate_memories_loop env max_bytes linked k [] memories = (TURBOWASM_OK, memories)"
| "allocate_memories_loop env max_bytes linked k (source # sources) memories =
     (case allocate_memory (env k) max_bytes linked k source of (status, m) \<Rightarrow>
        if status \<noteq> TURBOWASM_OK then (status, memories[k := m])
        else allocate_memories_loop env max_bytes linked (Suc k) sources (memories[k := m]))"

definition turbowasm_allocate_memories ::
    "bool \<Rightarrow> (nat \<Rightarrow> storage_env) \<Rightarrow> turbowasm_instance_impl \<Rightarrow> turbowasm_validation_memory list \<Rightarrow>
     turbowasm_status \<times> turbowasm_instance_impl" where
  "turbowasm_allocate_memories grant env inst memories =
     (if memories = [] then (TURBOWASM_OK, inst)
      else case inst_module inst of
        None \<Rightarrow> (TURBOWASM_INVALID_ARGUMENT, inst)
      | Some md \<Rightarrow>
          if \<not> grant then (TURBOWASM_OUT_OF_MEMORY, inst)
          else case allocate_memories_loop env (max_linear_memory_bytes md) (linked_memories inst) 0 memories
                      (replicate (length memories) cleared_memory) of
            (status, ms) \<Rightarrow> (status, inst\<lparr>inst_memories := ms\<rparr>))"

subsection \<open>Atomic accesses\<close>

datatype turbowasm_atomic_kind =
    TURBOWASM_ATOMIC_LOAD | TURBOWASM_ATOMIC_STORE | TURBOWASM_ATOMIC_RMW | TURBOWASM_ATOMIC_CMPXCHG

datatype turbowasm_atomic_op =
    TURBOWASM_ATOMIC_OP_NONE | TURBOWASM_ATOMIC_OP_ADD | TURBOWASM_ATOMIC_OP_SUB | TURBOWASM_ATOMIC_OP_AND
  | TURBOWASM_ATOMIC_OP_OR | TURBOWASM_ATOMIC_OP_XOR | TURBOWASM_ATOMIC_OP_XCHG

datatype turbowasm_atomic_value_type = TURBOWASM_ATOMIC_I32 | TURBOWASM_ATOMIC_I64

record turbowasm_atomic_descriptor =
  atomic_subopcode :: nat
  atomic_kind :: turbowasm_atomic_kind
  atomic_op :: turbowasm_atomic_op
  atomic_value_type :: turbowasm_atomic_value_type
  atomic_width :: nat
  alignment_log2 :: nat

text \<open>
  Seven descriptors per operation: the two full widths, then the narrow accesses of both types. The
  table lists the operations in the order of their first subopcode.
\<close>

definition atomic_family :: "nat \<Rightarrow> turbowasm_atomic_kind \<Rightarrow> turbowasm_atomic_op \<Rightarrow> turbowasm_atomic_descriptor list" where
  "atomic_family base kind op =
     [\<lparr>atomic_subopcode = base, atomic_kind = kind, atomic_op = op, atomic_value_type = TURBOWASM_ATOMIC_I32, atomic_width = 4, alignment_log2 = 2\<rparr>,
      \<lparr>atomic_subopcode = base + 1, atomic_kind = kind, atomic_op = op, atomic_value_type = TURBOWASM_ATOMIC_I64, atomic_width = 8, alignment_log2 = 3\<rparr>,
      \<lparr>atomic_subopcode = base + 2, atomic_kind = kind, atomic_op = op, atomic_value_type = TURBOWASM_ATOMIC_I32, atomic_width = 1, alignment_log2 = 0\<rparr>,
      \<lparr>atomic_subopcode = base + 3, atomic_kind = kind, atomic_op = op, atomic_value_type = TURBOWASM_ATOMIC_I32, atomic_width = 2, alignment_log2 = 1\<rparr>,
      \<lparr>atomic_subopcode = base + 4, atomic_kind = kind, atomic_op = op, atomic_value_type = TURBOWASM_ATOMIC_I64, atomic_width = 1, alignment_log2 = 0\<rparr>,
      \<lparr>atomic_subopcode = base + 5, atomic_kind = kind, atomic_op = op, atomic_value_type = TURBOWASM_ATOMIC_I64, atomic_width = 2, alignment_log2 = 1\<rparr>,
      \<lparr>atomic_subopcode = base + 6, atomic_kind = kind, atomic_op = op, atomic_value_type = TURBOWASM_ATOMIC_I64, atomic_width = 4, alignment_log2 = 2\<rparr>]"

definition descriptors :: "turbowasm_atomic_descriptor list" where
  "descriptors =
     atomic_family 0x10 TURBOWASM_ATOMIC_LOAD TURBOWASM_ATOMIC_OP_NONE @
     atomic_family 0x17 TURBOWASM_ATOMIC_STORE TURBOWASM_ATOMIC_OP_NONE @
     atomic_family 0x1e TURBOWASM_ATOMIC_RMW TURBOWASM_ATOMIC_OP_ADD @
     atomic_family 0x25 TURBOWASM_ATOMIC_RMW TURBOWASM_ATOMIC_OP_SUB @
     atomic_family 0x2c TURBOWASM_ATOMIC_RMW TURBOWASM_ATOMIC_OP_AND @
     atomic_family 0x33 TURBOWASM_ATOMIC_RMW TURBOWASM_ATOMIC_OP_OR @
     atomic_family 0x3a TURBOWASM_ATOMIC_RMW TURBOWASM_ATOMIC_OP_XOR @
     atomic_family 0x41 TURBOWASM_ATOMIC_RMW TURBOWASM_ATOMIC_OP_XCHG @
     atomic_family 0x48 TURBOWASM_ATOMIC_CMPXCHG TURBOWASM_ATOMIC_OP_NONE"

definition turbowasm_atomic_descriptor_find :: "nat \<Rightarrow> turbowasm_atomic_descriptor option" where
  "turbowasm_atomic_descriptor_find subopcode =
     (if subopcode < 0x10 \<or> subopcode > 0x4e then None else Some (descriptors ! (subopcode - 0x10)))"

text \<open>The loop of \<^verbatim>\<open>turbowasm_atomic_load_le\<close> from \<open>index\<close> on, \<open>bs\<close> the bytes that are left.\<close>

fun load_le_loop :: "nat \<Rightarrow> u8 list \<Rightarrow> u64 \<Rightarrow> u64" where
  "load_le_loop index [] v = v"
| "load_le_loop index (b # bs) v = load_le_loop (Suc index) bs (v OR push_bit (8 * index) (ucast b))"

definition turbowasm_atomic_load_le :: "u8 list \<Rightarrow> nat \<Rightarrow> nat \<Rightarrow> u64" where
  "turbowasm_atomic_load_le data e width = load_le_loop 0 (bytes_get data e width) 0"

definition turbowasm_atomic_store_le :: "u8 list \<Rightarrow> nat \<Rightarrow> nat \<Rightarrow> u64 \<Rightarrow> u8 list" where
  "turbowasm_atomic_store_le data e width v =
     bytes_put data e (map (\<lambda>index. ucast (drop_bit (8 * index) v)) [0..<width])"

definition turbowasm_atomic_width_mask :: "nat \<Rightarrow> u64" where
  "turbowasm_atomic_width_mask width = (if width \<ge> 8 then U64_MAX else push_bit (width * 8) 1 - 1)"

text \<open>The value that a read-modify-write stores, unless its operation is unknown.\<close>

definition atomic_rmw_value :: "turbowasm_atomic_op \<Rightarrow> u64 \<Rightarrow> u64 \<Rightarrow> u64 \<Rightarrow> u64 option" where
  "atomic_rmw_value op bits old_value v =
     (case op of
        TURBOWASM_ATOMIC_OP_ADD \<Rightarrow> Some ((old_value + v) AND bits)
      | TURBOWASM_ATOMIC_OP_SUB \<Rightarrow> Some ((old_value - v) AND bits)
      | TURBOWASM_ATOMIC_OP_AND \<Rightarrow> Some (old_value AND v)
      | TURBOWASM_ATOMIC_OP_OR \<Rightarrow> Some (old_value OR v)
      | TURBOWASM_ATOMIC_OP_XOR \<Rightarrow> Some (old_value XOR v)
      | TURBOWASM_ATOMIC_OP_XCHG \<Rightarrow> Some v
      | TURBOWASM_ATOMIC_OP_NONE \<Rightarrow> None)"

text \<open>The bytes after the access at position \<open>e\<close>, and the status.\<close>

definition atomic_effect ::
    "turbowasm_atomic_descriptor \<Rightarrow> u64 \<Rightarrow> u64 \<Rightarrow> u64 \<Rightarrow> u8 list \<Rightarrow> nat \<Rightarrow> turbowasm_status \<times> u8 list" where
  "atomic_effect d v expected replacement data e =
     (let old_value = turbowasm_atomic_load_le data e (atomic_width d);
          bits = turbowasm_atomic_width_mask (atomic_width d) in
      case atomic_kind d of
        TURBOWASM_ATOMIC_LOAD \<Rightarrow> (TURBOWASM_OK, data)
      | TURBOWASM_ATOMIC_STORE \<Rightarrow> (TURBOWASM_OK, turbowasm_atomic_store_le data e (atomic_width d) (v AND bits))
      | TURBOWASM_ATOMIC_RMW \<Rightarrow>
          (case atomic_rmw_value (atomic_op d) bits old_value (v AND bits) of
             None \<Rightarrow> (TURBOWASM_INVALID_ARGUMENT, data)
           | Some new_value \<Rightarrow> (TURBOWASM_OK, turbowasm_atomic_store_le data e (atomic_width d) (new_value AND bits)))
      | TURBOWASM_ATOMIC_CMPXCHG \<Rightarrow>
          (TURBOWASM_OK,
           if old_value = expected AND bits
           then turbowasm_atomic_store_le data e (atomic_width d) (replacement AND bits) else data))"

definition turbowasm_instance_memory_atomic ::
    "bool \<Rightarrow> instance_heap \<Rightarrow> addr \<Rightarrow> nat \<Rightarrow> u64 \<Rightarrow> u64 \<Rightarrow> turbowasm_atomic_descriptor \<Rightarrow> u64 \<Rightarrow> u64 \<Rightarrow> u64 \<Rightarrow>
     (turbowasm_status \<times> u64 \<times> turbowasm_trap \<times> instance_heap) option" where
  "turbowasm_instance_memory_atomic sc_mutex h i k address offset d v expected replacement =
     (if atomic_width d \<notin> {1, 2, 4, 8} then Some (TURBOWASM_INVALID_ARGUMENT, 0, TURBOWASM_TRAP_NONE, h)
      else do {
        t \<leftarrow> memory_target h i k;
        Some (case t of
          Inl status \<Rightarrow> (status, 0, TURBOWASM_TRAP_NONE, h)
        | Inr x \<Rightarrow>
            let m = mem_at h x; effective64 = address + offset in
            if effective64 mod of_nat (atomic_width d) \<noteq> 0
            then (TURBOWASM_TRAPPED, 0, TURBOWASM_TRAP_UNALIGNED_ATOMIC, h)
            else if \<not> sc_mutex then (TURBOWASM_OUT_OF_MEMORY, 0, TURBOWASM_TRAP_NONE, h)
            else case turbowasm_instance_memory_storage_range m address offset (of_nat (atomic_width d)) of
              Inl status \<Rightarrow>
                (status, 0, if status = TURBOWASM_TRAPPED then TURBOWASM_TRAP_MEMORY_OUT_OF_BOUNDS else TURBOWASM_TRAP_NONE, h)
            | Inr e \<Rightarrow>
                (case atomic_effect d v expected replacement (mem_data m) e of (status, data) \<Rightarrow>
                   if status \<noteq> TURBOWASM_OK then (status, 0, TURBOWASM_TRAP_NONE, h)
                   else
                     (TURBOWASM_OK,
                      turbowasm_atomic_load_le (mem_data m) e (atomic_width d) AND turbowasm_atomic_width_mask (atomic_width d),
                      TURBOWASM_TRAP_NONE,
                      mem_put h x (m\<lparr>mem_data := data\<rparr>)))) })"

end
