(* ===== verification/TW_Wait.thy ===== *)
theory TW_Wait
  imports TW_Memory
begin

text \<open>
  Waiting and notification on shared memories: \<^verbatim>\<open>src/src/instance_state.c\<close> from \<^verbatim>\<open>turbowasm_memory_waiter_acquire_slot\<close> to
  \<^verbatim>\<open>turbowasm_instance_memory_notify\<close>. A wait is a critical section that registers a slot, then turns of a loop that sleeps on the
  condition variable of the slot, and a critical section that reads the outcome and frees the slot. The lock is free only
  while a thread sleeps; what the other threads do to the heap meanwhile is part of the event of that sleep, and the
  notified flag is read from the heap they leave. A list of events that is too short means that the thread is
  still blocked. The step relation at the end runs any number of threads, with the same critical sections as its steps.
\<close>

subsection \<open>Registration\<close>

definition turbowasm_memory_waiter_acquire_slot :: "turbowasm_instance_memory \<Rightarrow> nat option" where
  "turbowasm_memory_waiter_acquire_slot m =
     List.find (\<lambda>index. \<not> waiter_active (mem_waiters m ! index)) [0..<length (mem_waiters m)]"

definition register_waiter :: "turbowasm_instance_memory \<Rightarrow> nat \<Rightarrow> u64 \<Rightarrow> turbowasm_instance_memory" where
  "register_waiter m slot address =
     m\<lparr>mem_waiters := (mem_waiters m)[slot := \<lparr>waiter_address = address, waiter_active = True, waiter_notified = False\<rparr>],
       mem_waiter_count := mem_waiter_count m + 1\<rparr>"

text \<open>
  The wait up to the blocked phase: a final result (status, result code, trap), or the memory and the slot. The
  timeout is signed.
\<close>

definition wait_register ::
    "bool \<Rightarrow> instance_heap \<Rightarrow> addr \<Rightarrow> nat \<Rightarrow> u64 \<Rightarrow> u64 \<Rightarrow> nat \<Rightarrow> u64 \<Rightarrow> u64 \<Rightarrow>
     ((turbowasm_status \<times> u32 \<times> turbowasm_trap) + (memory_id \<times> nat)) option \<times> instance_heap" where
  "wait_register sc_mutex h i k address offset width expected timeout_ns =
     (if width \<notin> {4, 8} then (Some (Inl (TURBOWASM_INVALID_ARGUMENT, 0, TURBOWASM_TRAP_NONE)), h)
      else case memory_target h i k of
        None \<Rightarrow> (None, h)
      | Some (Inl status) \<Rightarrow> (Some (Inl (status, 0, TURBOWASM_TRAP_NONE)), h)
      | Some (Inr x) \<Rightarrow>
          let m = mem_at h x; effective64 = address + offset in
          if effective64 mod of_nat width \<noteq> 0
          then (Some (Inl (TURBOWASM_TRAPPED, 0, TURBOWASM_TRAP_UNALIGNED_ATOMIC)), h)
          else if \<not> mem_shared m then (Some (Inl (TURBOWASM_TRAPPED, 0, TURBOWASM_TRAP_EXPECTED_SHARED_MEMORY)), h)
          else if \<not> mem_waiter_mutex_initialized m then (Some (Inl (TURBOWASM_UNSUPPORTED, 0, TURBOWASM_TRAP_NONE)), h)
          else if \<not> sc_mutex then (Some (Inl (TURBOWASM_OUT_OF_MEMORY, 0, TURBOWASM_TRAP_NONE)), h)
          else case turbowasm_instance_memory_storage_range m address offset (of_nat width) of
            Inl status \<Rightarrow>
              (Some (Inl (status, 0, if status = TURBOWASM_TRAPPED then TURBOWASM_TRAP_MEMORY_OUT_OF_BOUNDS
                                     else TURBOWASM_TRAP_NONE)), h)
          | Inr e \<Rightarrow>
              if turbowasm_atomic_load_le (mem_data m) e width \<noteq> expected AND turbowasm_atomic_width_mask width
              then (Some (Inl (TURBOWASM_OK, 1, TURBOWASM_TRAP_NONE)), h)
              else if timeout_ns = 0 then (Some (Inl (TURBOWASM_OK, 2, TURBOWASM_TRAP_NONE)), h)
              else case turbowasm_memory_waiter_acquire_slot m of
                None \<Rightarrow> (Some (Inl (TURBOWASM_TRAPPED, 0, TURBOWASM_TRAP_TOO_MANY_WAITERS)), h)
              | Some slot \<Rightarrow> (Some (Inr (x, slot)), mem_put h x (register_waiter m slot effective64)))"

definition wait_deadline :: "u64 \<Rightarrow> u64 \<Rightarrow> u64" where
  "wait_deadline timeout_ns now =
     (if sint timeout_ns > 0 then (if U64_MAX - now < timeout_ns then U64_MAX else now + timeout_ns) else 0)"

subsection \<open>The blocked phase\<close>

text \<open>How the condition variable returns: woken, timed out, or an error of the lock library.\<close>

datatype wait_status = WaitWoken | WaitTimedOut | WaitFailed

text \<open>The local variables of a blocked wait.\<close>

record wait_frame =
  frame_memory :: memory_id
  frame_slot :: nat
  frame_timeout :: u64
  frame_deadline :: u64
  frame_status :: wait_status

definition slot_notified :: "instance_heap \<Rightarrow> wait_frame \<Rightarrow> bool" where
  "slot_notified h f \<longleftrightarrow> waiter_notified (mem_waiters (mem_at h (frame_memory f)) ! frame_slot f)"

text \<open>A part of a turn stays in the loop or leaves it, interrupted or not.\<close>

datatype wait_turn = Stay wait_frame | Leave bool wait_frame

text \<open>The loop from its head to the sleep: the answer of the interrupt check and the clock are given.\<close>

definition wait_check :: "bool \<Rightarrow> u64 \<Rightarrow> instance_heap \<Rightarrow> wait_frame \<Rightarrow> wait_turn" where
  "wait_check interrupt now h f =
     (if slot_notified h f then Leave False f
      else if interrupt then Leave True f
      else if sint (frame_timeout f) < 0 then Stay f
      else if now \<ge> frame_deadline f then Leave False (f\<lparr>frame_status := WaitTimedOut\<rparr>)
      else Stay f)"

text \<open>The loop from the end of a sleep to its next turn; a sleep without a timeout has no status.\<close>

definition wait_wake :: "wait_status \<Rightarrow> instance_heap \<Rightarrow> wait_frame \<Rightarrow> wait_turn" where
  "wait_wake wait_status h f =
     (if sint (frame_timeout f) < 0 then Stay f
      else
        let f1 = f\<lparr>frame_status := wait_status\<rparr> in
        if slot_notified h f1 then Leave False f1
        else if wait_status \<noteq> WaitWoken then Leave False f1
        else Stay f1)"

text \<open>
  One turn of the loop: the answer of the interrupt check, the clock before sleeping, what the other threads do
  to the heap during the sleep, and how the sleep ends.
\<close>

record wait_event =
  ev_interrupt :: bool
  ev_now :: u64
  ev_others :: "instance_heap \<Rightarrow> instance_heap"
  ev_status :: wait_status

fun wait_loop :: "wait_event list \<Rightarrow> instance_heap \<Rightarrow> wait_frame \<Rightarrow> (bool \<times> wait_frame \<times> instance_heap) option" where
  "wait_loop [] h f = (if slot_notified h f then Some (False, f, h) else None)"
| "wait_loop (ev # events) h f =
     (case wait_check (ev_interrupt ev) (ev_now ev) h f of
        Leave interrupted f1 \<Rightarrow> Some (interrupted, f1, h)
      | Stay f1 \<Rightarrow>
          let h1 = ev_others ev h in
          case wait_wake (ev_status ev) h1 f1 of
            Leave interrupted f2 \<Rightarrow> Some (interrupted, f2, h1)
          | Stay f2 \<Rightarrow> wait_loop events h1 f2)"

subsection \<open>Return\<close>

definition release_waiter :: "turbowasm_instance_memory \<Rightarrow> nat \<Rightarrow> turbowasm_instance_memory" where
  "release_waiter m slot =
     m\<lparr>mem_waiters := (mem_waiters m)[slot := idle_waiter],
       mem_waiter_count := (if mem_waiter_count m \<noteq> 0 then mem_waiter_count m - 1 else 0)\<rparr>"

definition wait_release :: "instance_heap \<Rightarrow> memory_id \<Rightarrow> nat \<Rightarrow> instance_heap" where
  "wait_release h x slot = mem_put h x (release_waiter (mem_at h x) slot)"

definition turbowasm_threads_sc_fence :: "bool \<Rightarrow> turbowasm_status" where
  "turbowasm_threads_sc_fence sc_mutex = (if sc_mutex then TURBOWASM_OK else TURBOWASM_OUT_OF_MEMORY)"

text \<open>The status and the result code after the loop; a successful wake passes the global order once more.\<close>

definition wait_result :: "bool \<Rightarrow> bool \<Rightarrow> wait_status \<Rightarrow> bool \<Rightarrow> turbowasm_status \<times> u32" where
  "wait_result sc_mutex interrupted wait_status notified =
     (let out_result = (if notified then 0 else if wait_status = WaitTimedOut then 2 else 0) in
      if interrupted then (TURBOWASM_INTERRUPTED, out_result)
      else if wait_status \<noteq> WaitWoken \<and> wait_status \<noteq> WaitTimedOut then (TURBOWASM_UNSUPPORTED, out_result)
      else if out_result = 0 then (turbowasm_threads_sc_fence sc_mutex, out_result)
      else (TURBOWASM_OK, out_result))"

definition wait_finish :: "bool \<Rightarrow> bool \<Rightarrow> wait_frame \<Rightarrow> instance_heap \<Rightarrow> turbowasm_status \<times> u32 \<times> instance_heap" where
  "wait_finish sc_mutex interrupted f h =
     (case wait_result sc_mutex interrupted (frame_status f) (slot_notified h f) of (status, out_result) \<Rightarrow>
        (status, out_result, wait_release h (frame_memory f) (frame_slot f)))"

definition new_frame :: "u64 \<Rightarrow> u64 \<Rightarrow> memory_id \<Rightarrow> nat \<Rightarrow> wait_frame" where
  "new_frame timeout_ns now x slot =
     \<lparr>frame_memory = x, frame_slot = slot, frame_timeout = timeout_ns, frame_deadline = wait_deadline timeout_ns now,
      frame_status = WaitWoken\<rparr>"

text \<open>The whole wait of one thread; no result means that it is still blocked after the given events, or that the lookup does not end.\<close>

definition turbowasm_instance_memory_wait_internal ::
    "bool \<Rightarrow> u64 \<Rightarrow> wait_event list \<Rightarrow> instance_heap \<Rightarrow> addr \<Rightarrow> nat \<Rightarrow> u64 \<Rightarrow> u64 \<Rightarrow> nat \<Rightarrow> u64 \<Rightarrow> u64 \<Rightarrow>
     (turbowasm_status \<times> u32 \<times> turbowasm_trap \<times> instance_heap) option" where
  "turbowasm_instance_memory_wait_internal sc_mutex now events h i k address offset width expected timeout_ns =
     (case wait_register sc_mutex h i k address offset width expected timeout_ns of
        (None, h1) \<Rightarrow> None
      | (Some (Inl (status, out_result, trap)), h1) \<Rightarrow> Some (status, out_result, trap, h1)
      | (Some (Inr (x, slot)), h1) \<Rightarrow>
          do { (interrupted, f, h2) \<leftarrow> wait_loop events h1 (new_frame timeout_ns now x slot);
               Some (case wait_finish sc_mutex interrupted f h2 of (status, out_result, h3) \<Rightarrow>
                 (status, out_result, TURBOWASM_TRAP_NONE, h3)) })"

text \<open>The two entry points: without an interrupt check the answer is always no.\<close>

definition turbowasm_instance_memory_wait ::
    "bool \<Rightarrow> u64 \<Rightarrow> wait_event list \<Rightarrow> instance_heap \<Rightarrow> addr \<Rightarrow> nat \<Rightarrow> u64 \<Rightarrow> u64 \<Rightarrow> nat \<Rightarrow> u64 \<Rightarrow> u64 \<Rightarrow>
     (turbowasm_status \<times> u32 \<times> turbowasm_trap \<times> instance_heap) option" where
  "turbowasm_instance_memory_wait sc_mutex now events =
     turbowasm_instance_memory_wait_internal sc_mutex now (map (\<lambda>ev. ev\<lparr>ev_interrupt := False\<rparr>) events)"

definition turbowasm_instance_memory_wait_with_interrupt ::
    "bool \<Rightarrow> u64 \<Rightarrow> wait_event list \<Rightarrow> instance_heap \<Rightarrow> addr \<Rightarrow> nat \<Rightarrow> u64 \<Rightarrow> u64 \<Rightarrow> nat \<Rightarrow> u64 \<Rightarrow> u64 \<Rightarrow>
     (turbowasm_status \<times> u32 \<times> turbowasm_trap \<times> instance_heap) option" where
  "turbowasm_instance_memory_wait_with_interrupt = turbowasm_instance_memory_wait_internal"

subsection \<open>Notification\<close>

text \<open>The loop over the slots: how many waiters were woken so far and may still be, and the slots left.\<close>

fun notify_loop :: "u64 \<Rightarrow> nat \<Rightarrow> nat \<Rightarrow> turbowasm_memory_waiter list \<Rightarrow> nat \<times> turbowasm_memory_waiter list" where
  "notify_loop address count woken [] = (woken, [])"
| "notify_loop address count woken (w # ws) =
     (if \<not> woken < count then (woken, w # ws)
      else if \<not> waiter_active w \<or> waiter_notified w \<or> waiter_address w \<noteq> address then
        (case notify_loop address count woken ws of (n, ws') \<Rightarrow> (n, w # ws'))
      else
        (case notify_loop address count (Suc woken) ws of (n, ws') \<Rightarrow> (n, w\<lparr>waiter_notified := True\<rparr> # ws')))"

definition turbowasm_instance_memory_notify ::
    "bool \<Rightarrow> instance_heap \<Rightarrow> addr \<Rightarrow> nat \<Rightarrow> u64 \<Rightarrow> u64 \<Rightarrow> u32 \<Rightarrow>
     (turbowasm_status \<times> nat \<times> turbowasm_trap \<times> instance_heap) option" where
  "turbowasm_instance_memory_notify sc_mutex h i k address offset count =
     do { t \<leftarrow> memory_target h i k;
          Some (case t of
            Inl status \<Rightarrow> (status, 0, TURBOWASM_TRAP_NONE, h)
          | Inr x \<Rightarrow>
              let m = mem_at h x; effective64 = address + offset in
              if effective64 mod 4 \<noteq> 0 then (TURBOWASM_TRAPPED, 0, TURBOWASM_TRAP_UNALIGNED_ATOMIC, h)
              else if \<not> sc_mutex then (TURBOWASM_OUT_OF_MEMORY, 0, TURBOWASM_TRAP_NONE, h)
              else case turbowasm_instance_memory_storage_range m address offset 4 of
                Inl status \<Rightarrow>
                  (status, 0, if status = TURBOWASM_TRAPPED then TURBOWASM_TRAP_MEMORY_OUT_OF_BOUNDS else TURBOWASM_TRAP_NONE, h)
              | Inr e \<Rightarrow>
                  if \<not> mem_shared m then (TURBOWASM_OK, 0, TURBOWASM_TRAP_NONE, h)
                  else if \<not> mem_waiter_mutex_initialized m then (TURBOWASM_UNSUPPORTED, 0, TURBOWASM_TRAP_NONE, h)
                  else case notify_loop effective64 (unat count) 0 (mem_waiters m) of (woken, ws) \<Rightarrow>
                    (TURBOWASM_OK, woken, TURBOWASM_TRAP_NONE, mem_put h x (m\<lparr>mem_waiters := ws\<rparr>))) }"

subsection \<open>Threads\<close>

text \<open>
  Several threads on one heap. The steps are the critical sections: the entry of a wait up to its first sleep, what a
  thread does between two sleeps, and the other operations. A thread that wakes up re-enters its loop, and when it
  leaves the loop it returns with the status and the result of \<open>wait_finish\<close>.
\<close>

record wait_system =
  sys_heap :: instance_heap
  sys_waiting :: "nat \<rightharpoonup> wait_frame"

datatype wait_label =
    Registered nat
  | Resumed nat
  | Refused nat turbowasm_status u32
  | Returned nat turbowasm_status u32
  | Notified nat
  | Accessed

definition wait_resume :: "wait_status \<Rightarrow> bool \<Rightarrow> u64 \<Rightarrow> instance_heap \<Rightarrow> wait_frame \<Rightarrow> wait_turn" where
  "wait_resume wait_status interrupt now h f =
     (case wait_wake wait_status h f of Leave interrupted f1 \<Rightarrow> Leave interrupted f1 | Stay f1 \<Rightarrow> wait_check interrupt now h f1)"

inductive wait_step :: "wait_system \<Rightarrow> wait_label \<Rightarrow> wait_system \<Rightarrow> bool" where
  step_refuse:
    "sys_waiting S t = None \<Longrightarrow>
     wait_register sc (sys_heap S) i k address offset width expected timeout = (Some (Inl (status, result, trap)), h) \<Longrightarrow>
     wait_step S (Refused t status result) (S\<lparr>sys_heap := h\<rparr>)"
| step_register:
    "sys_waiting S t = None \<Longrightarrow>
     wait_register sc (sys_heap S) i k address offset width expected timeout = (Some (Inr (x, slot)), h) \<Longrightarrow>
     wait_check interrupt now h (new_frame timeout start x slot) = Stay f \<Longrightarrow>
     wait_step S (Registered t) (S\<lparr>sys_heap := h, sys_waiting := (sys_waiting S)(t \<mapsto> f)\<rparr>)"
| step_at_once:
    "sys_waiting S t = None \<Longrightarrow>
     wait_register sc (sys_heap S) i k address offset width expected timeout = (Some (Inr (x, slot)), h) \<Longrightarrow>
     wait_check interrupt now h (new_frame timeout start x slot) = Leave interrupted f \<Longrightarrow>
     wait_finish sc interrupted f h = (status, result, h') \<Longrightarrow>
     wait_step S (Returned t status result) (S\<lparr>sys_heap := h'\<rparr>)"
| step_resume:
    "sys_waiting S t = Some f \<Longrightarrow> wait_resume wait_status interrupt now (sys_heap S) f = Stay f' \<Longrightarrow>
     wait_step S (Resumed t) (S\<lparr>sys_waiting := (sys_waiting S)(t \<mapsto> f')\<rparr>)"
| step_return:
    "sys_waiting S t = Some f \<Longrightarrow> wait_resume wait_status interrupt now (sys_heap S) f = Leave interrupted f' \<Longrightarrow>
     wait_finish sc interrupted f' (sys_heap S) = (status, result, h') \<Longrightarrow>
     wait_step S (Returned t status result) (S\<lparr>sys_heap := h', sys_waiting := (sys_waiting S)(t := None)\<rparr>)"
| step_notify:
    "turbowasm_instance_memory_notify sc (sys_heap S) i k address offset count = Some (status, woken, trap, h) \<Longrightarrow>
     wait_step S (Notified woken) (S\<lparr>sys_heap := h\<rparr>)"
| step_access:
    "turbowasm_instance_memory_write_bytes (sys_heap S) i k address offset source = Some (status, h) \<Longrightarrow>
     length source < 2 ^ 64 \<Longrightarrow>
     wait_step S Accessed (S\<lparr>sys_heap := h\<rparr>)"
| step_atomic:
    "turbowasm_instance_memory_atomic sc (sys_heap S) i k address offset d v expected replacement = Some (status, old, trap, h) \<Longrightarrow>
     turbowasm_atomic_descriptor_find subopcode = Some d \<Longrightarrow>
     wait_step S Accessed (S\<lparr>sys_heap := h\<rparr>)"
| step_grow:
    "turbowasm_instance_memory_grow64 grant (sys_heap S) i k delta = Some (status, previous, h) \<Longrightarrow>
     wait_step S Accessed (S\<lparr>sys_heap := h\<rparr>)"

inductive wait_run :: "wait_system \<Rightarrow> wait_label list \<Rightarrow> wait_system \<Rightarrow> bool" where
  run_nil: "wait_run S [] S"
| run_snoc: "wait_run S ls S' \<Longrightarrow> wait_step S' l S'' \<Longrightarrow> wait_run S (ls @ [l]) S''"

end
