(* ===== verification/TW_Reader.thy ===== *)
theory TW_Reader
  imports TW_Prelude
begin

text \<open>
  The bounded byte reader of \<^verbatim>\<open>src/src/reader.c\<close> and the 33-bit reader of \<^verbatim>\<open>src/src/validate_type.c\<close>.

  A reader is a window \<open>[cursor, end)\<close> of a byte buffer. Every operation returns the value it stores
  through its out pointer (\<open>None\<close> when the C function returns false) and the reader as it is left, since
  a failing LEB128 read has already moved the cursor.

  The lemmas show that the reader is the list of its remaining bytes, that the five LEB128 decoders
  accept exactly the encodings of bounded length whose value fits the target width and return that
  value, and that every value of the target type can be read back from its encoding.
\<close>

subsection \<open>The window\<close>

record turbowasm_reader =
  base :: "u8 list"
  cursor :: nat
  reader_end :: nat

text \<open>A NULL buffer gives NULL bounds, that is an empty window.\<close>

definition turbowasm_reader_init :: "u8 list option \<Rightarrow> nat \<Rightarrow> turbowasm_reader" where
  "turbowasm_reader_init bytes n =
     (case bytes of
        None \<Rightarrow> \<lparr>base = [], cursor = 0, reader_end = 0\<rparr>
      | Some bs \<Rightarrow> \<lparr>base = bs, cursor = 0, reader_end = n\<rparr>)"

definition turbowasm_reader_remaining :: "turbowasm_reader \<Rightarrow> nat" where
  "turbowasm_reader_remaining r =
     (if reader_end r < cursor r then 0 else reader_end r - cursor r)"

definition turbowasm_reader_u8 :: "turbowasm_reader \<Rightarrow> u8 option \<times> turbowasm_reader" where
  "turbowasm_reader_u8 r =
     (if turbowasm_reader_remaining r < 1 then (None, r)
      else (Some (base r ! cursor r), r\<lparr>cursor := cursor r + 1\<rparr>))"

definition turbowasm_reader_u32le :: "turbowasm_reader \<Rightarrow> u32 option \<times> turbowasm_reader" where
  "turbowasm_reader_u32le r =
     (if turbowasm_reader_remaining r < 4 then (None, r)
      else let p = (\<lambda>i. ucast (base r ! (cursor r + i)) :: u32) in
        (Some (p 0 OR push_bit 8 (p 1) OR push_bit 16 (p 2) OR push_bit 24 (p 3)),
         r\<lparr>cursor := cursor r + 4\<rparr>))"

definition turbowasm_reader_slice ::
    "turbowasm_reader \<Rightarrow> nat \<Rightarrow> turbowasm_reader option \<times> turbowasm_reader" where
  "turbowasm_reader_slice r n =
     (if turbowasm_reader_remaining r < n then (None, r)
      else (Some \<lparr>base = base r, cursor = cursor r, reader_end = cursor r + n\<rparr>,
            r\<lparr>cursor := cursor r + n\<rparr>))"

subsection \<open>LEB128\<close>

text \<open>
  The \<^verbatim>\<open>do ... while\<close> loop that the decoders share. \<open>limit\<close> is the bound on \<^verbatim>\<open>count\<close> and \<open>reject\<close> the test
  each decoder makes on the byte it has just read; the result is the loop's \<^verbatim>\<open>value\<close>, \<^verbatim>\<open>shift\<close>,
  \<^verbatim>\<open>byte\<close> and \<^verbatim>\<open>count\<close> at its exit.
\<close>

function leb_loop ::
    "nat \<Rightarrow> (nat \<Rightarrow> nat \<Rightarrow> u8 \<Rightarrow> bool) \<Rightarrow> 'a::len word \<Rightarrow> nat \<Rightarrow> nat \<Rightarrow> turbowasm_reader \<Rightarrow>
     ('a word \<times> nat \<times> u8 \<times> nat) option \<times> turbowasm_reader" where
  "leb_loop limit reject val shift count r =
     (if limit \<le> count then (None, r)
      else case turbowasm_reader_u8 r of
        (None, r1) \<Rightarrow> (None, r1)
      | (Some byte, r1) \<Rightarrow>
          if reject shift count byte then (None, r1)
          else
            let val' = val OR push_bit shift (ucast (byte AND 0x7f)) in
            if byte AND 0x80 \<noteq> 0
            then leb_loop limit reject val' (shift + 7) (count + 1) r1
            else (Some (val', shift + 7, byte, count + 1), r1))"
  by pat_completeness auto
termination
  by (relation "measure (\<lambda>(limit, reject, val, shift, count, r). limit - count)") auto

declare leb_loop.simps [simp del]

definition turbowasm_reader_uleb32 :: "turbowasm_reader \<Rightarrow> u32 option \<times> turbowasm_reader" where
  "turbowasm_reader_uleb32 r =
     (case leb_loop 5 (\<lambda>shift count byte. shift = 28 \<and> byte AND 0xf0 \<noteq> 0) (0::u32) 0 0 r of
        (None, r1) \<Rightarrow> (None, r1)
      | (Some (val, shift, byte, count), r1) \<Rightarrow> (Some val, r1))"

definition turbowasm_reader_uleb64 :: "turbowasm_reader \<Rightarrow> u64 option \<times> turbowasm_reader" where
  "turbowasm_reader_uleb64 r =
     (case leb_loop 10 (\<lambda>shift count byte. count = 9 \<and> byte AND 0xfe \<noteq> 0) (0::u64) 0 0 r of
        (None, r1) \<Rightarrow> (None, r1)
      | (Some (val, shift, byte, count), r1) \<Rightarrow> (Some val, r1))"

text \<open>
  The test of the signed decoders on their last possible byte: the payload bits above the sign bit
  (\<open>unused\<close>) must all be zero, or all be one when the sign bit is set.
\<close>

definition sleb_malformed :: "u8 \<Rightarrow> u8 \<Rightarrow> u8 \<Rightarrow> bool" where
  "sleb_malformed sign unused_bits byte \<longleftrightarrow>
     (let payload = byte AND 0x7f;
          negative = payload AND sign \<noteq> 0;
          unused = payload AND unused_bits
      in (\<not> negative \<and> unused \<noteq> 0) \<or> (negative \<and> unused \<noteq> unused_bits))"

definition sleb_reject :: "nat \<Rightarrow> u8 \<Rightarrow> u8 \<Rightarrow> nat \<Rightarrow> nat \<Rightarrow> u8 \<Rightarrow> bool" where
  "sleb_reject final sign unused_bits shift count byte \<longleftrightarrow>
     count = final \<and> sleb_malformed sign unused_bits byte"

definition turbowasm_reader_sleb32 :: "turbowasm_reader \<Rightarrow> u32 option \<times> turbowasm_reader" where
  "turbowasm_reader_sleb32 r =
     (case leb_loop 5 (sleb_reject 4 0x08 0x70) (0::u32) 0 0 r of
        (None, r1) \<Rightarrow> (None, r1)
      | (Some (val, shift, byte, count), r1) \<Rightarrow>
          (Some (if shift < 32 \<and> byte AND 0x40 \<noteq> 0 then val OR push_bit shift (NOT 0) else val), r1))"

definition turbowasm_reader_sleb64 :: "turbowasm_reader \<Rightarrow> u64 option \<times> turbowasm_reader" where
  "turbowasm_reader_sleb64 r =
     (case leb_loop 10 (sleb_reject 9 0x01 0x7e) (0::u64) 0 0 r of
        (None, r1) \<Rightarrow> (None, r1)
      | (Some (val, shift, byte, count), r1) \<Rightarrow>
          (Some (if shift < 64 \<and> byte AND 0x40 \<noteq> 0 then val OR push_bit shift (NOT 0) else val), r1))"

definition turbowasm_validation_read_s33 :: "turbowasm_reader \<Rightarrow> u64 option \<times> turbowasm_reader" where
  "turbowasm_validation_read_s33 r =
     (case leb_loop 5 (sleb_reject 4 0x10 0x60) (0::u64) 0 0 r of
        (None, r1) \<Rightarrow> (None, r1)
      | (Some (val, shift, byte, count), r1) \<Rightarrow>
          (Some (if count = 5
                 then (if byte AND 0x10 \<noteq> 0 then val OR push_bit 33 (NOT 0) else val)
                 else if byte AND 0x40 \<noteq> 0 \<and> shift < 64 then val OR push_bit shift (NOT 0)
                 else val), r1))"


subsection \<open>The reader as the list of its remaining bytes\<close>

definition wf_reader :: "turbowasm_reader \<Rightarrow> bool" where
  "wf_reader r \<longleftrightarrow> cursor r \<le> reader_end r \<and> reader_end r \<le> length (base r)"

definition rest :: "turbowasm_reader \<Rightarrow> u8 list" where
  "rest r = take (reader_end r - cursor r) (drop (cursor r) (base r))"

definition advance :: "nat \<Rightarrow> turbowasm_reader \<Rightarrow> turbowasm_reader" where
  "advance n r = r\<lparr>cursor := cursor r + n\<rparr>"

lemma wf_reader_init: "n \<le> length bs \<Longrightarrow> wf_reader (turbowasm_reader_init (Some bs) n)"
  by (simp add: wf_reader_def turbowasm_reader_init_def)

lemma rest_init [simp]: "rest (turbowasm_reader_init (Some bs) n) = take n bs"
  by (simp add: rest_def turbowasm_reader_init_def)

lemma length_rest: "wf_reader r \<Longrightarrow> length (rest r) = reader_end r - cursor r"
  by (auto simp: wf_reader_def rest_def min_def)

lemma remaining_eq: "wf_reader r \<Longrightarrow> turbowasm_reader_remaining r = length (rest r)"
  by (simp add: length_rest turbowasm_reader_remaining_def)

lemma rest_advance: "rest (advance n r) = drop n (rest r)"
  by (simp add: rest_def advance_def drop_take add.commute)

lemma wf_advance: "wf_reader r \<Longrightarrow> n \<le> length (rest r) \<Longrightarrow> wf_reader (advance n r)"
  by (auto simp: wf_reader_def rest_def advance_def)

lemma advance_0 [simp]: "advance 0 r = r"
  by (simp add: advance_def)

lemma advance_advance [simp]: "advance m (advance n r) = advance (n + m) r"
  by (simp add: advance_def add.assoc)

lemma rest_nth: "wf_reader r \<Longrightarrow> i < length (rest r) \<Longrightarrow> base r ! (cursor r + i) = rest r ! i"
  by (simp add: wf_reader_def rest_def)

lemma reader_u8_eq:
  assumes "wf_reader r"
  shows "turbowasm_reader_u8 r =
    (case rest r of [] \<Rightarrow> (None, r) | b # _ \<Rightarrow> (Some b, advance 1 r))"
proof (cases "rest r")
  case Nil
  then show ?thesis
    using assms by (simp add: turbowasm_reader_u8_def remaining_eq)
next
  case (Cons b bs)
  then have "base r ! cursor r = b"
    using rest_nth [OF assms, of 0] by simp
  then show ?thesis
    using assms Cons by (simp add: turbowasm_reader_u8_def remaining_eq advance_def)
qed

lemma reader_slice_eq:
  assumes "wf_reader r"
  shows "turbowasm_reader_slice r n =
    (if length (rest r) < n then (None, r)
     else (Some (r\<lparr>reader_end := cursor r + n\<rparr>), advance n r))"
  using assms by (simp add: turbowasm_reader_slice_def remaining_eq advance_def)

lemma rest_slice:
  assumes "wf_reader r" and "turbowasm_reader_slice r n = (Some s, r')"
  shows "wf_reader s" and "wf_reader r'" and "rest s = take n (rest r)" and "rest r' = drop n (rest r)"
    and "n \<le> length (rest r)"
proof -
  from assms have n: "n \<le> reader_end r - cursor r" and s: "s = r\<lparr>reader_end := cursor r + n\<rparr>"
    and r': "r' = advance n r"
    by (auto simp: reader_slice_eq length_rest split: if_splits)
  show "n \<le> length (rest r)"
    using assms(1) n by (simp add: length_rest)
  then show "wf_reader r'" and "rest r' = drop n (rest r)"
    using assms(1) by (simp_all add: r' wf_advance rest_advance)
  show "wf_reader s" and "rest s = take n (rest r)"
    using assms(1) n by (auto simp: s wf_reader_def rest_def min_def)
qed

subsection \<open>LEB128 values\<close>

text \<open>The shortest prefix that ends in a byte whose continuation bit is clear.\<close>

fun leb_prefix :: "u8 list \<Rightarrow> u8 list option" where
  "leb_prefix [] = None"
| "leb_prefix (b # bs) = (if b AND 128 \<noteq> 0 then map_option (Cons b) (leb_prefix bs) else Some [b])"

text \<open>The unsigned number that a group of bytes denotes: seven payload bits each, the least first.\<close>

fun uleb_val :: "u8 list \<Rightarrow> nat" where
  "uleb_val [] = 0"
| "uleb_val (b # bs) = unat (b AND 127) + 128 * uleb_val bs"

text \<open>The signed number: the last payload bit weighs negatively.\<close>

definition sleb_val :: "u8 list \<Rightarrow> int" where
  "sleb_val bs =
     int (uleb_val bs) - (if bs \<noteq> [] \<and> last bs AND 64 \<noteq> 0 then 2 ^ (7 * length bs) else 0)"

lemma uleb_val_append: "uleb_val (xs @ ys) = uleb_val xs + 2 ^ (7 * length xs) * uleb_val ys"
  by (induction xs) (simp_all add: algebra_simps power_add)

lemma unat_and_127_less: "unat ((b::u8) AND 127) < 128"
  by (simp add: unat_and_127)

lemma uleb_val_less: "uleb_val bs < 2 ^ (7 * length bs)"
proof (induction bs)
  case Nil
  then show ?case by simp
next
  case (Cons b bs)
  then have "128 * uleb_val bs + 128 \<le> 128 * 2 ^ (7 * length bs)"
    by simp
  with unat_and_127_less [of b] show ?case
    by (simp add: power_add algebra_simps)
qed

lemma leb_prefix_take:
  "leb_prefix xs = Some bs \<Longrightarrow> bs \<noteq> [] \<and> bs = take (length bs) xs \<and> length bs \<le> length xs"
  by (induction xs arbitrary: bs) (auto split: if_splits)

lemma leb_prefix_cont:
  "leb_prefix xs = Some bs \<Longrightarrow>
     last bs AND 128 = 0 \<and> (\<forall>i. Suc i < length bs \<longrightarrow> bs ! i AND 128 \<noteq> 0)"
proof (induction xs arbitrary: bs)
  case Nil
  then show ?case by simp
next
  case (Cons b xs)
  show ?case
  proof (cases "b AND 128 = 0")
    case True
    with Cons.prems show ?thesis by auto
  next
    case False
    with Cons.prems obtain cs where cs: "leb_prefix xs = Some cs" "bs = b # cs" by auto
    from leb_prefix_take [OF cs(1)] Cons.IH [OF cs(1)] False cs(2) show ?thesis
      by (auto simp: nth_Cons split: nat.splits)
  qed
qed

text \<open>What the loop computes, for any limit and any test on the bytes.\<close>

definition leb_ok :: "nat \<Rightarrow> (nat \<Rightarrow> nat \<Rightarrow> u8 \<Rightarrow> bool) \<Rightarrow> nat \<Rightarrow> u8 list \<Rightarrow> bool" where
  "leb_ok limit reject count bs \<longleftrightarrow>
     count + length bs \<le> limit \<and>
     (\<forall>i < length bs. \<not> reject (7 * (count + i)) (count + i) (bs ! i))"

lemma leb_ok_Nil: "leb_ok limit reject count [] \<longleftrightarrow> count \<le> limit"
  by (simp add: leb_ok_def)

lemma leb_ok_Cons:
  "leb_ok limit reject count (b # bs) \<longleftrightarrow>
     count < limit \<and> \<not> reject (7 * count) count b \<and> leb_ok limit reject (count + 1) bs"
  by (auto simp: leb_ok_def All_less_Suc2 algebra_simps)

lemma leb_step_value:
  "(of_nat (uleb_val ds) :: 'a::len word) OR push_bit (7 * length ds) (ucast (b AND (127::u8)))
     = of_nat (uleb_val (ds @ [b]))"
proof -
  have "(ucast (b AND 127) :: 'a word) = of_nat (unat (b AND 127))"
    by (simp add: of_nat_unat)
  then show ?thesis
    using word_or_push_bit [OF uleb_val_less, of ds "unat (b AND 127)", where 'a = 'a]
    by (simp add: uleb_val_append)
qed

lemma leb_loop_Nil: "wf_reader r \<Longrightarrow> rest r = [] \<Longrightarrow> leb_loop limit reject val shift count r = (None, r)"
  by (subst leb_loop.simps) (simp add: reader_u8_eq)

lemma leb_loop_Cons:
  assumes "wf_reader r" and "rest r = b # bs"
  shows "leb_loop limit reject val shift count r =
    (if limit \<le> count then (None, r)
     else if reject shift count b then (None, advance 1 r)
     else if b AND 128 \<noteq> 0
     then leb_loop limit reject (val OR push_bit shift (ucast (b AND 127))) (shift + 7) (count + 1) (advance 1 r)
     else (Some (val OR push_bit shift (ucast (b AND 127)), shift + 7, b, count + 1), advance 1 r))"
  using assms by (subst leb_loop.simps) (simp add: reader_u8_eq Let_def)

lemma rest_Cons_advance:
  "wf_reader r \<Longrightarrow> rest r = b # bs \<Longrightarrow> wf_reader (advance 1 r) \<and> rest (advance 1 r) = bs"
  by (simp add: wf_advance rest_advance)

lemma leb_loop_fst:
  assumes "wf_reader r"
  shows "fst (leb_loop limit reject (of_nat (uleb_val ds) :: 'a::len word) (7 * length ds) (length ds) r) =
    (case leb_prefix (rest r) of
       None \<Rightarrow> None
     | Some bs \<Rightarrow>
         if leb_ok limit reject (length ds) bs
         then Some (of_nat (uleb_val (ds @ bs)), 7 * (length ds + length bs), last bs, length ds + length bs)
         else None)"
  using assms
proof (induction "rest r" arbitrary: r ds)
  case Nil
  show ?case
    by (simp add: leb_loop_Nil [OF Nil.prems Nil.hyps [symmetric]] Nil.hyps [symmetric])
next
  case (Cons b bs)
  note r = Cons.hyps(2) [symmetric]
  note nxt = rest_Cons_advance [OF Cons.prems r]
  have IH: "fst (leb_loop limit reject (of_nat (uleb_val (ds @ [b])) :: 'a word)
      (7 * length ds + 7) (length ds + 1) (advance 1 r)) =
    (case leb_prefix bs of
       None \<Rightarrow> None
     | Some cs \<Rightarrow>
         if leb_ok limit reject (length ds + 1) cs
         then Some (of_nat (uleb_val (ds @ b # cs)), 7 * (length ds + 1 + length cs), last cs, length ds + 1 + length cs)
         else None)"
    using Cons.hyps(1) [of "advance 1 r" "ds @ [b]"] nxt
    by (simp add: add.commute split: option.split)
  show ?case
  proof (cases "leb_prefix bs")
    case None
    then show ?thesis
      by (simp add: leb_loop_Cons [OF Cons.prems r] leb_step_value IH r leb_ok_Cons leb_ok_Nil
        del: uleb_val.simps One_nat_def)
  next
    case (Some cs)
    then have "cs \<noteq> []"
      by (auto dest: leb_prefix_take)
    with Some show ?thesis
      by (auto simp add: leb_loop_Cons [OF Cons.prems r] leb_step_value IH r leb_ok_Cons leb_ok_Nil
        simp del: uleb_val.simps One_nat_def)
  qed
qed

lemma leb_loop_snd:
  assumes "wf_reader r" and "leb_prefix (rest r) = Some bs"
    and "fst (leb_loop limit reject val shift count r) \<noteq> None"
  shows "snd (leb_loop limit reject val shift count r) = advance (length bs) r"
  using assms
proof (induction "rest r" arbitrary: r bs val shift count)
  case Nil
  then show ?case by simp
next
  case (Cons b xs)
  note r = Cons.hyps(2) [symmetric]
  note nxt = rest_Cons_advance [OF Cons.prems(1) r]
  show ?case
  proof (cases "b AND 128 = 0")
    case True
    with Cons.prems(2,3) r show ?thesis
      by (auto simp: leb_loop_Cons [OF Cons.prems(1) r] split: if_splits)
  next
    case False
    with Cons.prems(2) r obtain cs where "leb_prefix xs = Some cs" and "bs = b # cs"
      by auto
    with False Cons.prems(3) Cons.hyps(1) [of "advance 1 r" cs] nxt show ?thesis
      by (auto simp: leb_loop_Cons [OF Cons.prems(1) r] split: if_splits)
  qed
qed

lemma leb_loop_keeps:
  assumes "wf_reader r"
  shows "\<exists>n \<le> length (rest r). snd (leb_loop limit reject val shift count r) = advance n r"
  using assms
proof (induction "rest r" arbitrary: r val shift count)
  case Nil
  show ?case
    by (intro exI [where x = 0]) (simp add: leb_loop_Nil [OF Nil.prems Nil.hyps [symmetric]])
next
  case (Cons b xs)
  note r = Cons.hyps(2) [symmetric]
  note nxt = rest_Cons_advance [OF Cons.prems r]
  have IH: "\<exists>n \<le> length (rest r). snd (leb_loop limit reject v s c (advance 1 r)) = advance n r"
    for v :: "'a word" and s c
  proof -
    obtain n where "n \<le> length xs" "snd (leb_loop limit reject v s c (advance 1 r)) = advance n (advance 1 r)"
      using Cons.hyps(1) [of "advance 1 r" v s c] nxt by auto
    then show ?thesis
      using r by (intro exI [where x = "1 + n"]) simp
  qed
  have ex: "\<exists>n \<le> length (rest r). advance k r = advance n r" if "k \<le> 1" for k
    using r that by (intro exI [where x = k]) simp
  show ?case
    using IH ex [of 0] ex [of 1] by (simp add: leb_loop_Cons [OF Cons.prems r])
qed

subsection \<open>The five formats\<close>

text \<open>
  What a decoder promises: among the encodings of at most \<open>limit\<close> bytes its test rejects exactly
  those whose number is out of range. The decoder's result then follows once and for all.
\<close>

locale leb_format =
  fixes limit :: nat and reject :: "nat \<Rightarrow> nat \<Rightarrow> u8 \<Rightarrow> bool" and in_range :: "u8 list \<Rightarrow> bool"
  assumes reject_iff:
    "leb_prefix xs = Some bs \<Longrightarrow> length bs \<le> limit \<Longrightarrow>
       (\<forall>i < length bs. \<not> reject (7 * i) i (bs ! i)) \<longleftrightarrow> in_range bs"
begin

lemma loop_result:
  assumes "wf_reader r"
  shows "fst (leb_loop limit reject (0 :: 'a::len word) 0 0 r) =
    (case leb_prefix (rest r) of
       None \<Rightarrow> None
     | Some bs \<Rightarrow>
         if length bs \<le> limit \<and> in_range bs
         then Some (of_nat (uleb_val bs), 7 * length bs, last bs, length bs) else None)"
  using leb_loop_fst [OF assms, of limit reject "[]", where 'a = 'a] reject_iff
  by (auto simp: leb_ok_def split: option.splits)

lemma loop_reader:
  assumes "wf_reader r" and "leb_prefix (rest r) = Some bs" and "length bs \<le> limit" and "in_range bs"
  shows "leb_loop limit reject (0 :: 'a::len word) 0 0 r =
    (Some (of_nat (uleb_val bs), 7 * length bs, last bs, length bs), advance (length bs) r)"
  using loop_result [OF assms(1), where 'a = 'a] leb_loop_snd [OF assms(1,2), of limit reject "0 :: 'a word" 0 0] assms
  by (simp add: prod_eq_iff)

end

text \<open>The last byte of an encoding carries no continuation bit, so it is its own payload.\<close>

lemma leb_prefix_last:
  assumes "leb_prefix xs = Some bs" and "length bs = Suc n"
  obtains ds b where "bs = ds @ [b]" "length ds = n" "unat b < 128"
    "uleb_val bs = uleb_val ds + 2 ^ (7 * n) * unat b" "uleb_val ds < 2 ^ (7 * n)"
proof -
  from assms obtain ds b where bs: "bs = ds @ [b]"
    by (metis append_butlast_last_id length_0_conv nat.distinct(1))
  with leb_prefix_cont [OF assms(1)] have "unat b < 128"
    by (simp add: and_128_eq_0)
  moreover have "length ds = n" using assms(2) bs by simp
  ultimately show ?thesis
    using bs uleb_val_less [of ds] by (intro that) (auto simp: uleb_val_append unat_and_127)
qed

lemma and_f0_eq_0: "(b::u8) AND 240 = 0 \<longleftrightarrow> unat b < 16"
proof -
  have "NOT (mask 4) = (240 :: u8)"
    by (simp add: mask_eq_exp_minus_1)
  then show ?thesis
    using word_and_not_mask_eq_0 [of b 4] by simp
qed

lemma and_fe_eq_0: "(b::u8) AND 254 = 0 \<longleftrightarrow> unat b < 2"
proof -
  have "NOT (mask 1) = (254 :: u8)"
    by (simp add: mask_eq_exp_minus_1)
  then show ?thesis
    using word_and_not_mask_eq_0 [of b 1] by (simp only: power_one_right)
qed

lemma sleb_malformed_32: "\<not> sleb_malformed 8 112 b \<longleftrightarrow> unat b mod 128 < 8 \<or> 120 \<le> unat b mod 128"
  by (rule all_u8, code_simp)

lemma sleb_malformed_64: "\<not> sleb_malformed 1 126 b \<longleftrightarrow> unat b mod 128 < 1 \<or> 127 \<le> unat b mod 128"
  by (rule all_u8, code_simp)

lemma sleb_malformed_33: "\<not> sleb_malformed 16 96 b \<longleftrightarrow> unat b mod 128 < 16 \<or> 112 \<le> unat b mod 128"
  by (rule all_u8, code_simp)

lemma uleb_val_less_pow: "length bs \<le> n \<Longrightarrow> uleb_val bs < 2 ^ (7 * n)"
  by (rule less_le_trans [OF uleb_val_less]) (simp add: power_increasing)

lemma last_byte_only:
  assumes "bs = ds @ [b]" and "length ds = n"
  shows "(\<forall>i < length bs. \<not> (i = n \<and> P (bs ! i))) \<longleftrightarrow> \<not> P b"
  using assms by (auto simp: nth_append)

interpretation uleb32: leb_format 5 "\<lambda>shift count byte. shift = 28 \<and> byte AND 0xf0 \<noteq> 0"
  "\<lambda>bs. uleb_val bs < 2 ^ 32"
proof
  fix xs bs
  assume leb: "leb_prefix xs = Some bs" and len: "length bs \<le> 5"
  show "(\<forall>i < length bs. \<not> (7 * i = 28 \<and> bs ! i AND 0xf0 \<noteq> 0)) \<longleftrightarrow> uleb_val bs < 2 ^ 32"
  proof (cases "length bs = 5")
    case True
    obtain ds b where *: "bs = ds @ [b]" "length ds = 4" "unat b < 128"
        "uleb_val bs = uleb_val ds + 2 ^ (7 * 4) * unat b" "uleb_val ds < 2 ^ (7 * 4)"
      by (rule leb_prefix_last [OF leb, of 4]) (use True in simp_all)
    have "(\<forall>i < length bs. \<not> (i = 4 \<and> bs ! i AND 240 \<noteq> 0)) \<longleftrightarrow> unat b < 16"
      using last_byte_only [OF *(1,2), of "\<lambda>b. b AND 240 \<noteq> 0"] by (simp add: and_f0_eq_0)
    then show ?thesis
      using *(4,5) by auto
  next
    case False
    then show ?thesis
      using len uleb_val_less_pow [of bs 4] by auto
  qed
qed

interpretation uleb64: leb_format 10 "\<lambda>shift count byte. count = 9 \<and> byte AND 0xfe \<noteq> 0"
  "\<lambda>bs. uleb_val bs < 2 ^ 64"
proof
  fix xs bs
  assume leb: "leb_prefix xs = Some bs" and len: "length bs \<le> 10"
  show "(\<forall>i < length bs. \<not> (i = 9 \<and> bs ! i AND 0xfe \<noteq> 0)) \<longleftrightarrow> uleb_val bs < 2 ^ 64"
  proof (cases "length bs = 10")
    case True
    obtain ds b where *: "bs = ds @ [b]" "length ds = 9" "unat b < 128"
        "uleb_val bs = uleb_val ds + 2 ^ (7 * 9) * unat b" "uleb_val ds < 2 ^ (7 * 9)"
      by (rule leb_prefix_last [OF leb, of 9]) (use True in simp_all)
    have "(\<forall>i < length bs. \<not> (i = 9 \<and> bs ! i AND 254 \<noteq> 0)) \<longleftrightarrow> unat b < 2"
      using last_byte_only [OF *(1,2), of "\<lambda>b. b AND 254 \<noteq> 0"] by (simp add: and_fe_eq_0)
    then show ?thesis
      using *(4,5) by auto
  next
    case False
    then show ?thesis
      using len uleb_val_less_pow [of bs 9] by auto
  qed
qed

text \<open>The number a signed encoding denotes, over its last byte.\<close>

definition sext7 :: "nat \<Rightarrow> int" where
  "sext7 p = (if p < 64 then int p else int p - 128)"

lemma sext7_bounds: "p < 128 \<Longrightarrow> - 64 \<le> sext7 p \<and> sext7 p \<le> 63"
  by (simp add: sext7_def)

lemma sext7_fits:
  assumes "p < 128" and "k < 6"
  shows "- (2 ^ k) \<le> sext7 p \<and> sext7 p < 2 ^ k \<longleftrightarrow> p < 2 ^ k \<or> 128 - 2 ^ k \<le> p"
proof -
  have "(2::nat) ^ k \<le> 2 ^ 5"
    using assms(2) by (intro power_increasing) simp_all
  moreover have "(2::int) ^ k = int (2 ^ k)" by simp
  ultimately show ?thesis
    using assms(1) unfolding sext7_def by (simp only: split: if_split) linarith
qed

lemma sleb_val_last:
  assumes "bs = ds @ [b]" and "length ds = n" and "unat b < 128"
  shows "sleb_val bs = int (uleb_val ds) + 2 ^ (7 * n) * sext7 (unat b)"
  using assms
  by (simp add: sleb_val_def sext7_def uleb_val_append unat_and_127 and_64_eq_0 power_add algebra_simps)

definition sleb_fits :: "nat \<Rightarrow> u8 list \<Rightarrow> bool" where
  "sleb_fits width bs \<longleftrightarrow> - (2 ^ (width - 1)) \<le> sleb_val bs \<and> sleb_val bs < 2 ^ (width - 1)"

text \<open>
  An encoding of at most \<open>n\<close> bytes always fits \<open>7 * n\<close> bits; one of \<open>n + 1\<close> bytes fits
  \<open>7 * n + k\<close> bits, \<open>k < 7\<close>, when its last payload is a sign extension of its low \<open>k\<close> bits.
\<close>

lemma sleb_fits_short:
  assumes "leb_prefix xs = Some bs" and "length bs \<le> n" and "7 * n \<le> width"
  shows "sleb_fits width bs"
proof -
  from assms(1) obtain m where m: "length bs = Suc m"
    by (metis leb_prefix_take length_0_conv not0_implies_Suc)
  obtain ds b where *: "bs = ds @ [b]" "length ds = m" "unat b < 128"
      "uleb_val bs = uleb_val ds + 2 ^ (7 * m) * unat b" "uleb_val ds < 2 ^ (7 * m)"
    by (rule leb_prefix_last [OF assms(1) m])
  let ?u = "int (uleb_val ds)" and ?P = "(2::int) ^ (7 * m)"
  have u: "0 \<le> ?u" "?u < ?P"
    using int_less_pow [OF *(5)] by simp_all
  have "?P * - 64 \<le> sleb_val bs" and "sleb_val bs < ?P * 64"
    unfolding sleb_val_last [OF *(1,2,3)] mixed_radix_less [OF u] mixed_radix_ge [OF u]
    using sext7_bounds [OF *(3)] by simp_all
  moreover have "(2::int) ^ (7 * m) * 64 \<le> 2 ^ (width - 1)"
  proof -
    have "(2::int) ^ (7 * m + 6) \<le> 2 ^ (width - 1)"
      using m assms(2,3) by (intro power_increasing) simp_all
    then show ?thesis by (simp add: power_add)
  qed
  ultimately show ?thesis by (simp add: sleb_fits_def)
qed

lemma sleb_fits_long:
  assumes "bs = ds @ [b]" and "length ds = n" and "unat b < 128" and "uleb_val ds < 2 ^ (7 * n)" and "k < 6"
  shows "sleb_fits (7 * n + k + 1) bs \<longleftrightarrow> unat b < 2 ^ k \<or> 128 - 2 ^ k \<le> unat b"
proof -
  let ?u = "int (uleb_val ds)" and ?P = "(2::int) ^ (7 * n)"
  have u: "0 \<le> ?u" "?u < ?P"
    using int_less_pow [OF assms(4)] by simp_all
  have "sleb_fits (7 * n + k + 1) bs \<longleftrightarrow>
      ?P * - (2 ^ k) \<le> ?u + ?P * sext7 (unat b) \<and> ?u + ?P * sext7 (unat b) < ?P * 2 ^ k"
    by (simp add: sleb_fits_def sleb_val_last [OF assms(1-3)] power_add)
  also have "\<dots> \<longleftrightarrow> unat b < 2 ^ k \<or> 128 - 2 ^ k \<le> unat b"
    unfolding mixed_radix_less [OF u] mixed_radix_ge [OF u] by (rule sext7_fits [OF assms(3,5)])
  finally show ?thesis .
qed

text \<open>The sign test on the last byte, for the three widths.\<close>

lemma sleb_reject_range:
  assumes leb: "leb_prefix xs = Some bs" and len: "length bs \<le> Suc n" and k: "k < 6"
    and mal: "\<And>b. \<not> sleb_malformed sign unused b \<longleftrightarrow> unat b mod 128 < 2 ^ k \<or> 128 - 2 ^ k \<le> unat b mod 128"
  shows "(\<forall>i < length bs. \<not> sleb_reject n sign unused (7 * i) i (bs ! i)) \<longleftrightarrow> sleb_fits (7 * n + k + 1) bs"
proof (cases "length bs = Suc n")
  case True
  obtain ds b where *: "bs = ds @ [b]" "length ds = n" "unat b < 128"
      "uleb_val bs = uleb_val ds + 2 ^ (7 * n) * unat b" "uleb_val ds < 2 ^ (7 * n)"
    by (rule leb_prefix_last [OF leb True])
  have "(\<forall>i < length bs. \<not> sleb_reject n sign unused (7 * i) i (bs ! i)) \<longleftrightarrow> \<not> sleb_malformed sign unused b"
    unfolding sleb_reject_def by (rule last_byte_only [OF *(1,2)])
  then show ?thesis
    using *(3) sleb_fits_long [OF *(1,2,3,5) k] by (simp add: mal)
next
  case False
  with len have "length bs \<le> n" by simp
  moreover from this have "sleb_fits (7 * n + k + 1) bs"
    by (rule sleb_fits_short [OF leb, of n]) linarith
  ultimately show ?thesis by (auto simp: sleb_reject_def)
qed

interpretation sleb32: leb_format 5 "sleb_reject 4 0x08 0x70" "sleb_fits 32"
  using sleb_reject_range [where n = 4 and k = 3 and sign = 8 and unused = 112] sleb_malformed_32
  by unfold_locales simp

interpretation sleb64: leb_format 10 "sleb_reject 9 0x01 0x7e" "sleb_fits 64"
  using sleb_reject_range [where n = 9 and k = 0 and sign = 1 and unused = 126] sleb_malformed_64
  by unfold_locales simp

interpretation sleb33: leb_format 5 "sleb_reject 4 0x10 0x60" "sleb_fits 33"
  using sleb_reject_range [where n = 4 and k = 4 and sign = 16 and unused = 96] sleb_malformed_33
  by unfold_locales simp

subsection \<open>Results of the decoders\<close>

text \<open>A read as one value: \<open>None\<close> for failure, else the decoded value and the reader behind it.\<close>

definition outcome :: "'v option \<times> turbowasm_reader \<Rightarrow> ('v \<times> turbowasm_reader) option" where
  "outcome res = map_option (\<lambda>v. (v, snd res)) (fst res)"

text \<open>
  The reference decoder: find the encoding by its continuation bits, require that it is short
  enough and that its number fits, and step over it.
\<close>

definition leb_spec ::
    "nat \<Rightarrow> (u8 list \<Rightarrow> bool) \<Rightarrow> (u8 list \<Rightarrow> 'v) \<Rightarrow> turbowasm_reader \<Rightarrow> ('v \<times> turbowasm_reader) option" where
  "leb_spec limit fits number r =
     (case leb_prefix (rest r) of
        None \<Rightarrow> None
      | Some bs \<Rightarrow> if length bs \<le> limit \<and> fits bs then Some (number bs, advance (length bs) r) else None)"

context leb_format
begin

lemma outcome_loop:
  assumes "wf_reader r"
  shows "outcome (case leb_loop limit reject (0 :: 'a::len word) 0 0 r of
      (None, r1) \<Rightarrow> (None, r1)
    | (Some (val, shift, byte, count), r1) \<Rightarrow> (Some (finish val shift byte count), r1)) =
    leb_spec limit in_range (\<lambda>bs. finish (of_nat (uleb_val bs)) (7 * length bs) (last bs) (length bs)) r"
proof (cases "fst (leb_loop limit reject (0 :: 'a word) 0 0 r) = None")
  case True
  then have "outcome (case leb_loop limit reject (0 :: 'a word) 0 0 r of
      (None, r1) \<Rightarrow> (None, r1)
    | (Some (val, shift, byte, count), r1) \<Rightarrow> (Some (finish val shift byte count), r1)) = None"
    by (auto simp: outcome_def split: prod.splits option.splits)
  moreover have "leb_spec limit in_range (\<lambda>bs. finish (of_nat (uleb_val bs)) (7 * length bs) (last bs) (length bs)) r = None"
    using True loop_result [OF assms, where 'a = 'a] by (auto simp: leb_spec_def split: option.splits if_splits)
  ultimately show ?thesis by simp
next
  case False
  then obtain bs where "leb_prefix (rest r) = Some bs" "length bs \<le> limit" "in_range bs"
    using loop_result [OF assms, where 'a = 'a] by (auto split: option.splits if_splits)
  with loop_reader [OF assms this, where 'a = 'a] show ?thesis
    by (simp add: outcome_def leb_spec_def)
qed

end

lemma leb_spec_cong:
  "(\<And>xs bs. leb_prefix xs = Some bs \<Longrightarrow> length bs \<le> limit \<Longrightarrow> fits bs \<Longrightarrow> f bs = g bs) \<Longrightarrow>
   leb_spec limit fits f r = leb_spec limit fits g r"
  by (auto simp: leb_spec_def split: option.splits)

lemma uleb32_eq_spec:
  "wf_reader r \<Longrightarrow> outcome (turbowasm_reader_uleb32 r) =
     leb_spec 5 (\<lambda>bs. uleb_val bs < 2 ^ 32) (\<lambda>bs. of_nat (uleb_val bs)) r"
  unfolding turbowasm_reader_uleb32_def by (rule uleb32.outcome_loop)

lemma uleb64_eq_spec:
  "wf_reader r \<Longrightarrow> outcome (turbowasm_reader_uleb64 r) =
     leb_spec 10 (\<lambda>bs. uleb_val bs < 2 ^ 64) (\<lambda>bs. of_nat (uleb_val bs)) r"
  unfolding turbowasm_reader_uleb64_def by (rule uleb64.outcome_loop)

text \<open>Sign extension: short encodings are extended by the final or, full-length ones by truncation.\<close>

lemma sleb_extend:
  assumes "bs \<noteq> []"
  shows "(if last bs AND 64 \<noteq> 0 then (of_nat (uleb_val bs) :: 'a::len word) OR push_bit (7 * length bs) (NOT 0)
          else of_nat (uleb_val bs)) = of_int (sleb_val bs)"
  using word_sign_extend_or [OF uleb_val_less [of bs], where 'a = 'a] assms by (simp add: sleb_val_def)

lemma sleb_truncate:
  assumes "LENGTH('a) \<le> 7 * length bs"
  shows "(of_nat (uleb_val bs) :: 'a::len word) = of_int (sleb_val bs)"
proof -
  have "(2 :: 'a word) ^ (7 * length bs) = 0"
    using assms by (simp add: exp_eq_zero_iff)
  then show ?thesis by (simp add: sleb_val_def)
qed

lemma sleb32_eq_spec:
  "wf_reader r \<Longrightarrow> outcome (turbowasm_reader_sleb32 r) =
     leb_spec 5 (sleb_fits 32) (\<lambda>bs. of_int (sleb_val bs)) r"
  unfolding turbowasm_reader_sleb32_def
proof (subst sleb32.outcome_loop, assumption, rule leb_spec_cong)
  fix xs bs
  assume "leb_prefix xs = Some bs" "length bs \<le> 5"
  then show "(if 7 * length bs < 32 \<and> last bs AND 0x40 \<noteq> 0
      then (of_nat (uleb_val bs) :: u32) OR push_bit (7 * length bs) (NOT 0) else of_nat (uleb_val bs))
    = of_int (sleb_val bs)"
    using sleb_extend [of bs, where 'a = 32] sleb_truncate [of bs, where 'a = 32]
    by (cases "7 * length bs < 32") (auto dest: leb_prefix_take)
qed

lemma sleb64_eq_spec:
  "wf_reader r \<Longrightarrow> outcome (turbowasm_reader_sleb64 r) =
     leb_spec 10 (sleb_fits 64) (\<lambda>bs. of_int (sleb_val bs)) r"
  unfolding turbowasm_reader_sleb64_def
proof (subst sleb64.outcome_loop, assumption, rule leb_spec_cong)
  fix xs bs
  assume "leb_prefix xs = Some bs" "length bs \<le> 10"
  then show "(if 7 * length bs < 64 \<and> last bs AND 0x40 \<noteq> 0
      then (of_nat (uleb_val bs) :: u64) OR push_bit (7 * length bs) (NOT 0) else of_nat (uleb_val bs))
    = of_int (sleb_val bs)"
    using sleb_extend [of bs, where 'a = 64] sleb_truncate [of bs, where 'a = 64]
    by (cases "7 * length bs < 64") (auto dest: leb_prefix_take)
qed

text \<open>The 33-bit reader extends a five-byte encoding from its bit 32, which its test makes equal to bit 34.\<close>

lemma s33_extend:
  assumes "leb_prefix xs = Some bs" and "length bs = 5" and "sleb_fits 33 bs"
  shows "(if last bs AND 0x10 \<noteq> 0 then (of_nat (uleb_val bs) :: u64) OR push_bit 33 (NOT 0) else of_nat (uleb_val bs))
    = of_int (sleb_val bs)"
proof -
  obtain ds b where *: "bs = ds @ [b]" "length ds = 4" "unat b < 128"
      "uleb_val bs = uleb_val ds + 2 ^ (7 * 4) * unat b" "uleb_val ds < 2 ^ (7 * 4)"
    by (rule leb_prefix_last [OF assms(1), of 4]) (use assms(2) in simp_all)
  have b16: "b AND 16 = 0 \<longleftrightarrow> unat b mod 32 < 16"
    using word_and_exp_eq_0' [of b 4] by simp
  have range: "unat b < 16 \<or> 112 \<le> unat b"
    using sleb_fits_long [OF *(1,2,3,5), of 4] assms(3) by simp
  show ?thesis
  proof (cases "unat b < 16")
    case True
    then have "sleb_val bs = int (uleb_val bs)"
      using *(4) by (simp add: sleb_val_last [OF *(1,2,3)] sext7_def)
    moreover have "last bs AND 16 = 0"
      using True *(1) b16 by simp
    ultimately show ?thesis by simp
  next
    case False
    then have "112 \<le> unat b" using range by simp
    define q where "q = unat b - 112"
    then have q: "unat b = 112 + q" "q < 16"
      using *(3) \<open>112 \<le> unat b\<close> by simp_all
    have "112 + q = 16 + q + 3 * 32" by simp
    then have "unat b mod 32 = (16 + q) mod 32"
      by (simp only: q(1) mod_mult_self1)
    then have neg: "last bs AND 16 \<noteq> 0"
      using *(1) q(2) b16 by simp
    define v where "v = uleb_val ds + 2 ^ 28 * q + 2 ^ 32"
    have split: "uleb_val bs = v + 3 * 2 ^ 33" and v: "v < 2 ^ 33"
      using *(4,5) q by (simp_all add: v_def)
    have "take_bit 33 (of_nat (uleb_val bs) :: u64) = of_nat (take_bit 33 (uleb_val bs))"
      by (simp add: take_bit_of_nat)
    also have "take_bit 33 (uleb_val bs) = v"
      unfolding split take_bit_eq_mod mod_mult_self1 using v by (rule mod_less)
    finally have "(of_nat (uleb_val bs) :: u64) OR push_bit 33 (NOT 0) = of_int (int v - 2 ^ 33)"
      by (simp only: word_or_high_ones [of "of_nat (uleb_val bs)"] word_sign_extend_or [OF v])
    also have "int v - 2 ^ 33 = sleb_val bs"
      using q by (simp add: sleb_val_last [OF *(1,2,3)] sext7_def v_def)
    finally show ?thesis using neg by simp
  qed
qed

lemma s33_eq_spec:
  "wf_reader r \<Longrightarrow> outcome (turbowasm_validation_read_s33 r) =
     leb_spec 5 (sleb_fits 33) (\<lambda>bs. of_int (sleb_val bs)) r"
  unfolding turbowasm_validation_read_s33_def
proof (subst sleb33.outcome_loop, assumption, rule leb_spec_cong)
  fix xs bs
  assume *: "leb_prefix xs = Some bs" "length bs \<le> 5" "sleb_fits 33 bs"
  then show "(if length bs = 5
      then (if last bs AND 0x10 \<noteq> 0 then (of_nat (uleb_val bs) :: u64) OR push_bit 33 (NOT 0) else of_nat (uleb_val bs))
      else if last bs AND 0x40 \<noteq> 0 \<and> 7 * length bs < 64
      then of_nat (uleb_val bs) OR push_bit (7 * length bs) (NOT 0) else of_nat (uleb_val bs))
    = of_int (sleb_val bs)"
    using sleb_extend [of bs, where 'a = 64] s33_extend [OF *(1) _ *(3)]
    by (cases "length bs = 5") (auto dest: leb_prefix_take)
qed


subsection \<open>Encoding, and reading back\<close>

text \<open>The canonical encoders, as the binary format defines them.\<close>

fun uleb_encode :: "nat \<Rightarrow> u8 list" where
  "uleb_encode n = (if n < 128 then [of_nat n] else of_nat (128 + n mod 128) # uleb_encode (n div 128))"

declare uleb_encode.simps [simp del]

lemma div_128_shrinks:
  fixes i :: int
  assumes "\<not> (- 64 \<le> i \<and> i < 64)"
  shows "nat \<bar>i div 128\<bar> < nat \<bar>i\<bar>"
proof -
  have "i = 128 * (i div 128) + i mod 128" and "0 \<le> i mod 128" and "i mod 128 < 128"
    by simp_all
  then have "\<bar>i div 128\<bar> < \<bar>i\<bar>"
    using assms by linarith
  then show ?thesis by simp
qed

function sleb_encode :: "int \<Rightarrow> u8 list" where
  "sleb_encode i =
     (if - 64 \<le> i \<and> i < 64 then [of_int (i mod 128)]
      else of_int (128 + i mod 128) # sleb_encode (i div 128))"
  by pat_completeness auto
termination
  by (relation "measure (\<lambda>i. nat \<bar>i\<bar>)") (simp_all only: wf_measure in_measure, rule div_128_shrinks)

declare sleb_encode.simps [simp del]

lemma unat_of_nat_u8: "n < 256 \<Longrightarrow> unat (of_nat n :: u8) = n"
  by (simp add: unat_of_nat)

lemma uleb_encode_prefix: "leb_prefix (uleb_encode n @ ys) = Some (uleb_encode n)"
proof (induction n rule: uleb_encode.induct)
  case (1 n)
  show ?case
  proof (cases "n < 128")
    case True
    then show ?thesis
      by (simp add: uleb_encode.simps [of n] and_128_eq_0 unat_of_nat_u8)
  next
    case False
    have "\<not> unat (of_nat (128 + n mod 128) :: u8) < 128"
      by (simp add: unat_of_nat_u8 del: of_nat_add)
    with False 1 show ?thesis
      by (simp add: uleb_encode.simps [of n] and_128_eq_0 del: of_nat_add)
  qed
qed

lemma uleb_encode_val: "uleb_val (uleb_encode n) = n"
proof (induction n rule: uleb_encode.induct)
  case (1 n)
  show ?case
  proof (cases "n < 128")
    case True
    then show ?thesis
      by (simp add: uleb_encode.simps [of n] unat_and_127 unat_of_nat_u8)
  next
    case False
    with 1 show ?thesis
      by (simp add: uleb_encode.simps [of n] unat_and_127 unat_of_nat_u8 mod_add_left_eq del: of_nat_add)
  qed
qed

lemma uleb_encode_length: "n < 2 ^ (7 * k) \<Longrightarrow> 0 < k \<Longrightarrow> length (uleb_encode n) \<le> k"
proof (induction k arbitrary: n)
  case 0
  then show ?case by simp
next
  case (Suc k)
  show ?case
  proof (cases "n < 128")
    case True
    then show ?thesis by (simp add: uleb_encode.simps [of n])
  next
    case False
    with Suc.prems have k: "0 < k" by (cases k) auto
    have "n div 128 < 2 ^ (7 * k)"
      using Suc.prems(1) by (simp add: less_mult_imp_div_less power_add mult.commute)
    with Suc.IH k False show ?thesis
      by (simp add: uleb_encode.simps [of n])
  qed
qed

lemma sleb_encode_small: "- 64 \<le> i \<and> i < 64 \<Longrightarrow> sleb_encode i = [of_int (i mod 128)]"
  by (simp add: sleb_encode.simps [of i])

lemma sleb_encode_large:
  "\<not> (- 64 \<le> i \<and> i < 64) \<Longrightarrow> sleb_encode i = of_int (128 + i mod 128) # sleb_encode (i div 128)"
  by (simp only: sleb_encode.simps [of i] if_False)

lemma unat_of_int_u8: "0 \<le> i \<Longrightarrow> i < 256 \<Longrightarrow> unat (of_int i :: u8) = nat i"
  by (simp add: unat_eq_nat_uint uint_word_of_int take_bit_eq_mod)

lemma sleb_val_Cons: "bs \<noteq> [] \<Longrightarrow> sleb_val (b # bs) = int (unat (b AND 127)) + 128 * sleb_val bs"
  by (simp add: sleb_val_def power_add algebra_simps)

lemma sleb_encode_prefix: "leb_prefix (sleb_encode i @ ys) = Some (sleb_encode i)"
proof (induction i rule: sleb_encode.induct)
  case (1 i)
  have m: "0 \<le> i mod 128" "i mod 128 < 128" by simp_all
  show ?case
  proof (cases "- 64 \<le> i \<and> i < 64")
    case True
    then show ?thesis
      using m by (simp add: sleb_encode_small and_128_eq_0 unat_of_int_u8 nat_less_iff)
  next
    case False
    have "\<not> unat (of_int (128 + i mod 128) :: u8) < 128"
      using m by (simp add: unat_of_int_u8 del: of_int_add)
    with sleb_encode_large [OF False] 1 [OF False] show ?thesis
      by (simp only: append_Cons leb_prefix.simps and_128_eq_0) simp
  qed
qed

lemma sleb_encode_not_Nil: "sleb_encode i \<noteq> []"
  by (simp add: sleb_encode.simps [of i])

lemma sleb_encode_val: "sleb_val (sleb_encode i) = i"
proof (induction i rule: sleb_encode.induct)
  case (1 i)
  have m: "0 \<le> i mod 128" "i mod 128 < 128" by simp_all
  show ?case
  proof (cases "- 64 \<le> i \<and> i < 64")
    case True
    define b where "b = (of_int (i mod 128) :: u8)"
    have b: "unat b = nat (i mod 128)" and "unat b < 128"
      using m by (simp_all add: b_def unat_of_int_u8)
    then have "sleb_val [b] = sext7 (unat b)"
      using sleb_val_last [of "[b]" "[]" b 0] by simp
    also have "\<dots> = i"
    proof (cases "0 \<le> i")
      case True
      then show ?thesis using \<open>- 64 \<le> i \<and> i < 64\<close> b by (simp add: sext7_def)
    next
      case False
      then have "(i + 128) mod 128 = i + 128"
        using \<open>- 64 \<le> i \<and> i < 64\<close> by (intro mod_pos_pos_trivial) simp_all
      then have "i mod 128 = i + 128" by simp
      then show ?thesis using \<open>- 64 \<le> i \<and> i < 64\<close> b False by (simp add: sext7_def)
    qed
    finally show ?thesis
      using True by (simp add: sleb_encode_small b_def)
  next
    case False
    have "unat (of_int (128 + i mod 128) AND (127 :: u8)) = nat (i mod 128)"
      using m by (simp add: unat_and_127 unat_of_int_u8 nat_add_distrib del: of_int_add)
    with sleb_encode_large [OF False] 1 [OF False] m show ?thesis
      by (simp only: sleb_val_Cons sleb_encode_not_Nil not_False_eq_True) simp
  qed
qed

lemma sleb_encode_length:
  "- (2 ^ (7 * k + 6)) \<le> i \<Longrightarrow> i < 2 ^ (7 * k + 6) \<Longrightarrow> length (sleb_encode i) \<le> Suc k"
proof (induction k arbitrary: i)
  case 0
  then show ?case by (simp add: sleb_encode.simps [of i])
next
  case (Suc k)
  show ?case
  proof (cases "- 64 \<le> i \<and> i < 64")
    case True
    then show ?thesis by (simp add: sleb_encode.simps [of i])
  next
    case False
    let ?P = "(2::int) ^ (7 * k + 6)"
    have P: "(2::int) ^ (7 * Suc k + 6) = 128 * ?P" by (simp add: power_add)
    have "i = 128 * (i div 128) + i mod 128" "0 \<le> i mod 128" "i mod 128 < 128" by simp_all
    then have "- ?P \<le> i div 128" "i div 128 < ?P"
      using Suc.prems unfolding P by linarith+
    with Suc.IH False show ?thesis by (simp add: sleb_encode_large)
  qed
qed


subsection \<open>Every read stays in its window\<close>

text \<open>
  An operation of the reader moves the cursor forward inside the window and returns a value that
  depends on the bytes of the window only.
\<close>

definition window_op :: "(turbowasm_reader \<Rightarrow> 'v option \<times> turbowasm_reader) \<Rightarrow> bool" where
  "window_op f \<longleftrightarrow>
     (\<forall>r. wf_reader r \<longrightarrow> (\<exists>n \<le> length (rest r). snd (f r) = advance n r)) \<and>
     (\<forall>r s. wf_reader r \<longrightarrow> wf_reader s \<longrightarrow> rest r = rest s \<longrightarrow> fst (f r) = fst (f s))"

lemma window_opD:
  assumes "window_op f" and "wf_reader r" and "f r = (v, r')"
  shows "wf_reader r'" and "\<exists>n \<le> length (rest r). r' = advance n r"
proof -
  from assms obtain n where "n \<le> length (rest r)" "r' = advance n r"
    by (metis snd_conv window_op_def)
  then show "wf_reader r'" and "\<exists>n \<le> length (rest r). r' = advance n r"
    using assms(2) wf_advance by auto
qed

lemma snd_leb_case:
  "snd (case res of
      (None, r1) \<Rightarrow> (None, r1)
    | (Some (val, shift, byte, count), r1) \<Rightarrow> (Some (finish val shift byte count), r1)) = snd res"
  by (auto split: prod.splits option.splits)

lemma window_op_leb:
  assumes "\<And>r. wf_reader r \<Longrightarrow> outcome (f r) = leb_spec limit fits number r"
    and "\<And>r. wf_reader r \<Longrightarrow> \<exists>n \<le> length (rest r). snd (f r) = advance n r"
  shows "window_op f"
  unfolding window_op_def
proof (intro conjI allI impI)
  fix r assume "wf_reader r"
  then show "\<exists>n \<le> length (rest r). snd (f r) = advance n r"
    by (rule assms(2))
next
  fix r s assume "wf_reader r" "wf_reader s" "rest r = rest s"
  then have "map_option fst (outcome (f r)) = map_option fst (outcome (f s))"
    using assms(1) by (auto simp: leb_spec_def split: option.splits)
  then show "fst (f r) = fst (f s)"
    by (simp add: outcome_def option.map_comp comp_def option.map_ident)
qed

lemma window_op_u8: "window_op turbowasm_reader_u8"
  unfolding window_op_def
proof (intro conjI allI impI)
  fix r assume "wf_reader r"
  then show "\<exists>n \<le> length (rest r). snd (turbowasm_reader_u8 r) = advance n r"
    by (cases "rest r") (auto simp: reader_u8_eq intro: exI [where x = 0] exI [where x = 1])
qed (simp add: reader_u8_eq split: list.splits)

lemma window_op_u32le: "window_op turbowasm_reader_u32le"
  unfolding window_op_def
proof (intro conjI allI impI)
  fix r assume "wf_reader r"
  then show "\<exists>n \<le> length (rest r). snd (turbowasm_reader_u32le r) = advance n r"
    by (cases "length (rest r) < 4")
       (auto simp: turbowasm_reader_u32le_def remaining_eq advance_def Let_def
         intro: exI [where x = 0] exI [where x = 4])
next
  fix r s assume *: "wf_reader r" "wf_reader s" "rest r = rest s"
  then have eq: "base r ! (cursor r + i) = base s ! (cursor s + i)" if "i < length (rest r)" for i
    using rest_nth [of r i] rest_nth [of s i] that by simp
  show "fst (turbowasm_reader_u32le r) = fst (turbowasm_reader_u32le s)"
  proof (cases "length (rest r) < 4")
    case True
    then show ?thesis
      using * by (simp add: turbowasm_reader_u32le_def remaining_eq)
  next
    case False
    then have "0 < length (rest r)" "1 < length (rest r)" "2 < length (rest r)" "3 < length (rest r)"
      by linarith+
    from this [THEN eq] show ?thesis
      using * by (simp add: turbowasm_reader_u32le_def remaining_eq Let_def)
  qed
qed

lemma window_op_uleb32: "window_op turbowasm_reader_uleb32"
  by (rule window_op_leb, erule uleb32_eq_spec) (simp only: turbowasm_reader_uleb32_def snd_leb_case, erule leb_loop_keeps)

lemma window_op_uleb64: "window_op turbowasm_reader_uleb64"
  by (rule window_op_leb, erule uleb64_eq_spec) (simp only: turbowasm_reader_uleb64_def snd_leb_case, erule leb_loop_keeps)

lemma window_op_sleb32: "window_op turbowasm_reader_sleb32"
  by (rule window_op_leb, erule sleb32_eq_spec) (simp only: turbowasm_reader_sleb32_def snd_leb_case, erule leb_loop_keeps)

lemma window_op_sleb64: "window_op turbowasm_reader_sleb64"
  by (rule window_op_leb, erule sleb64_eq_spec) (simp only: turbowasm_reader_sleb64_def snd_leb_case, erule leb_loop_keeps)

lemma window_op_s33: "window_op turbowasm_validation_read_s33"
  by (rule window_op_leb, erule s33_eq_spec) (simp only: turbowasm_validation_read_s33_def snd_leb_case, erule leb_loop_keeps)


subsection \<open>Properties\<close>

text \<open>
  C18. The unsigned LEB128 decoders are correct: on every well-formed window
  \<open>turbowasm_reader_uleb32\<close> (\<open>turbowasm_reader_uleb64\<close>) succeeds exactly when the window starts with a
  complete encoding of at most 5 (10) bytes whose number is below \<open>2 ^ 32\<close> (\<open>2 ^ 64\<close>); it then returns
  that number and leaves the cursor behind the encoding. Truncated, overlong and overflowing inputs fail.
\<close>

theorem reader_uleb_correct:
  assumes "wf_reader r"
  shows "outcome (turbowasm_reader_uleb32 r) =
           leb_spec 5 (\<lambda>bs. uleb_val bs < 2 ^ 32) (\<lambda>bs. of_nat (uleb_val bs)) r \<and>
         outcome (turbowasm_reader_uleb64 r) =
           leb_spec 10 (\<lambda>bs. uleb_val bs < 2 ^ 64) (\<lambda>bs. of_nat (uleb_val bs)) r"
  using assms by (simp only: uleb32_eq_spec uleb64_eq_spec simp_thms)

text \<open>Witness: the longest 32-bit encoding is read, the same bytes with one more bit are refused.\<close>

theorem reader_uleb_correct_witness:
  "outcome (turbowasm_reader_uleb32 (turbowasm_reader_init (Some [255, 255, 255, 255, 15]) 5)) =
     Some (- 1, \<lparr>base = [255, 255, 255, 255, 15], cursor = 5, reader_end = 5\<rparr>) \<and>
   outcome (turbowasm_reader_uleb32 (turbowasm_reader_init (Some [255, 255, 255, 255, 31]) 5)) = None"
proof -
  have "wf_reader (turbowasm_reader_init (Some [255, 255, 255, 255, 15]) 5)"
    and "wf_reader (turbowasm_reader_init (Some [255, 255, 255, 255, 31]) 5)"
    by (simp_all add: wf_reader_init)
  from this [THEN reader_uleb_correct, THEN conjunct1] show ?thesis
    by (simp add: leb_spec_def advance_def turbowasm_reader_init_def rest_def)
qed

text \<open>
  C19. The signed LEB128 decoders are correct: \<open>turbowasm_reader_sleb32\<close>, \<open>turbowasm_reader_sleb64\<close> and
  \<open>turbowasm_validation_read_s33\<close> succeed exactly on complete encodings of at most 5, 10 and 5 bytes whose
  two's complement number fits 32, 64 and 33 bits, and return that number sign-extended to the result type.
\<close>

theorem reader_sleb_correct:
  assumes "wf_reader r"
  shows "outcome (turbowasm_reader_sleb32 r) = leb_spec 5 (sleb_fits 32) (\<lambda>bs. of_int (sleb_val bs)) r \<and>
         outcome (turbowasm_reader_sleb64 r) = leb_spec 10 (sleb_fits 64) (\<lambda>bs. of_int (sleb_val bs)) r \<and>
         outcome (turbowasm_validation_read_s33 r) = leb_spec 5 (sleb_fits 33) (\<lambda>bs. of_int (sleb_val bs)) r"
  using assms by (simp only: sleb32_eq_spec sleb64_eq_spec s33_eq_spec simp_thms)

text \<open>Witness: \<open>0x40\<close> is \<open>-64\<close> in every signed format.\<close>

theorem reader_sleb_correct_witness:
  "map_option (sint \<circ> fst) (outcome (turbowasm_reader_sleb32 (turbowasm_reader_init (Some [64]) 1))) = Some (- 64) \<and>
   map_option (sint \<circ> fst) (outcome (turbowasm_validation_read_s33 (turbowasm_reader_init (Some [64]) 1))) = Some (- 64)"
proof -
  have "wf_reader (turbowasm_reader_init (Some [64]) 1)"
    by (simp add: wf_reader_init)
  from reader_sleb_correct [OF this] show ?thesis
    by (simp add: leb_spec_def advance_def turbowasm_reader_init_def rest_def sleb_fits_def sleb_val_def)
qed

lemma read_back:
  assumes "\<And>r. wf_reader r \<Longrightarrow> outcome (f r) = leb_spec limit fits number r"
    and "leb_prefix (enc @ ys) = Some enc" and "length enc \<le> limit" and "fits enc" and "number enc = v"
  shows "\<exists>r'. f (turbowasm_reader_init (Some (enc @ ys)) (length (enc @ ys))) = (Some v, r') \<and> rest r' = ys"
proof -
  let ?r = "turbowasm_reader_init (Some (enc @ ys)) (length (enc @ ys))"
  have "outcome (f ?r) = Some (v, advance (length enc) ?r)"
    using assms by (simp add: leb_spec_def wf_reader_init)
  then have "f ?r = (Some v, advance (length enc) ?r)"
    by (auto simp: outcome_def prod_eq_iff)
  then show ?thesis by (simp add: rest_advance)
qed

text \<open>
  C20. Every value can be read back: a window that starts with the canonical LEB128 encoding of a 32- or
  64-bit value, unsigned or signed, is read as that value and the bytes behind the encoding remain.
\<close>

theorem reader_leb_roundtrip:
  fixes v :: u32 and w :: u64 and ys :: "u8 list"
  shows
    "(\<exists>r. turbowasm_reader_uleb32 (turbowasm_reader_init (Some (uleb_encode (unat v) @ ys))
        (length (uleb_encode (unat v) @ ys))) = (Some v, r) \<and> rest r = ys) \<and>
     (\<exists>r. turbowasm_reader_uleb64 (turbowasm_reader_init (Some (uleb_encode (unat w) @ ys))
        (length (uleb_encode (unat w) @ ys))) = (Some w, r) \<and> rest r = ys) \<and>
     (\<exists>r. turbowasm_reader_sleb32 (turbowasm_reader_init (Some (sleb_encode (sint v) @ ys))
        (length (sleb_encode (sint v) @ ys))) = (Some v, r) \<and> rest r = ys) \<and>
     (\<exists>r. turbowasm_reader_sleb64 (turbowasm_reader_init (Some (sleb_encode (sint w) @ ys))
        (length (sleb_encode (sint w) @ ys))) = (Some w, r) \<and> rest r = ys)"
proof (intro conjI)
  have v: "unat v < 2 ^ 32" and w: "unat w < 2 ^ 64"
    using unsigned_less [of v] unsigned_less [of w] by simp_all
  have sv: "- (2 ^ 31) \<le> sint v" "sint v < 2 ^ 31" and sw: "- (2 ^ 63) \<le> sint w" "sint w < 2 ^ 63"
    using sint_range_size [of v] sint_range_size [of w] by (simp_all add: word_size)
  show "\<exists>r. turbowasm_reader_uleb32 (turbowasm_reader_init (Some (uleb_encode (unat v) @ ys))
      (length (uleb_encode (unat v) @ ys))) = (Some v, r) \<and> rest r = ys"
    by (rule read_back [OF uleb32_eq_spec uleb_encode_prefix])
       (use v uleb_encode_length [of "unat v" 5] in \<open>simp_all add: uleb_encode_val\<close>)
  show "\<exists>r. turbowasm_reader_uleb64 (turbowasm_reader_init (Some (uleb_encode (unat w) @ ys))
      (length (uleb_encode (unat w) @ ys))) = (Some w, r) \<and> rest r = ys"
    by (rule read_back [OF uleb64_eq_spec uleb_encode_prefix])
       (use w uleb_encode_length [of "unat w" 10] in \<open>simp_all add: uleb_encode_val\<close>)
  show "\<exists>r. turbowasm_reader_sleb32 (turbowasm_reader_init (Some (sleb_encode (sint v) @ ys))
      (length (sleb_encode (sint v) @ ys))) = (Some v, r) \<and> rest r = ys"
    by (rule read_back [OF sleb32_eq_spec sleb_encode_prefix])
       (use sv sleb_encode_length [of 4 "sint v"] in \<open>simp_all add: sleb_encode_val sleb_fits_def\<close>)
  show "\<exists>r. turbowasm_reader_sleb64 (turbowasm_reader_init (Some (sleb_encode (sint w) @ ys))
      (length (sleb_encode (sint w) @ ys))) = (Some w, r) \<and> rest r = ys"
    by (rule read_back [OF sleb64_eq_spec sleb_encode_prefix])
       (use sw sleb_encode_length [of 9 "sint w"] in \<open>simp_all add: sleb_encode_val sleb_fits_def\<close>)
qed

text \<open>
  C21. No read leaves its window: every scalar read moves the cursor forward by at most the remaining
  bytes, whether it succeeds or fails, and its value depends on the bytes of the window alone.
\<close>

theorem reader_window_safe:
  "window_op turbowasm_reader_u8 \<and> window_op turbowasm_reader_u32le \<and>
   window_op turbowasm_reader_uleb32 \<and> window_op turbowasm_reader_uleb64 \<and>
   window_op turbowasm_reader_sleb32 \<and> window_op turbowasm_reader_sleb64 \<and>
   window_op turbowasm_validation_read_s33"
  by (simp add: window_op_u8 window_op_u32le window_op_uleb32 window_op_uleb64 window_op_sleb32
      window_op_sleb64 window_op_s33)

end
