(* ===== verification/TW_Memory_Exec.thy ===== *)
theory TW_Memory_Exec
  imports TW_Wait TW_Reader
begin

text \<open>
  The memory instructions of the interpreter: \<^verbatim>\<open>src/src/instance.c\<close> from \<^verbatim>\<open>turbowasm_read_u16_le\<close> to \<^verbatim>\<open>turbowasm_exec_memory_size_or_grow\<close>, the atomic
  instructions with wait and notify, and the bulk memory cases of \<^verbatim>\<open>turbowasm_exec_fc\<close>. A handler works on the reader of the code,
  the operand stack and the heap of instances; the outer option is the lookup of a memory that need
  not end.
\<close>

subsection \<open>Little-endian bytes\<close>

definition turbowasm_read_u16_le :: "u8 list \<Rightarrow> u16" where
  "turbowasm_read_u16_le p = ucast (p ! 0) OR push_bit 8 (ucast (p ! 1))"

definition turbowasm_read_u32_le_bytes :: "u8 list \<Rightarrow> u32" where
  "turbowasm_read_u32_le_bytes p =
     ucast (p ! 0) OR push_bit 8 (ucast (p ! 1)) OR push_bit 16 (ucast (p ! 2)) OR push_bit 24 (ucast (p ! 3))"

definition turbowasm_read_u64_le_bytes :: "u8 list \<Rightarrow> u64" where
  "turbowasm_read_u64_le_bytes p = load_le_loop 0 (take 8 p) 0"

definition turbowasm_write_u16_le :: "u16 \<Rightarrow> u8 list" where
  "turbowasm_write_u16_le v = [ucast v, ucast (drop_bit 8 v)]"

definition turbowasm_write_u32_le :: "u32 \<Rightarrow> u8 list" where
  "turbowasm_write_u32_le v = [ucast v, ucast (drop_bit 8 v), ucast (drop_bit 16 v), ucast (drop_bit 24 v)]"

definition turbowasm_write_u64_le :: "u64 \<Rightarrow> u8 list" where
  "turbowasm_write_u64_le v = map (\<lambda>index. ucast (drop_bit (8 * index) v)) [0..<8]"

subsection \<open>Loads and stores\<close>

definition load_width :: "u8 \<Rightarrow> nat option" where
  "load_width opcode =
     (if opcode = 0x28 then Some 4
      else if opcode = 0x29 then Some 8
      else if opcode = 0x2a then Some 4
      else if opcode = 0x2b then Some 8
      else if opcode \<in> {0x2c, 0x2d, 0x30, 0x31} then Some 1
      else if opcode \<in> {0x2e, 0x2f, 0x32, 0x33} then Some 2
      else if opcode \<in> {0x34, 0x35} then Some 4
      else None)"

definition load_decode :: "u8 \<Rightarrow> u8 list \<Rightarrow> turbowasm_value option" where
  "load_decode opcode p =
     (if opcode = 0x28 then Some (VALUE_I32 (turbowasm_read_u32_le_bytes p))
      else if opcode = 0x29 then Some (VALUE_I64 (turbowasm_read_u64_le_bytes p))
      else if opcode = 0x2a then Some (VALUE_F32 (turbowasm_read_u32_le_bytes p))
      else if opcode = 0x2b then Some (VALUE_F64 (turbowasm_read_u64_le_bytes p))
      else if opcode = 0x2c then Some (VALUE_I32 (scast (p ! 0)))
      else if opcode = 0x2d then Some (VALUE_I32 (ucast (p ! 0)))
      else if opcode = 0x2e then Some (VALUE_I32 (scast (turbowasm_read_u16_le p)))
      else if opcode = 0x2f then Some (VALUE_I32 (ucast (turbowasm_read_u16_le p)))
      else if opcode = 0x30 then Some (VALUE_I64 (scast (p ! 0)))
      else if opcode = 0x31 then Some (VALUE_I64 (ucast (p ! 0)))
      else if opcode = 0x32 then Some (VALUE_I64 (scast (turbowasm_read_u16_le p)))
      else if opcode = 0x33 then Some (VALUE_I64 (ucast (turbowasm_read_u16_le p)))
      else if opcode = 0x34 then Some (VALUE_I64 (scast (turbowasm_read_u32_le_bytes p)))
      else if opcode = 0x35 then Some (VALUE_I64 (ucast (turbowasm_read_u32_le_bytes p)))
      else None)"

text \<open>The status, the trap that is recorded and the value.\<close>

definition turbowasm_instance_memory_load_value ::
    "instance_heap \<Rightarrow> addr \<Rightarrow> nat \<Rightarrow> u64 \<Rightarrow> u64 \<Rightarrow> u8 \<Rightarrow>
     (turbowasm_status \<times> turbowasm_trap option \<times> turbowasm_value option) option" where
  "turbowasm_instance_memory_load_value h i k address offset opcode =
     (case load_width opcode of
        None \<Rightarrow> Some (TURBOWASM_UNSUPPORTED, None, None)
      | Some width \<Rightarrow> do {
          sh \<leftarrow> turbowasm_instance_memory_shared h i k;
          if fst sh \<noteq> TURBOWASM_OK then Some (fst sh, None, None)
          else do {
            r \<leftarrow> (if snd sh then turbowasm_instance_memory_read_bytes h i k address offset width
                 else do { b \<leftarrow> turbowasm_instance_memory_bounds h i k address offset (of_nat width);
                           Some (case b of
                             Inl status \<Rightarrow> (status, [])
                           | Inr (x, e) \<Rightarrow> (TURBOWASM_OK, bytes_get (mem_data (mem_at h x)) e width)) });
            Some (case r of (status, p) \<Rightarrow>
              if status = TURBOWASM_TRAPPED then (TURBOWASM_TRAPPED, Some TURBOWASM_TRAP_MEMORY_OUT_OF_BOUNDS, None)
              else if status \<noteq> TURBOWASM_OK then (status, None, None)
              else case load_decode opcode p of
                None \<Rightarrow> (TURBOWASM_UNSUPPORTED, None, None)
              | Some v \<Rightarrow> (TURBOWASM_OK, None, Some v)) } })"

definition store_shape :: "u8 \<Rightarrow> (turbowasm_value_kind \<times> nat) option" where
  "store_shape opcode =
     (if opcode = 0x36 then Some (TURBOWASM_VALUE_I32, 4)
      else if opcode = 0x37 then Some (TURBOWASM_VALUE_I64, 8)
      else if opcode = 0x38 then Some (TURBOWASM_VALUE_F32, 4)
      else if opcode = 0x39 then Some (TURBOWASM_VALUE_F64, 8)
      else if opcode \<in> {0x3a, 0x3b} then Some (TURBOWASM_VALUE_I32, if opcode = 0x3a then 1 else 2)
      else if opcode \<in> {0x3c, 0x3d, 0x3e} then
        Some (TURBOWASM_VALUE_I64, if opcode = 0x3c then 1 else if opcode = 0x3d then 2 else 4)
      else None)"

definition store_encode :: "u8 \<Rightarrow> turbowasm_value \<Rightarrow> u8 list option" where
  "store_encode opcode v =
     (if opcode = 0x36 then Some (turbowasm_write_u32_le (value_i32 v))
      else if opcode = 0x37 then Some (turbowasm_write_u64_le (value_i64 v))
      else if opcode = 0x38 then Some (turbowasm_write_u32_le (value_f32 v))
      else if opcode = 0x39 then Some (turbowasm_write_u64_le (value_f64 v))
      else if opcode = 0x3a then Some [ucast (value_i32 v)]
      else if opcode = 0x3b then Some (turbowasm_write_u16_le (ucast (value_i32 v)))
      else if opcode = 0x3c then Some [ucast (value_i64 v)]
      else if opcode = 0x3d then Some (turbowasm_write_u16_le (ucast (value_i64 v)))
      else if opcode = 0x3e then Some (turbowasm_write_u32_le (ucast (value_i64 v)))
      else None)"

definition turbowasm_instance_memory_store_value ::
    "instance_heap \<Rightarrow> addr \<Rightarrow> nat \<Rightarrow> u64 \<Rightarrow> u64 \<Rightarrow> u8 \<Rightarrow> turbowasm_value \<Rightarrow>
     (turbowasm_status \<times> turbowasm_trap option \<times> instance_heap) option" where
  "turbowasm_instance_memory_store_value h i k address offset opcode v =
     (case (store_shape opcode, store_encode opcode v) of
        (Some (expected, width), Some bs) \<Rightarrow>
          if value_kind v \<noteq> Some expected then Some (TURBOWASM_TYPE_MISMATCH, None, h)
          else do {
            sh \<leftarrow> turbowasm_instance_memory_shared h i k;
            if fst sh \<noteq> TURBOWASM_OK then Some (fst sh, None, h)
            else if snd sh then do {
              r \<leftarrow> turbowasm_instance_memory_write_bytes h i k address offset bs;
              Some (case r of (status, h') \<Rightarrow>
                if status = TURBOWASM_TRAPPED then (TURBOWASM_TRAPPED, Some TURBOWASM_TRAP_MEMORY_OUT_OF_BOUNDS, h')
                else (status, None, h')) }
            else do {
              b \<leftarrow> turbowasm_instance_memory_bounds h i k address offset (of_nat width);
              Some (case b of
                Inl status \<Rightarrow>
                  if status = TURBOWASM_TRAPPED then (TURBOWASM_TRAPPED, Some TURBOWASM_TRAP_MEMORY_OUT_OF_BOUNDS, h)
                  else (status, None, h)
              | Inr (x, e) \<Rightarrow> (TURBOWASM_OK, None, mem_store h x e bs)) } }
      | _ \<Rightarrow> Some (TURBOWASM_UNSUPPORTED, None, h))"

subsection \<open>Handlers\<close>

record exec_state =
  es_reader :: turbowasm_reader
  es_stack :: turbowasm_value_stack
  es_heap :: instance_heap

type_synonym memory_outcome = "(turbowasm_status \<times> turbowasm_trap option \<times> exec_state) option"

definition read_index :: "exec_state \<Rightarrow> (u32 \<Rightarrow> exec_state \<Rightarrow> memory_outcome) \<Rightarrow> memory_outcome" where
  "read_index s f =
     (case turbowasm_reader_uleb32 (es_reader s) of
        (None, r) \<Rightarrow> Some (TURBOWASM_MALFORMED_MODULE, None, s\<lparr>es_reader := r\<rparr>)
      | (Some v, r) \<Rightarrow> f v (s\<lparr>es_reader := r\<rparr>))"

definition pop_operand ::
    "turbowasm_value_kind \<Rightarrow> exec_state \<Rightarrow> (turbowasm_value \<Rightarrow> exec_state \<Rightarrow> memory_outcome) \<Rightarrow> memory_outcome" where
  "pop_operand kind s f =
     (case turbowasm_stack_pop_kind (es_stack s) kind of (status, v, st) \<Rightarrow>
        if status \<noteq> TURBOWASM_OK then Some (status, None, s\<lparr>es_stack := st\<rparr>) else f v (s\<lparr>es_stack := st\<rparr>))"

definition push_result :: "(nat \<Rightarrow> bool) \<Rightarrow> exec_state \<Rightarrow> turbowasm_value \<Rightarrow> memory_outcome" where
  "push_result grant s v =
     (case turbowasm_stack_push grant (es_stack s) v of (status, st) \<Rightarrow> Some (status, None, s\<lparr>es_stack := st\<rparr>))"

definition turbowasm_exec_memory_address_kind ::
    "instance_heap \<Rightarrow> addr \<Rightarrow> nat \<Rightarrow> turbowasm_status \<times> turbowasm_value_kind" where
  "turbowasm_exec_memory_address_kind h i memory_index =
     (case inst_module (h i) of
        None \<Rightarrow> (TURBOWASM_MALFORMED_MODULE, TURBOWASM_VALUE_I32)
      | Some md \<Rightarrow>
          if memory_index \<ge> length (val_memories md) then (TURBOWASM_MALFORMED_MODULE, TURBOWASM_VALUE_I32)
          else (TURBOWASM_OK,
                if vmem_memory64 (val_memories md ! memory_index) then TURBOWASM_VALUE_I64 else TURBOWASM_VALUE_I32))"

definition turbowasm_exec_address_value :: "turbowasm_value \<Rightarrow> u64" where
  "turbowasm_exec_address_value v =
     (if value_kind v = Some TURBOWASM_VALUE_I64 then value_i64 v else ucast (value_i32 v))"

text \<open>The immediate of a memory access, and the reader behind it: the memory, the offset and the type of the address.\<close>

definition turbowasm_exec_read_indexed_memarg ::
    "instance_heap \<Rightarrow> addr \<Rightarrow> turbowasm_reader \<Rightarrow> (nat \<times> u64 \<times> turbowasm_value_kind) option \<times> turbowasm_reader" where
  "turbowasm_exec_read_indexed_memarg h i r =
     (case turbowasm_reader_uleb32 r of
        (None, r1) \<Rightarrow> (None, r1)
      | (Some flags, r1) \<Rightarrow>
          if flags \<ge> 0x80 then (None, r1)
          else
            case (if flags AND 0x40 \<noteq> 0 then turbowasm_reader_uleb32 r1 else (Some 0, r1)) of
              (None, r2) \<Rightarrow> (None, r2)
            | (Some memory_index, r2) \<Rightarrow>
                (case turbowasm_exec_memory_address_kind h i (unat memory_index) of (status, address_kind) \<Rightarrow>
                   if status \<noteq> TURBOWASM_OK then (None, r2)
                   else if address_kind = TURBOWASM_VALUE_I64 then
                     (case turbowasm_reader_uleb64 r2 of
                        (None, r3) \<Rightarrow> (None, r3)
                      | (Some offset, r3) \<Rightarrow> (Some (unat memory_index, offset, address_kind), r3))
                   else
                     (case turbowasm_reader_uleb32 r2 of
                        (None, r3) \<Rightarrow> (None, r3)
                      | (Some offset32, r3) \<Rightarrow> (Some (unat memory_index, ucast offset32, address_kind), r3))))"

definition read_memarg ::
    "addr \<Rightarrow> exec_state \<Rightarrow> (nat \<Rightarrow> u64 \<Rightarrow> turbowasm_value_kind \<Rightarrow> exec_state \<Rightarrow> memory_outcome) \<Rightarrow> memory_outcome" where
  "read_memarg i s f =
     (case turbowasm_exec_read_indexed_memarg (es_heap s) i (es_reader s) of
        (None, r) \<Rightarrow> Some (TURBOWASM_MALFORMED_MODULE, None, s\<lparr>es_reader := r\<rparr>)
      | (Some (memory_index, offset, address_kind), r) \<Rightarrow> f memory_index offset address_kind (s\<lparr>es_reader := r\<rparr>))"

definition turbowasm_exec_memory_load :: "(nat \<Rightarrow> bool) \<Rightarrow> addr \<Rightarrow> u8 \<Rightarrow> exec_state \<Rightarrow> memory_outcome" where
  "turbowasm_exec_memory_load grant i opcode s =
     read_memarg i s (\<lambda>memory_index offset address_kind s1.
     pop_operand address_kind s1 (\<lambda>address s2.
       do { r \<leftarrow> turbowasm_instance_memory_load_value (es_heap s2) i memory_index
                   (turbowasm_exec_address_value address) offset opcode;
            case r of (status, trap, out) \<Rightarrow>
              if status \<noteq> TURBOWASM_OK then Some (status, trap, s2)
              else push_result grant s2 (case out of None \<Rightarrow> VALUE_CLEARED | Some v \<Rightarrow> v) }))"

definition turbowasm_exec_memory_store :: "addr \<Rightarrow> u8 \<Rightarrow> exec_state \<Rightarrow> memory_outcome" where
  "turbowasm_exec_memory_store i opcode s =
     read_memarg i s (\<lambda>memory_index offset address_kind s1.
       case stack_values (es_stack s1) of
         [] \<Rightarrow> Some (TURBOWASM_TYPE_MISMATCH, None, s1)
       | v # vs \<Rightarrow>
           pop_operand address_kind (s1\<lparr>es_stack := (es_stack s1)\<lparr>stack_values := vs\<rparr>\<rparr>) (\<lambda>address s2.
             do { r \<leftarrow> turbowasm_instance_memory_store_value (es_heap s2) i memory_index
                         (turbowasm_exec_address_value address) offset opcode v;
                  Some (case r of (status, trap, h) \<Rightarrow> (status, trap, s2\<lparr>es_heap := h\<rparr>)) }))"

definition pages_value :: "turbowasm_value_kind \<Rightarrow> u64 \<Rightarrow> turbowasm_value" where
  "pages_value kind pages =
     (if kind = TURBOWASM_VALUE_I64 then VALUE_I64 pages
      else VALUE_I32 (if pages = U64_MAX then U32_MAX else ucast pages))"

definition turbowasm_exec_memory_size_or_grow ::
    "(nat \<Rightarrow> bool) \<Rightarrow> (nat \<Rightarrow> bool) \<Rightarrow> addr \<Rightarrow> u8 \<Rightarrow> exec_state \<Rightarrow> memory_outcome" where
  "turbowasm_exec_memory_size_or_grow grant grow_grant i opcode s =
     read_index s (\<lambda>memory_index s1.
       case turbowasm_exec_memory_address_kind (es_heap s1) i (unat memory_index) of (status, address_kind) \<Rightarrow>
         if status \<noteq> TURBOWASM_OK then Some (status, None, s1)
         else if opcode = 0x3f then
           do { r \<leftarrow> turbowasm_instance_memory_size64 (es_heap s1) i (unat memory_index);
                if fst r \<noteq> TURBOWASM_OK then Some (fst r, None, s1)
                else push_result grant s1 (pages_value address_kind (snd r)) }
         else if opcode = 0x40 then
           pop_operand address_kind s1 (\<lambda>delta s2.
             do { r \<leftarrow> turbowasm_instance_memory_grow64 grow_grant (es_heap s2) i (unat memory_index)
                         (turbowasm_exec_address_value delta);
                  case r of (status, pages, h) \<Rightarrow>
                    if status \<noteq> TURBOWASM_OK then Some (status, None, s2\<lparr>es_heap := h\<rparr>)
                    else push_result grant (s2\<lparr>es_heap := h\<rparr>) (pages_value address_kind pages) })
         else Some (TURBOWASM_UNSUPPORTED, None, s1))"

definition turbowasm_exec_bulk_trap ::
    "turbowasm_status \<Rightarrow> turbowasm_trap \<Rightarrow> turbowasm_status \<times> turbowasm_trap option" where
  "turbowasm_exec_bulk_trap status trap_kind = (status, if status = TURBOWASM_TRAPPED then Some trap_kind else None)"

definition bulk_result :: "exec_state \<Rightarrow> (turbowasm_status \<times> instance_heap) option \<Rightarrow> memory_outcome" where
  "bulk_result s r =
     do { q \<leftarrow> r;
          Some (case turbowasm_exec_bulk_trap (fst q) TURBOWASM_TRAP_MEMORY_OUT_OF_BOUNDS of (status, trap) \<Rightarrow>
            (status, trap, s\<lparr>es_heap := snd q\<rparr>)) }"

text \<open>The memory cases of \<^verbatim>\<open>turbowasm_exec_fc\<close>, behind the subopcode.\<close>

definition exec_memory_init :: "addr \<Rightarrow> exec_state \<Rightarrow> memory_outcome" where
  "exec_memory_init i s =
     read_index s (\<lambda>data_index s1. read_index s1 (\<lambda>memory_index s2.
       case turbowasm_exec_memory_address_kind (es_heap s2) i (unat memory_index) of (status, address_kind) \<Rightarrow>
         if status \<noteq> TURBOWASM_OK then Some (status, None, s2)
         else pop_operand TURBOWASM_VALUE_I32 s2 (\<lambda>len s3. pop_operand TURBOWASM_VALUE_I32 s3 (\<lambda>source s4.
              pop_operand address_kind s4 (\<lambda>destination s5.
                bulk_result s5 (turbowasm_instance_memory_init (es_heap s5) i (unat data_index) (unat memory_index)
                  (turbowasm_exec_address_value destination) (value_i32 source) (value_i32 len)))))))"

definition exec_data_drop :: "addr \<Rightarrow> exec_state \<Rightarrow> memory_outcome" where
  "exec_data_drop i s =
     read_index s (\<lambda>data_index s1.
       case turbowasm_instance_data_drop (es_heap s1) i (unat data_index) of (status, h) \<Rightarrow>
         Some (status, None, s1\<lparr>es_heap := h\<rparr>))"

definition exec_memory_copy :: "addr \<Rightarrow> exec_state \<Rightarrow> memory_outcome" where
  "exec_memory_copy i s =
     read_index s (\<lambda>destination_memory s1. read_index s1 (\<lambda>source_memory s2.
       case turbowasm_exec_memory_address_kind (es_heap s2) i (unat destination_memory) of (status, destination_kind) \<Rightarrow>
       if status \<noteq> TURBOWASM_OK then Some (status, None, s2)
       else case turbowasm_exec_memory_address_kind (es_heap s2) i (unat source_memory) of (status, source_kind) \<Rightarrow>
       if status \<noteq> TURBOWASM_OK then Some (status, None, s2)
       else
         let length_kind = (if destination_kind = TURBOWASM_VALUE_I64 \<and> source_kind = TURBOWASM_VALUE_I64
                            then TURBOWASM_VALUE_I64 else TURBOWASM_VALUE_I32) in
         pop_operand length_kind s2 (\<lambda>len s3. pop_operand source_kind s3 (\<lambda>source s4.
         pop_operand destination_kind s4 (\<lambda>destination s5.
           bulk_result s5 (turbowasm_instance_memory_copy (es_heap s5) i (unat destination_memory) (unat source_memory)
             (turbowasm_exec_address_value destination) (turbowasm_exec_address_value source)
             (turbowasm_exec_address_value len)))))))"

definition exec_memory_fill :: "addr \<Rightarrow> exec_state \<Rightarrow> memory_outcome" where
  "exec_memory_fill i s =
     read_index s (\<lambda>memory_index s1.
       case turbowasm_exec_memory_address_kind (es_heap s1) i (unat memory_index) of (status, address_kind) \<Rightarrow>
         if status \<noteq> TURBOWASM_OK then Some (status, None, s1)
         else pop_operand address_kind s1 (\<lambda>len s2. pop_operand TURBOWASM_VALUE_I32 s2 (\<lambda>v s3.
              pop_operand address_kind s3 (\<lambda>destination s4.
                bulk_result s4 (turbowasm_instance_memory_fill (es_heap s4) i (unat memory_index)
                  (turbowasm_exec_address_value destination) (ucast (value_i32 v))
                  (turbowasm_exec_address_value len))))))"

subsection \<open>Atomic instructions\<close>

text \<open>The immediate is read from a copy of the reader first, for its alignment.\<close>

definition atomic_memarg ::
    "addr \<Rightarrow> nat \<Rightarrow> exec_state \<Rightarrow> (nat \<Rightarrow> u64 \<Rightarrow> turbowasm_value_kind \<Rightarrow> exec_state \<Rightarrow> memory_outcome) \<Rightarrow> memory_outcome" where
  "atomic_memarg i required_alignment s f =
     (case fst (turbowasm_reader_uleb32 (es_reader s)) of
        None \<Rightarrow> Some (TURBOWASM_MALFORMED_MODULE, None, s)
      | Some flags \<Rightarrow>
          if flags AND 0x3f \<noteq> of_nat required_alignment then Some (TURBOWASM_MALFORMED_MODULE, None, s)
          else read_memarg i s f)"

definition turbowasm_atomic_value_bits :: "turbowasm_value \<Rightarrow> turbowasm_atomic_value_type \<Rightarrow> u64" where
  "turbowasm_atomic_value_bits v ty = (if ty = TURBOWASM_ATOMIC_I32 then ucast (value_i32 v) else value_i64 v)"

definition turbowasm_atomic_push_result ::
    "(nat \<Rightarrow> bool) \<Rightarrow> exec_state \<Rightarrow> turbowasm_atomic_value_type \<Rightarrow> u64 \<Rightarrow> memory_outcome" where
  "turbowasm_atomic_push_result grant s ty bits =
     push_result grant s (if ty = TURBOWASM_ATOMIC_I32 then VALUE_I32 (ucast bits) else VALUE_I64 bits)"

definition atomic_value_kind :: "turbowasm_atomic_descriptor \<Rightarrow> turbowasm_value_kind" where
  "atomic_value_kind d = (if atomic_value_type d = TURBOWASM_ATOMIC_I32 then TURBOWASM_VALUE_I32 else TURBOWASM_VALUE_I64)"

text \<open>The memory operations set the trap of the caller also when they succeed.\<close>

definition with_trap :: "turbowasm_trap \<Rightarrow> memory_outcome \<Rightarrow> memory_outcome" where
  "with_trap trap r = map_option (\<lambda>(status, _, s). (status, Some trap, s)) r"

text \<open>An access that returns its status and trap, or the old value, which is pushed unless \<open>d\<close> is a store.\<close>

definition atomic_access ::
    "bool \<Rightarrow> (nat \<Rightarrow> bool) \<Rightarrow> addr \<Rightarrow> nat \<Rightarrow> u64 \<Rightarrow> turbowasm_atomic_descriptor \<Rightarrow> u64 \<Rightarrow> u64 \<Rightarrow> u64 \<Rightarrow>
     turbowasm_value \<Rightarrow> exec_state \<Rightarrow> memory_outcome" where
  "atomic_access sc_mutex grant i memory_index offset d v expected replacement address s =
     do { r \<leftarrow> turbowasm_instance_memory_atomic sc_mutex (es_heap s) i memory_index
                 (turbowasm_exec_address_value address) offset d v expected replacement;
          case r of (status, old_value, trap, h) \<Rightarrow>
            if status \<noteq> TURBOWASM_OK then Some (status, Some trap, s\<lparr>es_heap := h\<rparr>)
            else if atomic_kind d = TURBOWASM_ATOMIC_STORE then Some (TURBOWASM_OK, Some trap, s\<lparr>es_heap := h\<rparr>)
            else with_trap trap (turbowasm_atomic_push_result grant (s\<lparr>es_heap := h\<rparr>) (atomic_value_type d) old_value) }"

definition exec_atomic_access :: "bool \<Rightarrow> (nat \<Rightarrow> bool) \<Rightarrow> addr \<Rightarrow> turbowasm_atomic_descriptor \<Rightarrow> exec_state \<Rightarrow> memory_outcome" where
  "exec_atomic_access sc_mutex grant i d s =
     atomic_memarg i (alignment_log2 d) s (\<lambda>memory_index offset address_kind s1.
       case atomic_kind d of
         TURBOWASM_ATOMIC_LOAD \<Rightarrow>
           pop_operand address_kind s1 (\<lambda>address s2.
             atomic_access sc_mutex grant i memory_index offset d 0 0 0 address s2)
       | TURBOWASM_ATOMIC_CMPXCHG \<Rightarrow>
           pop_operand (atomic_value_kind d) s1 (\<lambda>second s2. pop_operand (atomic_value_kind d) s2 (\<lambda>first s3.
           pop_operand address_kind s3 (\<lambda>address s4.
             atomic_access sc_mutex grant i memory_index offset d 0 (turbowasm_atomic_value_bits first (atomic_value_type d))
               (turbowasm_atomic_value_bits second (atomic_value_type d)) address s4)))
       | _ \<Rightarrow>
           pop_operand (atomic_value_kind d) s1 (\<lambda>first s2. pop_operand address_kind s2 (\<lambda>address s3.
             atomic_access sc_mutex grant i memory_index offset d
               (turbowasm_atomic_value_bits first (atomic_value_type d)) 0 0 address s3)))"

definition exec_atomic_notify :: "bool \<Rightarrow> (nat \<Rightarrow> bool) \<Rightarrow> addr \<Rightarrow> exec_state \<Rightarrow> memory_outcome" where
  "exec_atomic_notify sc_mutex grant i s =
     atomic_memarg i 2 s (\<lambda>memory_index offset address_kind s1.
     pop_operand TURBOWASM_VALUE_I32 s1 (\<lambda>count s2. pop_operand address_kind s2 (\<lambda>address s3.
       do { r \<leftarrow> turbowasm_instance_memory_notify sc_mutex (es_heap s3) i memory_index
                   (turbowasm_exec_address_value address) offset (value_i32 count);
            case r of (status, woken, trap, h) \<Rightarrow>
              if status \<noteq> TURBOWASM_OK then Some (status, Some trap, s3\<lparr>es_heap := h\<rparr>)
              else with_trap trap
                     (turbowasm_atomic_push_result grant (s3\<lparr>es_heap := h\<rparr>) TURBOWASM_ATOMIC_I32 (of_nat woken)) })))"

text \<open>The two waits: the width, the alignment and the type of the expected value.\<close>

definition exec_atomic_wait ::
    "bool \<Rightarrow> u64 \<Rightarrow> wait_event list \<Rightarrow> (nat \<Rightarrow> bool) \<Rightarrow> addr \<Rightarrow>
     turbowasm_atomic_value_type \<Rightarrow> exec_state \<Rightarrow> memory_outcome" where
  "exec_atomic_wait sc_mutex now events grant i ty s =
     atomic_memarg i (if ty = TURBOWASM_ATOMIC_I32 then 2 else 3) s (\<lambda>memory_index offset address_kind s1.
     pop_operand TURBOWASM_VALUE_I64 s1 (\<lambda>timeout s2.
     pop_operand (if ty = TURBOWASM_ATOMIC_I32 then TURBOWASM_VALUE_I32 else TURBOWASM_VALUE_I64) s2 (\<lambda>expected_value s3.
     pop_operand address_kind s3 (\<lambda>address s4.
       do { r \<leftarrow> turbowasm_instance_memory_wait_with_interrupt sc_mutex now events (es_heap s4) i memory_index
                   (turbowasm_exec_address_value address) offset (if ty = TURBOWASM_ATOMIC_I32 then 4 else 8)
                   (turbowasm_atomic_value_bits expected_value ty) (value_i64 timeout);
            case r of (status, out_result, trap, h) \<Rightarrow>
              if status \<noteq> TURBOWASM_OK then Some (status, Some trap, s4\<lparr>es_heap := h\<rparr>)
              else with_trap trap
                     (turbowasm_atomic_push_result grant (s4\<lparr>es_heap := h\<rparr>) TURBOWASM_ATOMIC_I32 (ucast out_result)) }))))"

definition exec_atomic_fence :: "bool \<Rightarrow> exec_state \<Rightarrow> memory_outcome" where
  "exec_atomic_fence sc_mutex s =
     (case turbowasm_reader_u8 (es_reader s) of
        (None, r) \<Rightarrow> Some (TURBOWASM_MALFORMED_MODULE, None, s\<lparr>es_reader := r\<rparr>)
      | (Some reserved, r) \<Rightarrow>
          if reserved \<noteq> 0 then Some (TURBOWASM_MALFORMED_MODULE, None, s\<lparr>es_reader := r\<rparr>)
          else Some (turbowasm_threads_sc_fence sc_mutex, None, s\<lparr>es_reader := r\<rparr>))"

definition turbowasm_exec_atomic ::
    "bool \<Rightarrow> u64 \<Rightarrow> wait_event list \<Rightarrow> (nat \<Rightarrow> bool) \<Rightarrow> addr \<Rightarrow> exec_state \<Rightarrow> memory_outcome" where
  "turbowasm_exec_atomic sc_mutex now events grant i s =
     read_index s (\<lambda>subopcode s1.
       if subopcode = 0 then exec_atomic_notify sc_mutex grant i s1
       else if subopcode = 1 then exec_atomic_wait sc_mutex now events grant i TURBOWASM_ATOMIC_I32 s1
       else if subopcode = 2 then exec_atomic_wait sc_mutex now events grant i TURBOWASM_ATOMIC_I64 s1
       else if subopcode = 3 then exec_atomic_fence sc_mutex s1
       else case turbowasm_atomic_descriptor_find (unat subopcode) of
         None \<Rightarrow> Some (TURBOWASM_UNSUPPORTED, None, s1)
       | Some d \<Rightarrow> exec_atomic_access sc_mutex grant i d s1)"

end
