(* ===== verification/TW_Memory_Laws.thy ===== *)
theory TW_Memory_Laws
  imports TW_Memory_Exec
begin

text \<open>
  Laws of the memories. The range check is exact in mathematical integers; a lookup depends only on how the instances
  are linked; the byte codecs are inverse to each other; a heap is well formed when every memory that an
  instance defines has the bytes its size says and keeps its limits. On a well-formed heap every access and every bulk operation
  is described by one equation, from which the properties follow.
\<close>

section \<open>Ranges\<close>

lemma add_fits:
  fixes a b :: u64
  shows "a > U64_MAX - b \<longleftrightarrow> 2 ^ 64 \<le> unat a + unat b"
  using unat_less_exp [of b] by (auto simp: word_less_nat_alt unat_sub word_le_nat_alt)

lemma add_exact:
  fixes a b :: u64
  shows "unat a + unat b < 2 ^ 64 \<Longrightarrow> unat (a + b) = unat a + unat b"
  by (simp add: unat_word_ariths)

lemma unat_page_size [simp]: "unat (ucast (p :: u32) :: u64) = unat p"
  using unat_less_exp [of p] by (simp add: unsigned_ucast_eq take_bit_nat_eq_self)

lemma mult_fits:
  fixes n :: u64 and p :: u32
  assumes "p \<noteq> 0"
  shows "n > U64_MAX div ucast p \<longleftrightarrow> 2 ^ 64 \<le> unat n * unat p"
proof -
  have p: "0 < unat p" using assms by (simp add: unat_gt_0)
  have "n > U64_MAX div ucast p \<longleftrightarrow> (2 ^ 64 - 1) div unat p < unat n"
    by (simp add: word_less_nat_alt unat_div)
  also have "\<dots> \<longleftrightarrow> \<not> unat n * unat p \<le> 2 ^ 64 - 1"
    unfolding linorder_not_le [symmetric] less_eq_div_iff_mult_less_eq [OF p] by (rule refl)
  finally show ?thesis by auto
qed

lemma mult_exact:
  fixes n :: u64 and p :: u32
  shows "unat n * unat p < 2 ^ 64 \<Longrightarrow> unat (n * ucast p) = unat n * unat p"
  by (simp add: unat_word_ariths)

definition mem_size :: "turbowasm_instance_memory \<Rightarrow> nat" where
  "mem_size m = unat (mem_pages m) * unat (mem_page_size m)"

lemma range_test:
  fixes e w n :: u64
  shows "(e > n \<or> w > n - e) \<longleftrightarrow> unat n < unat e + unat w"
proof (cases "e \<le> n")
  case True
  then have "unat (n - e) = unat n - unat e" "unat e \<le> unat n" by (simp_all add: unat_sub word_le_nat_alt)
  then show ?thesis by (auto simp: word_less_nat_alt)
next
  case False
  then show ?thesis by (auto simp: word_le_nat_alt word_less_nat_alt)
qed

lemma no_word_above_max: "\<not> U64_MAX < w"
  by (simp add: word_less_nat_alt not_less) (use unat_less_exp [of w] in simp)

lemma storage_range_eq:
  "turbowasm_instance_memory_storage_range m address offset width =
     (if \<not> mem_storage_initialized m \<or> mem_page_size m = 0 then Inl TURBOWASM_INVALID_ARGUMENT
      else if mem_size m < 2 ^ 64 \<and> unat address + unat offset + unat width \<le> mem_size m
      then Inr (unat address + unat offset) else Inl TURBOWASM_TRAPPED)"
proof (cases "mem_storage_initialized m \<and> mem_page_size m \<noteq> 0 \<and> unat address + unat offset < 2 ^ 64 \<and> mem_size m < 2 ^ 64")
  case True
  then have n: "unat (mem_pages m * ucast (mem_page_size m)) = mem_size m"
    and e: "unat (address + offset) = unat address + unat offset"
    by (simp_all add: mem_size_def mult_exact add_exact)
  have "(address + offset > mem_pages m * ucast (mem_page_size m) \<or>
      width > mem_pages m * ucast (mem_page_size m) - (address + offset) \<or> address + offset > SIZE_MAX \<or> width > SIZE_MAX) \<longleftrightarrow>
    mem_size m < unat address + unat offset + unat width"
    using range_test [of "mem_pages m * ucast (mem_page_size m)" "address + offset" width]
    by (auto simp: no_word_above_max e n)
  then show ?thesis
    using True
    by (simp add: turbowasm_instance_memory_storage_range_def Let_def add_fits mult_fits mem_size_def [symmetric] e not_less [symmetric])
next
  case False
  then show ?thesis
    by (auto simp: turbowasm_instance_memory_storage_range_def Let_def add_fits mult_fits mem_size_def [symmetric])
qed

section \<open>Lookup\<close>

text \<open>What a lookup depends on.\<close>

definition same_links :: "instance_heap \<Rightarrow> instance_heap \<Rightarrow> bool" where
  "same_links h h' \<longleftrightarrow>
     (\<forall>i. inst_module (h' i) = inst_module (h i) \<and> memory_count (h' i) = memory_count (h i) \<and>
          linked_memories (h' i) = linked_memories (h i))"

lemma same_links_sym: "same_links h h' \<Longrightarrow> same_links h' h"
  by (simp add: same_links_def)

lemma resolve_links:
  assumes "same_links h h'" "turbowasm_instance_memory_resolve h i k = Some r"
  shows "turbowasm_instance_memory_resolve h' i k = Some r"
proof -
  have "same_links h h' \<longrightarrow> turbowasm_instance_memory_resolve h' i k = Some r"
  proof (rule turbowasm_instance_memory_resolve.raw_induct
           [where P = "\<lambda>h i k r. same_links h h' \<longrightarrow> turbowasm_instance_memory_resolve h' i k = Some r", OF _ assms(2)], goal_cases)
    case (1 resolve h i k r)
    then show ?case
      by (subst turbowasm_instance_memory_resolve.simps)
         (auto simp: same_links_def split: if_splits option.splits)
  qed
  then show ?thesis using assms(1) by blast
qed

lemma resolve_same_links: "same_links h h' \<Longrightarrow> turbowasm_instance_memory_resolve h' i k = turbowasm_instance_memory_resolve h i k"
  using resolve_links [of h h' i k] resolve_links [OF same_links_sym, of h h' i k]
  by (cases "turbowasm_instance_memory_resolve h i k"; cases "turbowasm_instance_memory_resolve h' i k") auto

text \<open>A lookup ends at a memory that its instance defines.\<close>

definition owned :: "instance_heap \<Rightarrow> memory_id \<Rightarrow> bool" where
  "owned h x \<longleftrightarrow> snd x < memory_count (h (fst x)) \<and>
     (\<exists>md. inst_module (h (fst x)) = Some md \<and> snd x < length (val_memories md) \<and> \<not> vmem_imported (val_memories md ! snd x))"

lemma resolve_owned:
  assumes "turbowasm_instance_memory_resolve h i k = Some (Some x)"
  shows "owned h x"
proof -
  have "\<forall>y. Some x = Some y \<longrightarrow> owned h y"
  proof (rule turbowasm_instance_memory_resolve.raw_induct
           [where P = "\<lambda>h i k r. \<forall>y. r = Some y \<longrightarrow> owned h y", OF _ assms], goal_cases)
    case (1 resolve h i k r)
    then show ?case by (auto simp: owned_def split: if_splits option.splits)
  qed
  then show ?thesis by simp
qed

lemma memory_target_owned: "memory_target h i k = Some (Inr x) \<Longrightarrow> owned h x"
  by (auto simp: memory_target_def bind_eq_Some_conv split: if_splits option.splits intro: resolve_owned)

lemma owned_links: "same_links h h' \<Longrightarrow> owned h' x = owned h x"
  by (simp add: owned_def same_links_def)

lemma target_links: "same_links h h' \<Longrightarrow> memory_target h' i k = memory_target h i k"
  by (simp add: memory_target_def resolve_same_links) (simp add: same_links_def)

subsection \<open>Updates of one memory\<close>

lemma mem_put_links [simp]: "same_links h (mem_put h x m)"
  by (simp add: same_links_def mem_put_def)

lemma mem_at_put:
  "owned h x \<Longrightarrow> mem_at (mem_put h x m) y = (if y = x then m else mem_at h y)"
  by (cases x; cases y) (auto simp: mem_at_def mem_put_def owned_def)

lemma mem_put_at: "mem_put h x (mem_at h x) = h"
  by (simp add: mem_put_def mem_at_def fun_eq_iff)

lemma mem_store_links [simp]: "same_links h (mem_store h x e bs)"
  by (simp add: mem_store_def)

lemma mem_at_store:
  "owned h x \<Longrightarrow> mem_at (mem_store h x e bs) y =
     (if y = x then (mem_at h x)\<lparr>mem_data := bytes_put (mem_data (mem_at h x)) e bs\<rparr> else mem_at h y)"
  by (simp add: mem_store_def mem_at_put)

lemma resolve_put [simp]: "turbowasm_instance_memory_resolve (mem_put h x m) = turbowasm_instance_memory_resolve h"
  by (intro ext) (simp add: resolve_same_links)

lemma target_put [simp]: "memory_target (mem_put h x m) = memory_target h" "memory_target (mem_store h x e bs) = memory_target h"
  by (intro ext, simp add: target_links)+

section \<open>Little-endian codecs\<close>

text \<open>What the accesses promise about the bytes of a value of \<open>n\<close> bytes.\<close>

locale le_codec =
  fixes n :: nat and enc :: "'w \<Rightarrow> u8 list" and dec :: "u8 list \<Rightarrow> 'w"
  assumes length_enc: "length (enc v) = n"
    and dec_enc: "dec (enc v) = v"
    and enc_dec: "length bs = n \<Longrightarrow> enc (dec bs) = bs"
begin

lemma enc_inject: "enc v = enc v' \<longleftrightarrow> v = v'"
  using dec_enc by metis

lemma enc_surj: "length bs = n \<Longrightarrow> \<exists>!v. enc v = bs"
  using enc_dec enc_inject by metis

text \<open>Writing and reading back through a byte array.\<close>

lemma get_put: "e + n \<le> length data \<Longrightarrow> dec (bytes_get (bytes_put data e (enc v)) e n) = v"
  by (simp add: bytes_get_put length_enc dec_enc)

lemma put_get: "e + n \<le> length data \<Longrightarrow> bytes_put data e (enc (dec (bytes_get data e n))) = data"
  by (simp add: enc_dec bytes_put_get)

end

lemma bit_load_le_loop:
  "bit (load_le_loop index bs v) j \<longleftrightarrow>
     bit v j \<or> (j < 64 \<and> 8 * index \<le> j \<and> j < 8 * (index + length bs) \<and> bit (bs ! (j div 8 - index)) (j mod 8))"
proof (induction bs arbitrary: index v)
  case Nil
  then show ?case by auto
next
  case (Cons b bs)
  have b: "bit (push_bit (8 * index) (ucast b :: u64)) j \<longleftrightarrow> 8 * index \<le> j \<and> j < 64 \<and> j < 8 * index + 8 \<and> bit b (j mod 8)"
  proof (cases "8 * index \<le> j \<and> j < 8 * index + 8")
    case True
    then have "j mod 8 = j - 8 * index" by (metis add.commute add_diff_inverse_nat less_diff_conv2 mod_less mod_mult_self2 not_less)
    then show ?thesis using True by (auto simp: bit_simps)
  next
    case False
    then show ?thesis by (auto simp: bit_simps dest: bit_imp_le_length)
  qed
  have c: "(b # bs) ! (j div 8 - index) = (if j < 8 * index + 8 then b else bs ! (j div 8 - Suc index))" if "8 * index \<le> j"
  proof (cases "j < 8 * index + 8")
    case True
    then have "j div 8 = index" using that by linarith
    then show ?thesis using True by simp
  next
    case False
    then have "j div 8 - index = Suc (j div 8 - Suc index)" by linarith
    then show ?thesis using False by simp
  qed
  show ?case
    unfolding load_le_loop.simps Cons.IH bit_or_iff b using c by (cases "j < 8 * index + 8") auto
qed

lemma nth_le_bytes:
  "j < n \<Longrightarrow> map (\<lambda>index. ucast (drop_bit (8 * index) v)) [0..<n] ! j = (ucast (drop_bit (8 * j) v) :: u8)"
  by simp

lemma le_load_store: "load_le_loop 0 (map (\<lambda>index. ucast (drop_bit (8 * index) (v :: u64))) [0..<n]) 0 = take_bit (8 * n) v"
proof (rule bit_word_eqI)
  fix j assume "j < LENGTH(64)"
  then have j: "j < 64" by simp
  have "8 * (j div 8) + j mod 8 = j" by simp
  then show "bit (load_le_loop 0 (map (\<lambda>index. ucast (drop_bit (8 * index) v)) [0..<n]) 0) j \<longleftrightarrow> bit (take_bit (8 * n) v) j"
    using j by (auto simp: bit_load_le_loop bit_simps)
qed

lemma le_store_load:
  assumes "length bs \<le> 8"
  shows "map (\<lambda>index. ucast (drop_bit (8 * index) (load_le_loop 0 bs 0)) :: u8) [0..<length bs] = bs"
proof (rule nth_equalityI, simp, rule bit_word_eqI)
  fix i j assume i: "i < length (map (\<lambda>index. ucast (drop_bit (8 * index) (load_le_loop 0 bs 0)) :: u8) [0..<length bs])"
    and j: "j < LENGTH(8)"
  have "(8 * i + j) div 8 = i" "(8 * i + j) mod 8 = j" "8 * i + j < 64" "8 * i + j < 8 * length bs"
    using i j assms by simp_all
  then show "bit (map (\<lambda>index. ucast (drop_bit (8 * index) (load_le_loop 0 bs 0)) :: u8) [0..<length bs] ! i) j \<longleftrightarrow> bit (bs ! i) j"
    using i j by (simp add: bit_simps bit_load_le_loop)
qed

lemma list_of_length_2: "length bs = 2 \<Longrightarrow> bs = [bs ! 0, bs ! 1]"
  by (cases bs; cases "tl bs") auto

lemma list_of_length_4: "length bs = 4 \<Longrightarrow> bs = [bs ! 0, bs ! 1, bs ! 2, bs ! 3]"
  by (auto simp: numeral_eq_Suc length_Suc_conv)

interpretation le64: le_codec 8 turbowasm_write_u64_le turbowasm_read_u64_le_bytes
proof
  show "length (turbowasm_write_u64_le v) = 8" for v by (simp add: turbowasm_write_u64_le_def)
  show "turbowasm_read_u64_le_bytes (turbowasm_write_u64_le v) = v" for v
    unfolding turbowasm_read_u64_le_bytes_def turbowasm_write_u64_le_def using le_load_store [of v 8] by (simp add: take_bit_word_eq_self del: upt_rec_numeral)
  show "turbowasm_write_u64_le (turbowasm_read_u64_le_bytes bs) = bs" if "length bs = 8" for bs
    using le_store_load [of bs] that by (simp add: turbowasm_write_u64_le_def turbowasm_read_u64_le_bytes_def del: upt_rec_numeral)
qed

interpretation le32: le_codec 4 turbowasm_write_u32_le turbowasm_read_u32_le_bytes
proof
  show "length (turbowasm_write_u32_le v) = 4" for v by (simp add: turbowasm_write_u32_le_def)
  show "turbowasm_read_u32_le_bytes (turbowasm_write_u32_le v) = v" for v
  proof (rule bit_word_eqI)
    fix j assume "j < LENGTH(32)"
    then show "bit (turbowasm_read_u32_le_bytes (turbowasm_write_u32_le v)) j \<longleftrightarrow> bit v j"
      by (cases "j < 8"; cases "j < 16"; cases "j < 24")
         (simp_all add: turbowasm_read_u32_le_bytes_def turbowasm_write_u32_le_def bit_simps, linarith+)
  qed
  show "turbowasm_write_u32_le (turbowasm_read_u32_le_bytes bs) = bs" if "length bs = 4" for bs
    by (subst (2) list_of_length_4 [OF that], simp add: turbowasm_write_u32_le_def turbowasm_read_u32_le_bytes_def, intro conjI)
       (rule bit_word_eqI, auto simp: bit_simps dest: bit_imp_le_length)+
qed

interpretation le16: le_codec 2 turbowasm_write_u16_le turbowasm_read_u16_le
proof
  show "length (turbowasm_write_u16_le v) = 2" for v by (simp add: turbowasm_write_u16_le_def)
  show "turbowasm_read_u16_le (turbowasm_write_u16_le v) = v" for v
    by (rule bit_word_eqI) (auto simp: turbowasm_read_u16_le_def turbowasm_write_u16_le_def bit_simps)
  show "turbowasm_write_u16_le (turbowasm_read_u16_le bs) = bs" if "length bs = 2" for bs
    by (subst (2) list_of_length_2 [OF that], simp add: turbowasm_write_u16_le_def turbowasm_read_u16_le_def, intro conjI)
       (rule bit_word_eqI, auto simp: bit_simps dest: bit_imp_le_length)+
qed


section \<open>Well-formed memories\<close>

definition wf_memory :: "turbowasm_instance_memory \<Rightarrow> bool" where
  "wf_memory m \<longleftrightarrow>
     mem_storage_initialized m \<and> mem_page_size m \<noteq> 0 \<and> mem_size m < 2 ^ 64 \<and> length (mem_data m) = mem_size m \<and>
     (mem_has_maximum m \<longrightarrow> mem_pages m \<le> mem_maximum_pages m) \<and>
     (mem_resource_max_bytes m \<noteq> 0 \<longrightarrow> mem_size m \<le> unat (mem_resource_max_bytes m)) \<and>
     (mem_waiter_mutex_initialized m \<longleftrightarrow> mem_shared m) \<and>
     length (mem_waiters m) = (if mem_shared m then 64 else 0) \<and>
     unat (mem_waiter_count m) = length (filter waiter_active (mem_waiters m))"

definition wf_heap :: "instance_heap \<Rightarrow> bool" where
  "wf_heap h \<longleftrightarrow> (\<forall>x. owned h x \<longrightarrow> wf_memory (mem_at h x))"

lemma wf_heapD: "wf_heap h \<Longrightarrow> owned h x \<Longrightarrow> wf_memory (mem_at h x)"
  unfolding wf_heap_def by blast

lemma wf_heap_target: "wf_heap h \<Longrightarrow> memory_target h i k = Some (Inr x) \<Longrightarrow> wf_memory (mem_at h x)"
  by (blast intro: wf_heapD memory_target_owned)

lemma wf_heap_put:
  assumes "wf_heap h" "owned h x" "wf_memory m"
  shows "wf_heap (mem_put h x m)"
  using assms by (simp add: wf_heap_def mem_at_put owned_links [OF mem_put_links])

lemma wf_memory_data: "wf_memory m \<Longrightarrow> length data = length (mem_data m) \<Longrightarrow> wf_memory (m\<lparr>mem_data := data\<rparr>)"
  by (simp add: wf_memory_def mem_size_def)

lemma wf_heap_store:
  assumes "wf_heap h" "owned h x" "e + length bs \<le> length (mem_data (mem_at h x))"
  shows "wf_heap (mem_store h x e bs)"
  unfolding mem_store_def using assms by (intro wf_heap_put wf_memory_data wf_heapD) simp_all

subsection \<open>Ranges of a well-formed memory\<close>

lemma storage_range_wf:
  assumes "wf_memory m"
  shows "turbowasm_instance_memory_storage_range m address offset width =
     (if unat address + unat offset + unat width \<le> length (mem_data m) then Inr (unat address + unat offset)
      else Inl TURBOWASM_TRAPPED)"
  using assms by (simp add: storage_range_eq wf_memory_def)

lemma memory_bounds_wf:
  assumes "memory_target h i k = Some (Inr x)" "wf_memory (mem_at h x)" "\<not> mem_shared (mem_at h x)"
  shows "turbowasm_instance_memory_bounds h i k address offset width =
     Some (if unat address + unat offset + unat width \<le> length (mem_data (mem_at h x)) then Inr (x, unat address + unat offset)
           else Inl TURBOWASM_TRAPPED)"
proof -
  have "turbowasm_instance_memory_bounds h i k address offset width =
      Some (case turbowasm_instance_memory_storage_range (mem_at h x) address offset width of
              Inl status \<Rightarrow> Inl status | Inr e \<Rightarrow> Inr (x, e))"
    using assms by (simp add: turbowasm_instance_memory_bounds_def turbowasm_instance_memory_storage_range_def Let_def
      no_word_above_max wf_memory_def)
  then show ?thesis using assms(2) by (simp add: storage_range_wf)
qed

section \<open>Loads and stores\<close>

lemma load_width_bound: "load_width opcode = Some width \<Longrightarrow> unat (of_nat width :: u64) = width"
  by (auto simp: load_width_def split: if_splits)

lemma load_decode_total: "load_width opcode = Some width \<Longrightarrow> \<exists>v. load_decode opcode p = Some v"
  by (auto simp: load_width_def load_decode_def split: if_splits)

lemma memory_load_wf:
  assumes "wf_heap h" "memory_target h i k = Some (Inr x)" "load_width opcode = Some width"
  shows "turbowasm_instance_memory_load_value h i k address offset opcode =
     Some (if unat address + unat offset + width \<le> length (mem_data (mem_at h x))
           then (TURBOWASM_OK, None, load_decode opcode (bytes_get (mem_data (mem_at h x)) (unat address + unat offset) width))
           else (TURBOWASM_TRAPPED, Some TURBOWASM_TRAP_MEMORY_OUT_OF_BOUNDS, None))"
  using assms wf_heap_target [OF assms(1,2)] load_decode_total [OF assms(3), of "bytes_get (mem_data (mem_at h x)) (unat address + unat offset) width"]
  by (cases "mem_shared (mem_at h x)")
     (auto simp: turbowasm_instance_memory_load_value_def turbowasm_instance_memory_shared_def turbowasm_instance_memory_read_bytes_def
       memory_bounds_wf storage_range_wf load_width_bound split: option.splits)

lemma store_encode_length:
  "store_shape opcode = Some (kind, width) \<Longrightarrow>
     \<exists>bs. store_encode opcode v = Some bs \<and> length bs = width \<and> 0 < width \<and> unat (of_nat width :: u64) = width"
  by (auto simp: store_shape_def store_encode_def le16.length_enc le32.length_enc le64.length_enc split: if_splits)

lemma memory_store_wf:
  assumes "wf_heap h" "memory_target h i k = Some (Inr x)" "store_shape opcode = Some (kind, width)"
    "store_encode opcode v = Some bs" "value_kind v = Some kind"
  shows "turbowasm_instance_memory_store_value h i k address offset opcode v =
     Some (if unat address + unat offset + width \<le> length (mem_data (mem_at h x))
           then (TURBOWASM_OK, None, mem_store h x (unat address + unat offset) bs)
           else (TURBOWASM_TRAPPED, Some TURBOWASM_TRAP_MEMORY_OUT_OF_BOUNDS, h))"
  using assms wf_heap_target [OF assms(1,2)] store_encode_length [OF assms(3), of v]
  by (cases "mem_shared (mem_at h x)")
     (auto simp: turbowasm_instance_memory_store_value_def turbowasm_instance_memory_shared_def
       turbowasm_instance_memory_write_bytes_def memory_bounds_wf storage_range_wf)

lemma memory_store_refused:
  "\<lbrakk>\<And>kind width. store_shape opcode = Some (kind, width) \<Longrightarrow> value_kind v \<noteq> Some kind;
    turbowasm_instance_memory_store_value h i k address offset opcode v = Some (status, trap, h')\<rbrakk> \<Longrightarrow>
   status \<noteq> TURBOWASM_OK \<and> h' = h"
  by (auto simp: turbowasm_instance_memory_store_value_def split: option.splits prod.splits if_splits)

lemma memory_store_untargeted:
  "\<lbrakk>memory_target h i k = Some (Inl status'); turbowasm_instance_memory_store_value h i k address offset opcode v = Some (status, trap, h')\<rbrakk> \<Longrightarrow>
   status \<noteq> TURBOWASM_OK \<and> h' = h"
  by (auto simp: turbowasm_instance_memory_store_value_def turbowasm_instance_memory_shared_def memory_target_def bind_eq_Some_conv
      split: option.splits prod.splits if_splits)

text \<open>A store that succeeds, taken apart.\<close>

lemma memory_store_ok:
  assumes "wf_heap h" "turbowasm_instance_memory_store_value h i k address offset opcode v = Some (TURBOWASM_OK, trap, h')"
  obtains x kind width bs where "memory_target h i k = Some (Inr x)" "store_shape opcode = Some (kind, width)"
    "store_encode opcode v = Some bs" "value_kind v = Some kind" "length bs = width"
    "unat address + unat offset + width \<le> length (mem_data (mem_at h x))" "h' = mem_store h x (unat address + unat offset) bs"
proof -
  obtain kind width where sh: "store_shape opcode = Some (kind, width)" "value_kind v = Some kind"
    using memory_store_refused [OF _ assms(2)] by blast
  obtain bs where bs: "store_encode opcode v = Some bs" "length bs = width"
    using store_encode_length [OF sh(1)] by blast
  have "memory_target h i k \<noteq> None"
    using assms(2) sh bs
    by (auto simp: turbowasm_instance_memory_store_value_def turbowasm_instance_memory_shared_def bind_eq_Some_conv)
  then obtain x where x: "memory_target h i k = Some (Inr x)"
    using memory_store_untargeted [OF _ assms(2)] by (metis not_None_eq sum.exhaust)
  show ?thesis
    using that [OF x sh(1) bs(1) sh(2) bs(2)] memory_store_wf [OF assms(1) x sh(1) bs(1) sh(2), of address offset] assms(2)
    by (auto split: if_splits)
qed


lemma scast_ucast_take:
  "scast (ucast (c :: 'a :: len word) :: 'b :: len word) = (signed_take_bit (LENGTH('b) - 1) c :: 'a word)"
  if "LENGTH('b) \<le> LENGTH('a)"
  by (rule bit_word_eqI) (use that in \<open>auto simp: bit_simps min_def\<close>)

lemma ucast_ucast_take:
  "ucast (ucast (c :: 'a :: len word) :: 'b :: len word) = (take_bit (LENGTH('b)) c :: 'a word)"
  by (rule bit_word_eqI) (auto simp: bit_simps)

lemma value_of_kind:
  "value_kind v = Some TURBOWASM_VALUE_I32 \<Longrightarrow> VALUE_I32 (value_i32 v) = v"
  "value_kind v = Some TURBOWASM_VALUE_I64 \<Longrightarrow> VALUE_I64 (value_i64 v) = v"
  "value_kind v = Some TURBOWASM_VALUE_F32 \<Longrightarrow> VALUE_F32 (value_f32 v) = v"
  "value_kind v = Some TURBOWASM_VALUE_F64 \<Longrightarrow> VALUE_F64 (value_f64 v) = v"
  by (cases v; simp)+

text \<open>A store, a load of the same width and type, and what the load returns for the value stored.\<close>

definition reloads :: "(u8 \<times> u8 \<times> (turbowasm_value \<Rightarrow> turbowasm_value)) list" where
  "reloads =
     [(0x36, 0x28, id), (0x37, 0x29, id), (0x38, 0x2a, id), (0x39, 0x2b, id),
      (0x3a, 0x2c, \<lambda>v. VALUE_I32 (signed_take_bit 7 (value_i32 v))), (0x3a, 0x2d, \<lambda>v. VALUE_I32 (take_bit 8 (value_i32 v))),
      (0x3b, 0x2e, \<lambda>v. VALUE_I32 (signed_take_bit 15 (value_i32 v))), (0x3b, 0x2f, \<lambda>v. VALUE_I32 (take_bit 16 (value_i32 v))),
      (0x3c, 0x30, \<lambda>v. VALUE_I64 (signed_take_bit 7 (value_i64 v))), (0x3c, 0x31, \<lambda>v. VALUE_I64 (take_bit 8 (value_i64 v))),
      (0x3d, 0x32, \<lambda>v. VALUE_I64 (signed_take_bit 15 (value_i64 v))), (0x3d, 0x33, \<lambda>v. VALUE_I64 (take_bit 16 (value_i64 v))),
      (0x3e, 0x34, \<lambda>v. VALUE_I64 (signed_take_bit 31 (value_i64 v))), (0x3e, 0x35, \<lambda>v. VALUE_I64 (take_bit 32 (value_i64 v)))]"

lemma reload_decode:
  "list_all (\<lambda>(st, ld, f). \<forall>v kind width bs. store_shape st = Some (kind, width) \<longrightarrow> value_kind v = Some kind \<longrightarrow>
      store_encode st v = Some bs \<longrightarrow> load_width ld = Some width \<and> load_decode ld bs = Some (f v)) reloads"
  unfolding reloads_def
  by (simp add: store_shape_def store_encode_def load_width_def load_decode_def le16.dec_enc le32.dec_enc le64.dec_enc
      scast_ucast_take ucast_ucast_take value_of_kind)

lemma memory_same_target:
  assumes "turbowasm_instance_memory_same h i k i' k' = Some True" "memory_target h i k = Some (Inr x)"
  shows "memory_target h i' k' = Some (Inr x)"
proof -
  have r: "turbowasm_instance_memory_resolve h i k = Some (Some x)"
    using assms(2) by (auto simp: memory_target_def bind_eq_Some_conv split: if_splits option.splits)
  then have r': "turbowasm_instance_memory_resolve h i' k' = Some (Some x)"
    using assms(1) by (auto simp: turbowasm_instance_memory_same_def bind_eq_Some_conv split: if_splits)
  then have "k' < memory_count (h i')"
    by (subst (asm) turbowasm_instance_memory_resolve.simps) (auto split: if_splits)
  then show ?thesis using r' by (simp add: memory_target_def)
qed

text \<open>
  C2. A store and a load of the same width and type, through the same or two different imports of one memory: when the
  store succeeds, the load at the same address and offset succeeds and returns the value for the full widths, and for
  the narrow accesses the low bits of the value, extended by the sign or by zeros as the load instruction says.
\<close>

theorem memory_store_load_roundtrip:
  assumes "wf_heap h" "(st, ld, f) \<in> set reloads" "turbowasm_instance_memory_same h i k i' k' = Some True"
    "turbowasm_instance_memory_store_value h i k address offset st v = Some (TURBOWASM_OK, trap, h')"
  shows "turbowasm_instance_memory_load_value h' i' k' address offset ld = Some (TURBOWASM_OK, None, Some (f v))"
proof -
  obtain x kind width bs where *: "memory_target h i k = Some (Inr x)" "store_shape st = Some (kind, width)"
    "store_encode st v = Some bs" "value_kind v = Some kind" "length bs = width"
    "unat address + unat offset + width \<le> length (mem_data (mem_at h x))" "h' = mem_store h x (unat address + unat offset) bs"
    using memory_store_ok [OF assms(1,4)] .
  have l: "load_width ld = Some width" "load_decode ld bs = Some (f v)"
    using reload_decode assms(2) *(2-4) by (auto simp: list_all_iff)
  have o: "owned h x" using *(1) by (rule memory_target_owned)
  have t: "memory_target h' i' k' = Some (Inr x)"
    using memory_same_target [OF assms(3) *(1)] *(7) by simp
  have wf: "wf_heap h'" unfolding *(7) using assms(1) o *(5,6) by (intro wf_heap_store) auto
  show ?thesis
    unfolding memory_load_wf [OF wf t l(1)] using *(5-7) o l(2) by (simp add: mem_at_store bytes_get_put)
qed

definition sample_memory :: turbowasm_instance_memory where
  "sample_memory = cleared_memory\<lparr>mem_data := replicate 16 0, mem_pages := 16, mem_page_size := 1, mem_storage_initialized := True\<rparr>"

definition sample_module :: "bool \<Rightarrow> turbowasm_module_memories" where
  "sample_module imported =
     \<lparr>val_memories = [\<lparr>vmem_imported = imported, vmem_shared = False, vmem_memory64 = False, vmem_page_size = 1,
                       vmem_limits = \<lparr>limits_minimum = 16, limits_maximum = 0, limits_has_maximum = False\<rparr>\<rparr>],
      val_data_segments = [[1, 2, 3]], max_linear_memory_bytes = 0\<rparr>"

text \<open>Two instances: the first defines a memory of 16 pages of one byte, the second imports it.\<close>

definition sample_heap :: instance_heap where
  "sample_heap =
     (\<lambda>i. if i = 7 then \<lparr>inst_module = Some (sample_module False), inst_memories = [sample_memory], linked_memories = [], data_segment_dropped = [False]\<rparr>
          else if i = 8 then \<lparr>inst_module = Some (sample_module True), inst_memories = [cleared_memory], linked_memories = [(Some 7, 0)], data_segment_dropped = [False]\<rparr>
          else \<lparr>inst_module = None, inst_memories = [], linked_memories = [], data_segment_dropped = []\<rparr>)"

lemma wf_sample_memory: "wf_memory sample_memory"
  by (simp add: wf_memory_def sample_memory_def cleared_memory_def mem_size_def)

lemma wf_sample_heap: "wf_heap sample_heap"
  using wf_sample_memory
  by (auto simp: wf_heap_def owned_def sample_heap_def sample_module_def mem_at_def split: if_splits)

lemma sample_resolve:
  "turbowasm_instance_memory_resolve sample_heap 7 0 = Some (Some (7, 0))"
  "turbowasm_instance_memory_resolve sample_heap 8 0 = Some (Some (7, 0))"
proof -
  show r: "turbowasm_instance_memory_resolve sample_heap 7 0 = Some (Some (7, 0))"
    by (subst turbowasm_instance_memory_resolve.simps) (simp add: sample_heap_def sample_module_def)
  show "turbowasm_instance_memory_resolve sample_heap 8 0 = Some (Some (7, 0))"
    by (subst turbowasm_instance_memory_resolve.simps) (use r in \<open>simp add: sample_heap_def sample_module_def\<close>)
qed

lemma sample_count: "memory_count (sample_heap 7) = 1" "memory_count (sample_heap 8) = 1"
  by (simp_all add: sample_heap_def)

lemma sample_target:
  "memory_target sample_heap 7 0 = Some (Inr (7, 0))" "memory_target sample_heap 8 0 = Some (Inr (7, 0))"
  by (simp_all add: memory_target_def sample_resolve sample_count)

lemma sample_same: "turbowasm_instance_memory_same sample_heap 7 0 8 0 = Some True"
  by (simp add: turbowasm_instance_memory_same_def sample_resolve)

lemma sample_at: "mem_at sample_heap (7, 0) = sample_memory" "length (mem_data sample_memory) = 16"
  by (simp_all add: mem_at_def sample_heap_def sample_memory_def)

lemma memory_store_load_roundtrip_witness:
  "\<exists>h'. turbowasm_instance_memory_store_value sample_heap 7 0 3 4 0x3b (VALUE_I32 0xfff7abcd) = Some (TURBOWASM_OK, None, h') \<and>
     turbowasm_instance_memory_load_value h' 8 0 3 4 0x2e = Some (TURBOWASM_OK, None, Some (VALUE_I32 0xffffabcd))"
proof -
  have st: "turbowasm_instance_memory_store_value sample_heap 7 0 3 4 0x3b (VALUE_I32 0xfff7abcd) =
      Some (TURBOWASM_OK, None, mem_store sample_heap (7, 0) 7 (turbowasm_write_u16_le 0xfff7abcd))"
    using memory_store_wf [OF wf_sample_heap sample_target(1), of "0x3b" _ 2 "VALUE_I32 0xfff7abcd"]
    by (simp add: store_shape_def store_encode_def sample_at)
  have "(0x3b, 0x2e, \<lambda>v. VALUE_I32 (signed_take_bit 15 (value_i32 v))) \<in> set reloads" by (simp add: reloads_def)
  then show ?thesis using memory_store_load_roundtrip [OF wf_sample_heap _ sample_same st] st by fastforce
qed


text \<open>
  C3. Loads and stores are exact: on a well-formed heap, for an index that names a memory, an access of \<open>width\<close> bytes at
  \<open>address + offset\<close> (the mathematical sum) traps as out of bounds exactly when it does not fit in the bytes of the memory, whether
  the memory is shared or not, and a trap changes nothing. A store that fits writes its bytes there, keeps every other
  byte of the memory and every other memory, and a load that fits decodes the bytes that are there.
\<close>

theorem memory_access_exact:
  fixes h :: instance_heap and x :: memory_id and address offset :: u64
  assumes "wf_heap h" "memory_target h i k = Some (Inr x)"
    "load_width ld = Some lwidth" "store_shape st = Some (kind, width)" "store_encode st v = Some bs" "value_kind v = Some kind"
  defines "data \<equiv> mem_data (mem_at h x)" and "e \<equiv> unat address + unat offset"
  shows "turbowasm_instance_memory_load_value h i k address offset ld =
       (if e + lwidth \<le> length data then Some (TURBOWASM_OK, None, load_decode ld (take lwidth (drop e data)))
        else Some (TURBOWASM_TRAPPED, Some TURBOWASM_TRAP_MEMORY_OUT_OF_BOUNDS, None)) \<and>
     (if e + width \<le> length data then
        \<exists>h'. turbowasm_instance_memory_store_value h i k address offset st v = Some (TURBOWASM_OK, None, h') \<and>
          length (mem_data (mem_at h' x)) = length data \<and>
          (\<forall>j < length data. mem_data (mem_at h' x) ! j = (if e \<le> j \<and> j < e + width then bs ! (j - e) else data ! j)) \<and>
          (\<forall>y. y \<noteq> x \<longrightarrow> mem_at h' y = mem_at h y)
      else turbowasm_instance_memory_store_value h i k address offset st v =
             Some (TURBOWASM_TRAPPED, Some TURBOWASM_TRAP_MEMORY_OUT_OF_BOUNDS, h))"
proof -
  have "owned h x" "length bs = width"
    using memory_target_owned [OF assms(2)] store_encode_length [OF assms(4), of v] assms(5) by auto
  then show ?thesis
    unfolding memory_load_wf [OF assms(1-3)] memory_store_wf [OF assms(1,2,4-6)] data_def e_def
    by (simp add: mem_at_store bytes_put_nth bytes_get_def)
qed

lemma memory_access_exact_witness:
  "turbowasm_instance_memory_load_value sample_heap 8 0 9 0 0x29 =
     Some (TURBOWASM_TRAPPED, Some TURBOWASM_TRAP_MEMORY_OUT_OF_BOUNDS, None)"
  using memory_access_exact [OF wf_sample_heap sample_target(2), of "0x29" 8 "0x37" "TURBOWASM_VALUE_I64" 8 "VALUE_I64 5"
      "turbowasm_write_u64_le 5" 9 0]
  by (simp add: load_width_def store_shape_def store_encode_def sample_at)

section \<open>Lookups end\<close>

text \<open>The links of an instance lead to instances of a lower rank.\<close>

definition acyclic_links :: "(addr \<Rightarrow> nat) \<Rightarrow> instance_heap \<Rightarrow> bool" where
  "acyclic_links rank h \<longleftrightarrow> (\<forall>i k p. k < length (linked_memories (h i)) \<longrightarrow> fst (linked_memories (h i) ! k) = Some p \<longrightarrow> rank p < rank i)"

text \<open>
  C7. A lookup of a memory ends whenever the imports are linked to instances made earlier (a rank that falls along
  every link), and then an index in range is refused or names a memory that its instance defines; without such a
  rank it may not end: an instance linked to itself has no result.
\<close>

theorem memory_lookup_terminates:
  "(acyclic_links rank h \<longrightarrow> (\<exists>r. turbowasm_instance_memory_resolve h i k = Some r \<and> (\<forall>x. r = Some x \<longrightarrow> owned h x))) \<and>
   (k < memory_count (h i) \<and> inst_module (h i) = Some md \<and> k < length (val_memories md) \<and> vmem_imported (val_memories md ! k) \<and>
      k < length (linked_memories (h i)) \<and> linked_memories (h i) ! k = (Some i, k) \<longrightarrow>
    turbowasm_instance_memory_resolve h i k = None)"
proof (intro conjI impI)
  assume a: "acyclic_links rank h"
  have "\<exists>r. turbowasm_instance_memory_resolve h i k = Some r"
  proof (induction "rank i" arbitrary: i k rule: less_induct)
    case less
    show ?case
      by (subst turbowasm_instance_memory_resolve.simps)
         (use less a in \<open>auto simp: acyclic_links_def not_le split: option.splits\<close>)
  qed
  then show "\<exists>r. turbowasm_instance_memory_resolve h i k = Some r \<and> (\<forall>x. r = Some x \<longrightarrow> owned h x)"
    using resolve_owned by blast
next
  assume l: "k < memory_count (h i) \<and> inst_module (h i) = Some md \<and> k < length (val_memories md) \<and> vmem_imported (val_memories md ! k) \<and>
      k < length (linked_memories (h i)) \<and> linked_memories (h i) ! k = (Some i, k)"
  show "turbowasm_instance_memory_resolve h i k = None"
  proof (rule ccontr)
    assume "turbowasm_instance_memory_resolve h i k \<noteq> None"
    then obtain r where r: "turbowasm_instance_memory_resolve h i k = Some r" by blast
    have "(h, i, k) \<noteq> (h', i', k')" if "turbowasm_instance_memory_resolve h' i' k' = Some r'" for h' i' k' r'
    proof (rule turbowasm_instance_memory_resolve.raw_induct
             [where P = "\<lambda>h' i' k' r'. (h, i, k) \<noteq> (h', i', k')", OF _ that], goal_cases)
      case (1 f h' i' k' r')
      have "f h i k = Some r'" if "(h, i, k) = (h', i', k')" using 1(2) l that by auto
      then show ?case using 1(1) by blast
    qed
    then show False using r by blast
  qed
qed

lemma sample_acyclic: "acyclic_links id sample_heap"
  by (auto simp: acyclic_links_def sample_heap_def)

lemma memory_lookup_terminates_witness:
  "\<exists>x. turbowasm_instance_memory_resolve sample_heap 8 0 = Some (Some x) \<and> owned sample_heap x"
  using memory_lookup_terminates [of id sample_heap 8 0] sample_acyclic sample_resolve(2) by auto

section \<open>Growth\<close>

text \<open>The new size, in pages, is one that the memory may have.\<close>

definition may_have :: "turbowasm_instance_memory \<Rightarrow> nat \<Rightarrow> bool" where
  "may_have m n \<longleftrightarrow>
     n \<le> unat (memory_page_bound m) \<and> n * unat (mem_page_size m) < 2 ^ 64 \<and>
     (mem_has_maximum m \<longrightarrow> n \<le> unat (mem_maximum_pages m)) \<and>
     (mem_resource_max_bytes m \<noteq> 0 \<longrightarrow> n * unat (mem_page_size m) \<le> unat (mem_resource_max_bytes m))"

lemma page_bound_lt: "unat (memory_page_bound m) < 2 ^ 64"
  using unat_less_exp [of "memory_page_bound m"] by simp

lemma memory_grow_wf:
  assumes "wf_memory m"
  shows "memory_grow grant m delta =
     (let n = unat (mem_pages m) + unat delta; bytes = n * unat (mem_page_size m) in
      if may_have m n \<and> (bytes = 0 \<or> grant bytes)
      then (mem_pages m, m\<lparr>mem_data := mem_data m @ replicate (unat delta * unat (mem_page_size m)) 0, mem_pages := mem_pages m + delta\<rparr>)
      else (U64_MAX, m))"
proof (cases "unat (mem_pages m) + unat delta < 2 ^ 64")
  case False
  then show ?thesis
    using page_bound_lt [of m] by (auto simp: memory_grow_def add_fits may_have_def)
next
  case fits: True
  have p: "mem_page_size m \<noteq> 0" and pm: "mem_size m < 2 ^ 64" and len: "length (mem_data m) = mem_size m"
    using assms by (simp_all add: wf_memory_def)
  have n: "unat (mem_pages m + delta) = unat (mem_pages m) + unat delta" using fits by (rule add_exact)
  have b0: "unat (mem_pages m * ucast (mem_page_size m)) = length (mem_data m)"
    using pm len by (simp add: mem_size_def mult_exact)
  show ?thesis
  proof (cases "(unat (mem_pages m) + unat delta) * unat (mem_page_size m) < 2 ^ 64")
    case False
    then have "mem_pages m + delta > SIZE_MAX div ucast (mem_page_size m)" by (simp add: mult_fits p n)
    then show ?thesis using False fits by (simp add: memory_grow_def Let_def may_have_def add_fits)
  next
    case True
    then have b: "unat ((mem_pages m + delta) * ucast (mem_page_size m)) = (unat (mem_pages m) + unat delta) * unat (mem_page_size m)"
      and q: "\<not> mem_pages m + delta > SIZE_MAX div ucast (mem_page_size m)"
      by (simp_all add: mult_exact mult_fits p n)
    have a: "\<not> (mem_page_size m = 0 \<or> mem_pages m > U64_MAX - delta)" using p fits by (simp add: add_fits)
    have z: "((mem_pages m + delta) * ucast (mem_page_size m) = 0) = ((unat (mem_pages m) + unat delta) * unat (mem_page_size m) = 0)"
      by (simp only: unat_eq_0 [symmetric] b)
    have t: "may_have m (unat (mem_pages m) + unat delta) \<longleftrightarrow>
        \<not> (mem_pages m + delta > memory_page_bound m \<or> (mem_has_maximum m \<and> mem_pages m + delta > mem_maximum_pages m) \<or>
           mem_pages m + delta > SIZE_MAX div ucast (mem_page_size m)) \<and>
        \<not> (mem_resource_max_bytes m \<noteq> 0 \<and> (mem_pages m + delta) * ucast (mem_page_size m) > mem_resource_max_bytes m)"
      using True q by (auto simp: may_have_def word_less_nat_alt n b)
    have d: "(unat (mem_pages m) + unat delta) * unat (mem_page_size m) - length (mem_data m) = unat delta * unat (mem_page_size m)"
      using len by (simp add: mem_size_def algebra_simps)
    have r: "m\<lparr>mem_data := mem_data m @ replicate (unat delta * unat (mem_page_size m)) 0, mem_pages := mem_pages m + delta\<rparr> = m\<lparr>mem_pages := mem_pages m + delta\<rparr>"
      if "(unat (mem_pages m) + unat delta) * unat (mem_page_size m) = 0"
      using that by auto
    show ?thesis
      unfolding memory_grow_def Let_def if_not_P [OF a] z b b0 d t
      by (cases "(unat (mem_pages m) + unat delta) * unat (mem_page_size m) = 0") (simp_all only: r, auto)
  qed
qed


lemma size64_target: "memory_target h i k = Some (Inr x) \<Longrightarrow> turbowasm_instance_memory_size64 h i k = Some (TURBOWASM_OK, mem_pages (mem_at h x))"
  by (simp add: turbowasm_instance_memory_size64_def)

lemma wf_memory_grown:
  assumes "wf_memory m" "may_have m (unat (mem_pages m) + unat delta)"
  shows "wf_memory (m\<lparr>mem_data := mem_data m @ replicate (unat delta * unat (mem_page_size m)) 0, mem_pages := mem_pages m + delta\<rparr>)"
    "unat (mem_pages m + delta) = unat (mem_pages m) + unat delta"
proof -
  show n: "unat (mem_pages m + delta) = unat (mem_pages m) + unat delta"
    using assms(2) page_bound_lt [of m] by (intro add_exact) (auto simp: may_have_def)
  show "wf_memory (m\<lparr>mem_data := mem_data m @ replicate (unat delta * unat (mem_page_size m)) 0, mem_pages := mem_pages m + delta\<rparr>)"
    using assms by (simp add: wf_memory_def may_have_def mem_size_def n word_le_nat_alt add_mult_distrib)
qed

text \<open>
  C6. Growing a memory by \<open>delta\<close> pages: it succeeds exactly when the new size, as a mathematical number, is within the address
  type, the declared maximum and the configured limit and the allocator grants it. Then the result is the old
  size, the size becomes the sum, the old bytes are kept and the new ones are zero; otherwise the result is \<open>-1\<close> and
  nothing changes. Other memories are never affected.
\<close>

theorem memory_grow_correct:
  fixes h :: instance_heap and x :: memory_id and delta :: u64
  assumes "wf_heap h" "memory_target h i k = Some (Inr x)"
  defines "m \<equiv> mem_at h x" and "n \<equiv> unat (mem_pages (mem_at h x)) + unat delta"
  shows "\<exists>h'. turbowasm_instance_memory_grow64 grant h i k delta =
       Some (TURBOWASM_OK, (if may_have m n \<and> (n * unat (mem_page_size m) = 0 \<or> grant (n * unat (mem_page_size m)))
                           then mem_pages m else U64_MAX), h') \<and>
     (if may_have m n \<and> (n * unat (mem_page_size m) = 0 \<or> grant (n * unat (mem_page_size m)))
      then \<exists>pages. turbowasm_instance_memory_size64 h' i k = Some (TURBOWASM_OK, pages) \<and> unat pages = n \<and>
             mem_data (mem_at h' x) = mem_data m @ replicate (unat delta * unat (mem_page_size m)) 0 \<and>
             (\<forall>y. y \<noteq> x \<longrightarrow> mem_at h' y = mem_at h y)
      else h' = h)"
proof -
  have o: "owned h x" and wf: "wf_memory m"
    using memory_target_owned [OF assms(2)] wf_heap_target [OF assms(1,2)] by (simp_all add: m_def)
  show ?thesis
    using wf_memory_grown(2) [OF wf, of delta] o
    by (auto simp: turbowasm_instance_memory_grow64_def assms(2) memory_grow_wf [OF wf] Let_def n_def m_def [symmetric]
          size64_target [where x = x] mem_at_put mem_put_at [of h x, folded m_def])
qed

lemma memory_grow_correct_witness:
  "\<exists>h'. turbowasm_instance_memory_grow64 (\<lambda>n. n < 100) sample_heap 8 0 4 = Some (TURBOWASM_OK, 16, h') \<and>
     turbowasm_instance_memory_size64 h' 8 0 = Some (TURBOWASM_OK, 20)"
proof -
  have *: "mem_pages sample_memory = 16" "mem_page_size sample_memory = 1" "may_have sample_memory 20"
    by (simp_all add: sample_memory_def cleared_memory_def may_have_def memory_page_bound_def)
  have "pages = 20" if "unat (pages :: u64) = 20" for pages
    using arg_cong [OF that, of "of_nat :: nat \<Rightarrow> u64"] by simp
  then show ?thesis
    using memory_grow_correct [OF wf_sample_heap sample_target(2), of "\<lambda>n. n < 100" 4] by (auto simp: sample_at *)
qed

section \<open>Bulk operations\<close>

lemma target_resolve: "memory_target h i k = Some (Inr x) \<Longrightarrow> k < memory_count (h i) \<and> turbowasm_instance_memory_resolve h i k = Some (Some x)"
  by (auto simp: memory_target_def bind_eq_Some_conv split: if_splits option.splits)

lemma memory_copy_wf:
  assumes "wf_heap h" "memory_target h i dm = Some (Inr d)" "memory_target h i sm = Some (Inr s)"
  shows "turbowasm_instance_memory_copy h i dm sm destination source len =
     Some (if unat destination + unat len \<le> length (mem_data (mem_at h d)) \<and> unat source + unat len \<le> length (mem_data (mem_at h s))
           then (TURBOWASM_OK, if len = 0 then h else mem_store h d (unat destination) (bytes_get (mem_data (mem_at h s)) (unat source) (unat len)))
           else (TURBOWASM_TRAPPED, h))"
  using target_resolve [OF assms(2)] target_resolve [OF assms(3)] wf_heap_target [OF assms(1,2)] wf_heap_target [OF assms(1,3)]
  by (simp add: turbowasm_instance_memory_copy_def turbowasm_instance_memory_copy_bytes_def storage_range_wf)

text \<open>
  C33. \<^verbatim>\<open>memory.copy\<close> copies as if through an intermediate buffer: when both ranges fit, every byte of the destination range becomes the byte
  that the source range had before, also when the two ranges overlap in one memory, every other byte and every
  other memory is kept; when one range does not fit it traps and nothing changes.
\<close>

theorem memory_copy_correct:
  assumes "wf_heap h" "memory_target h i dm = Some (Inr d)" "memory_target h i sm = Some (Inr s)"
  shows "if unat destination + unat len \<le> length (mem_data (mem_at h d)) \<and> unat source + unat len \<le> length (mem_data (mem_at h s))
     then \<exists>h'. turbowasm_instance_memory_copy h i dm sm destination source len = Some (TURBOWASM_OK, h') \<and>
            length (mem_data (mem_at h' d)) = length (mem_data (mem_at h d)) \<and>
            (\<forall>j < length (mem_data (mem_at h d)). mem_data (mem_at h' d) ! j =
               (if unat destination \<le> j \<and> j < unat destination + unat len
                then mem_data (mem_at h s) ! (unat source + (j - unat destination)) else mem_data (mem_at h d) ! j)) \<and>
            (\<forall>y. y \<noteq> d \<longrightarrow> mem_at h' y = mem_at h y)
     else turbowasm_instance_memory_copy h i dm sm destination source len = Some (TURBOWASM_TRAPPED, h)"
proof -
  have o: "owned h d" by (rule memory_target_owned [OF assms(2)])
  show ?thesis
    unfolding memory_copy_wf [OF assms] using o by (auto simp: mem_at_store bytes_put_nth bytes_get_nth)
qed

lemma memory_copy_correct_witness:
  "\<exists>h'. turbowasm_instance_memory_copy sample_heap 8 0 0 3 1 9 = Some (TURBOWASM_OK, h') \<and> length (mem_data (mem_at h' (7, 0))) = 16"
  using memory_copy_correct [OF wf_sample_heap sample_target(2) sample_target(2), of 3 9 1] by (auto simp: sample_at)

lemma memory_write_wf:
  assumes "wf_heap h" "memory_target h i k = Some (Inr x)" "length bs < 2 ^ 64"
  shows "turbowasm_instance_memory_write_bytes h i k address offset bs =
     Some (if unat address + unat offset + length bs \<le> length (mem_data (mem_at h x))
           then (TURBOWASM_OK, if bs = [] then h else mem_store h x (unat address + unat offset) bs) else (TURBOWASM_TRAPPED, h))"
proof -
  have "unat (of_nat (length bs) :: u64) = length bs" using assms(3) by (simp add: unat_of_nat)
  then show ?thesis
    using wf_heap_target [OF assms(1,2)] assms(2) by (simp add: turbowasm_instance_memory_write_bytes_def storage_range_wf)
qed

lemma range_fits_iff: "turbowasm_range_fits offset len n \<longleftrightarrow> unat offset + unat len \<le> unat n"
  using range_test [of n offset len] by (auto simp: turbowasm_range_fits_def not_less not_le)

text \<open>The bytes that a data segment still offers.\<close>

definition segment_bytes :: "instance_heap \<Rightarrow> addr \<Rightarrow> nat \<Rightarrow> u8 list" where
  "segment_bytes h i data_index =
     (if data_segment_dropped (h i) ! data_index then []
      else case inst_module (h i) of None \<Rightarrow> [] | Some md \<Rightarrow> val_data_segments md ! data_index)"

text \<open>
  C34. \<^verbatim>\<open>memory.init\<close> copies the named part of a data segment, which has no bytes left once it was dropped, and
  \<^verbatim>\<open>memory.fill\<close> repeats a byte: both trap and change nothing when a range does not fit, and otherwise change
  exactly the destination range. Dropping a segment keeps every memory.
\<close>

theorem memory_init_fill_correct:
  assumes "wf_heap h" "memory_target h i k = Some (Inr x)" "inst_module (h i) = Some md"
    "data_index < length (val_data_segments md)" "length (data_segment_dropped (h i)) = length (val_data_segments md)"
    "length (val_data_segments md ! data_index) < 2 ^ 64"
  shows "turbowasm_instance_memory_init h i data_index k destination source len =
       Some (if unat source + unat len \<le> length (segment_bytes h i data_index) \<and>
                unat destination + unat len \<le> length (mem_data (mem_at h x))
             then (TURBOWASM_OK, if len = 0 then h
                     else mem_store h x (unat destination) (take (unat len) (drop (unat source) (segment_bytes h i data_index))))
             else (TURBOWASM_TRAPPED, h)) \<and>
     turbowasm_instance_memory_fill h i k destination b n =
       Some (if unat destination + unat n \<le> length (mem_data (mem_at h x))
             then (TURBOWASM_OK, if n = 0 then h else mem_store h x (unat destination) (replicate (unat n) b))
             else (TURBOWASM_TRAPPED, h)) \<and>
     fst (turbowasm_instance_data_drop h i data_index) = TURBOWASM_OK \<and>
     segment_bytes (snd (turbowasm_instance_data_drop h i data_index)) i data_index = [] \<and>
     mem_at (snd (turbowasm_instance_data_drop h i data_index)) = mem_at h"
proof (intro conjI)
  let ?seg = "val_data_segments md ! data_index"
  have seg: "segment_bytes h i data_index = (if data_segment_dropped (h i) ! data_index then [] else ?seg)"
    using assms(3) by (simp add: segment_bytes_def)
  have fits: "turbowasm_range_fits (ucast source) (ucast len) (if data_segment_dropped (h i) ! data_index then 0 else of_nat (length ?seg)) \<longleftrightarrow>
      unat source + unat len \<le> length (segment_bytes h i data_index)"
    using assms(6) by (simp add: range_fits_iff seg unat_of_nat)
  show "turbowasm_instance_memory_init h i data_index k destination source len =
       Some (if unat source + unat len \<le> length (segment_bytes h i data_index) \<and>
                unat destination + unat len \<le> length (mem_data (mem_at h x))
             then (TURBOWASM_OK, if len = 0 then h
                     else mem_store h x (unat destination) (take (unat len) (drop (unat source) (segment_bytes h i data_index))))
             else (TURBOWASM_TRAPPED, h))"
  proof (cases "unat source + unat len \<le> length (segment_bytes h i data_index)")
    case True
    then have bs: "bytes_get ?seg (unat source) (unat len) = take (unat len) (drop (unat source) (segment_bytes h i data_index))"
        "length (bytes_get ?seg (unat source) (unat len)) = unat len"
      by (auto simp: bytes_get_def seg split: if_splits)
    have "bytes_get ?seg (unat source) (unat len) = [] \<longleftrightarrow> len = 0"
      using bs(2) by (metis length_0_conv unat_eq_0)
    then show ?thesis
      using assms True fits memory_write_wf [OF assms(1,2), of "bytes_get ?seg (unat source) (unat len)" destination 0] bs unat_less_exp [of len]
      by (simp add: turbowasm_instance_memory_init_def Let_def)
  next
    case False
    then show ?thesis using assms fits by (simp add: turbowasm_instance_memory_init_def Let_def)
  qed
  show "turbowasm_instance_memory_fill h i k destination b n =
       Some (if unat destination + unat n \<le> length (mem_data (mem_at h x))
             then (TURBOWASM_OK, if n = 0 then h else mem_store h x (unat destination) (replicate (unat n) b))
             else (TURBOWASM_TRAPPED, h))"
    using wf_heap_target [OF assms(1,2)] assms(2)
    by (simp add: turbowasm_instance_memory_fill_def turbowasm_instance_memory_fill_bytes_def storage_range_wf)
qed (use assms in \<open>auto simp: turbowasm_instance_data_drop_def segment_bytes_def mem_at_def fun_eq_iff\<close>)

lemma memory_init_fill_correct_witness:
  "turbowasm_instance_memory_init sample_heap 8 0 0 14 1 2 = Some (TURBOWASM_OK, mem_store sample_heap (7, 0) 14 [2, 3]) \<and>
   turbowasm_instance_memory_init sample_heap 8 0 0 15 1 2 = Some (TURBOWASM_TRAPPED, sample_heap)"
proof -
  have *: "inst_module (sample_heap 8) = Some (sample_module True)" "0 < length (val_data_segments (sample_module True))"
    "length (data_segment_dropped (sample_heap 8)) = length (val_data_segments (sample_module True))"
    "length (val_data_segments (sample_module True) ! 0) < 2 ^ 64" "segment_bytes sample_heap 8 0 = [1, 2, 3]"
    by (simp_all add: sample_heap_def sample_module_def segment_bytes_def)
  show ?thesis
    using memory_init_fill_correct [OF wf_sample_heap sample_target(2) *(1-4), of 14 1 2]
      memory_init_fill_correct [OF wf_sample_heap sample_target(2) *(1-4), of 15 1 2]
    by (simp add: sample_at *(5))
qed

end
