(* ===== verification/TW_Atomic_Laws.thy ===== *)
theory TW_Atomic_Laws
  imports TW_Memory_Laws
begin

text \<open>
  Laws of the atomic accesses: the bytes of an access as a number, the operations modulo the width of the access,
  the descriptor table, and that every operation keeps the heap well formed.
\<close>


section \<open>Atomic accesses\<close>

lemma load_le_nat: "length bs \<le> 8 \<Longrightarrow> unat (load_le_loop 0 bs 0) = le_nat bs"
  by (rule bit_eqI) (auto simp: bit_unsigned_iff bit_load_le_loop bit_le_nat)

lemma unat_take: "unat (take_bit n (v :: u64)) = unat v mod 2 ^ n"
  unfolding unsigned_take_bit_eq by (rule take_bit_eq_mod)

lemma store_le_nat:
  "n \<le> 8 \<Longrightarrow> le_nat (map (\<lambda>index. ucast (drop_bit (8 * index) (v :: u64))) [0..<n]) = unat v mod 2 ^ (8 * n)"
  using load_le_nat [of "map (\<lambda>index. ucast (drop_bit (8 * index) v)) [0..<n]"]
  by (simp add: le_load_store unat_take)

abbreviation atomic_widths :: "nat set" where "atomic_widths \<equiv> {1, 2, 4, 8}"

lemma width_mask: "w \<in> atomic_widths \<Longrightarrow> turbowasm_atomic_width_mask w = mask (8 * w)"
  by (auto simp: turbowasm_atomic_width_mask_def mask_eq_exp_minus_1)

lemma and_width_mask: "w \<in> atomic_widths \<Longrightarrow> v AND turbowasm_atomic_width_mask w = take_bit (8 * w) v"
  by (simp only: width_mask take_bit_eq_mask)

text \<open>The descriptors of the table are those of the instruction set: a width in bytes that is a power of two.\<close>

lemma descriptors_wf:
  "list_all (\<lambda>d. atomic_width d \<in> atomic_widths \<and> atomic_width d = 2 ^ alignment_log2 d \<and>
     (atomic_kind d = TURBOWASM_ATOMIC_RMW \<longleftrightarrow> atomic_op d \<noteq> TURBOWASM_ATOMIC_OP_NONE) \<and>
     (atomic_value_type d = TURBOWASM_ATOMIC_I32 \<longrightarrow> atomic_width d \<le> 4)) descriptors"
  by (simp add: descriptors_def atomic_family_def)

lemma descriptors_order: "map atomic_subopcode descriptors = [0x10..<0x4f]"
  by (simp add: descriptors_def atomic_family_def upt_rec_numeral)

lemma descriptor_find:
  assumes "turbowasm_atomic_descriptor_find subopcode = Some d"
  shows "d \<in> set descriptors \<and> atomic_subopcode d = subopcode"
proof -
  have l: "length descriptors = 63" by (simp add: descriptors_def atomic_family_def)
  have s: "0x10 \<le> subopcode" "subopcode < 0x4f" "d = descriptors ! (subopcode - 0x10)"
    using assms by (auto simp: turbowasm_atomic_descriptor_find_def split: if_splits)
  have "atomic_subopcode d = map atomic_subopcode descriptors ! (subopcode - 0x10)" using s l by simp
  also have "\<dots> = subopcode" unfolding descriptors_order using s by (simp del: upt_rec_numeral)
  finally show ?thesis using s l by (simp add: nth_mem)
qed

section \<open>Arithmetic of the atomic operations\<close>

text \<open>The number that an access leaves in its bytes, computed modulo the width.\<close>

definition atomic_new :: "turbowasm_atomic_descriptor \<Rightarrow> nat \<Rightarrow> nat \<Rightarrow> nat \<Rightarrow> nat \<Rightarrow> nat" where
  "atomic_new d v expected replacement old =
     (let B = 2 ^ (8 * atomic_width d) in
      case atomic_kind d of
        TURBOWASM_ATOMIC_LOAD \<Rightarrow> old
      | TURBOWASM_ATOMIC_STORE \<Rightarrow> v mod B
      | TURBOWASM_ATOMIC_CMPXCHG \<Rightarrow> (if old = expected mod B then replacement mod B else old)
      | TURBOWASM_ATOMIC_RMW \<Rightarrow>
          (case atomic_op d of
             TURBOWASM_ATOMIC_OP_ADD \<Rightarrow> (old + v) mod B
           | TURBOWASM_ATOMIC_OP_SUB \<Rightarrow> nat ((int old - int v) mod int B)
           | TURBOWASM_ATOMIC_OP_AND \<Rightarrow> old AND (v mod B)
           | TURBOWASM_ATOMIC_OP_OR \<Rightarrow> old OR (v mod B)
           | TURBOWASM_ATOMIC_OP_XOR \<Rightarrow> old XOR (v mod B)
           | TURBOWASM_ATOMIC_OP_XCHG \<Rightarrow> v mod B
           | TURBOWASM_ATOMIC_OP_NONE \<Rightarrow> old))"

lemma take_bit_sub:
  fixes a b :: u64
  assumes "n \<le> 64"
  shows "unat (take_bit n (a - take_bit n b)) = nat ((int (unat a) - int (unat b)) mod 2 ^ n)"
proof -
  have d: "(2 :: int) ^ n dvd 2 ^ 64" using assms by (rule le_imp_power_dvd)
  have t: "uint (take_bit n w) = uint w mod 2 ^ n" for w :: u64
    unfolding unsigned_take_bit_eq by (rule take_bit_eq_mod)
  have "int (unat (take_bit n (a - take_bit n b))) = uint (a - take_bit n b) mod 2 ^ n"
    by (simp only: t flip: uint_nat)
  also have "uint (a - take_bit n b) = (uint a - uint (take_bit n b)) mod 2 ^ 64" by (simp add: uint_word_ariths(2))
  also have "(uint a - uint (take_bit n b)) mod 2 ^ 64 mod 2 ^ n = (uint a - uint (take_bit n b)) mod 2 ^ n" using d by (rule mod_mod_cancel)
  also have "\<dots> = (uint a - uint b) mod 2 ^ n" unfolding t by (rule mod_diff_right_eq)
  finally show ?thesis by (simp only: uint_nat flip: nat_int)
qed


lemma take_bit_plus:
  fixes a b :: u64
  assumes "n \<le> 64"
  shows "unat (take_bit n (a + take_bit n b)) = (unat a + unat b) mod 2 ^ n"
proof -
  have d: "(2 :: nat) ^ n dvd 2 ^ 64" using assms by (rule le_imp_power_dvd)
  have "unat (take_bit n (a + take_bit n b)) = (unat a + unat (take_bit n b)) mod 2 ^ 64 mod 2 ^ n"
    by (simp add: unat_take [of n "a + take_bit n b"] unat_word_ariths(1))
  also have "\<dots> = (unat a + unat (take_bit n b)) mod 2 ^ n" using d by (rule mod_mod_cancel)
  also have "\<dots> = (unat a + unat b) mod 2 ^ n" unfolding unat_take by (rule mod_add_right_eq)
  finally show ?thesis .
qed

definition le_bytes :: "nat \<Rightarrow> u64 \<Rightarrow> u8 list" where
  "le_bytes n v = map (\<lambda>index. ucast (drop_bit (8 * index) v)) [0..<n]"

lemma length_le_bytes [simp]: "length (le_bytes n v) = n"
  by (simp add: le_bytes_def)

lemma le_nat_bytes: "w \<in> atomic_widths \<Longrightarrow> le_nat (le_bytes w (v AND turbowasm_atomic_width_mask w)) = unat (take_bit (8 * w) v)"
  unfolding le_bytes_def by (subst store_le_nat) (auto simp only: and_width_mask unat_take mod_mod_trivial)

text \<open>The values that a read-modify-write stores, as numbers below the width.\<close>

lemma rmw_value:
  assumes w: "w \<in> atomic_widths" and old: "unat old < 2 ^ (8 * w)" and op: "op \<noteq> TURBOWASM_ATOMIC_OP_NONE"
    and d: "atomic_kind d = TURBOWASM_ATOMIC_RMW" "atomic_op d = op" "atomic_width d = w"
  shows "\<exists>new. atomic_rmw_value op (turbowasm_atomic_width_mask w) old (v AND turbowasm_atomic_width_mask w) = Some new \<and>
    unat (take_bit (8 * w) new) = atomic_new d (unat v) expected replacement (unat old)"
proof -
  have w64: "8 * w \<le> 64" using w by auto
  have o: "take_bit (8 * w) (unat old) = unat old" using old by (simp add: take_bit_nat_eq_self)
  have t: "take_bit (8 * w) (take_bit (8 * w) a) = take_bit (8 * w) a" for a :: u64 by simp
  have logic: "unat (take_bit (8 * w) (old AND take_bit (8 * w) v)) = unat old AND (unat v mod 2 ^ (8 * w))"
    "unat (take_bit (8 * w) (old OR take_bit (8 * w) v)) = unat old OR (unat v mod 2 ^ (8 * w))"
    "unat (take_bit (8 * w) (old XOR take_bit (8 * w) v)) = unat old XOR (unat v mod 2 ^ (8 * w))"
    by (simp_all only: unsigned_take_bit_eq unsigned_and_eq unsigned_or_eq unsigned_xor_eq take_bit_and take_bit_or take_bit_xor o)
       (simp_all only: take_bit_eq_mod mod_mod_trivial)
  show ?thesis
    using op d logic
    by (cases op) (simp_all only: atomic_rmw_value_def atomic_new_def Let_def and_width_mask [OF w] t take_bit_plus [OF w64] take_bit_sub [OF w64]
          unat_take [of "8 * w" v] turbowasm_atomic_op.simps turbowasm_atomic_kind.simps option.inject ex_simps simp_thms of_nat_power of_nat_numeral)
qed

lemma atomic_effect_wf:
  assumes d: "d \<in> set descriptors" and e: "e + atomic_width d \<le> length data"
  shows "\<exists>bs. atomic_effect d v expected replacement data e = (TURBOWASM_OK, bytes_put data e bs) \<and> length bs = atomic_width d \<and>
     le_nat bs = atomic_new d (unat v) (unat expected) (unat replacement) (le_nat (bytes_get data e (atomic_width d)))"
proof -
  let ?w = "atomic_width d" and ?old = "turbowasm_atomic_load_le data e (atomic_width d)"
  have w: "?w \<in> atomic_widths" and op: "atomic_kind d = TURBOWASM_ATOMIC_RMW \<Longrightarrow> atomic_op d \<noteq> TURBOWASM_ATOMIC_OP_NONE"
    using descriptors_wf d unfolding list_all_iff by blast+
  have old: "unat ?old = le_nat (bytes_get data e ?w)"
    using w e by (auto simp: turbowasm_atomic_load_le_def intro!: load_le_nat)
  then have old_less: "unat ?old < 2 ^ (8 * ?w)" using le_nat_less [of "bytes_get data e ?w"] e by simp
  have st: "turbowasm_atomic_store_le data e ?w a = bytes_put data e (le_bytes ?w a)" for a
    by (simp add: turbowasm_atomic_store_le_def le_bytes_def)
  show ?thesis
  proof (cases "atomic_kind d")
    case TURBOWASM_ATOMIC_LOAD
    then show ?thesis
      using e by (intro exI [of _ "bytes_get data e ?w"]) (simp add: atomic_effect_def atomic_new_def Let_def bytes_put_get)
  next
    case TURBOWASM_ATOMIC_STORE
    then show ?thesis
      by (intro exI [of _ "le_bytes ?w (v AND turbowasm_atomic_width_mask ?w)"])
         (simp add: atomic_effect_def atomic_new_def Let_def st le_nat_bytes [OF w] unat_take)
  next
    case TURBOWASM_ATOMIC_RMW
    obtain new where "atomic_rmw_value (atomic_op d) (turbowasm_atomic_width_mask ?w) ?old (v AND turbowasm_atomic_width_mask ?w) = Some new"
        "unat (take_bit (8 * ?w) new) = atomic_new d (unat v) (unat expected) (unat replacement) (unat ?old)"
      using rmw_value [OF w old_less op [OF TURBOWASM_ATOMIC_RMW] TURBOWASM_ATOMIC_RMW refl refl] by blast
    then show ?thesis
      by (intro exI [of _ "le_bytes ?w (new AND turbowasm_atomic_width_mask ?w)"])
         (simp add: atomic_effect_def Let_def TURBOWASM_ATOMIC_RMW st le_nat_bytes [OF w] old)
  next
    case TURBOWASM_ATOMIC_CMPXCHG
    have eq: "?old = expected AND turbowasm_atomic_width_mask ?w \<longleftrightarrow> le_nat (bytes_get data e ?w) = unat expected mod 2 ^ (8 * ?w)"
      by (simp only: and_width_mask [OF w] word_eq_iff_unsigned [where 'a = nat] old unat_take)
    show ?thesis
    proof (cases "?old = expected AND turbowasm_atomic_width_mask ?w")
      case True
      then show ?thesis
        using eq by (intro exI [of _ "le_bytes ?w (replacement AND turbowasm_atomic_width_mask ?w)"])
          (simp add: atomic_effect_def atomic_new_def Let_def TURBOWASM_ATOMIC_CMPXCHG st le_nat_bytes [OF w] unat_take)
    next
      case False
      then show ?thesis
        using eq e by (intro exI [of _ "bytes_get data e ?w"])
          (simp add: atomic_effect_def atomic_new_def Let_def TURBOWASM_ATOMIC_CMPXCHG bytes_put_get)
    qed
  qed
qed

lemma atomic_width_cases: "d \<in> set descriptors \<Longrightarrow> atomic_width d \<in> atomic_widths"
  using descriptors_wf unfolding list_all_iff by blast

lemma aligned_sum:
  fixes a b :: u64
  assumes "w \<in> atomic_widths"
  shows "(a + b) mod of_nat w = 0 \<longleftrightarrow> (unat a + unat b) mod w = 0"
proof -
  have u: "unat (of_nat w :: u64) = w" and d: "w dvd 2 ^ 64" using assms by auto
  have "(a + b) mod of_nat w = 0 \<longleftrightarrow> unat (a + b) mod w = 0"
    by (simp only: unat_eq_0 [symmetric] unat_mod u)
  also have "unat (a + b) mod w = (unat a + unat b) mod w"
    using mod_mod_cancel [OF d] by (simp add: unat_word_ariths(1))
  finally show ?thesis .
qed

lemma memory_atomic_wf:
  assumes "wf_heap h" "memory_target h i k = Some (Inr x)" "d \<in> set descriptors"
  shows "turbowasm_instance_memory_atomic True h i k address offset d v expected replacement =
     (if (unat address + unat offset) mod atomic_width d \<noteq> 0 then Some (TURBOWASM_TRAPPED, 0, TURBOWASM_TRAP_UNALIGNED_ATOMIC, h)
      else if length (mem_data (mem_at h x)) < unat address + unat offset + atomic_width d
      then Some (TURBOWASM_TRAPPED, 0, TURBOWASM_TRAP_MEMORY_OUT_OF_BOUNDS, h)
      else Some (TURBOWASM_OK, turbowasm_atomic_load_le (mem_data (mem_at h x)) (unat address + unat offset) (atomic_width d),
        TURBOWASM_TRAP_NONE,
        mem_put h x ((mem_at h x)\<lparr>mem_data := snd (atomic_effect d v expected replacement (mem_data (mem_at h x)) (unat address + unat offset))\<rparr>)))"
proof -
  have w: "atomic_width d \<in> atomic_widths" by (rule atomic_width_cases [OF assms(3)])
  then have u: "unat (of_nat (atomic_width d) :: u64) = atomic_width d" "atomic_width d \<le> 8" by auto
  have ld: "turbowasm_atomic_load_le data e (atomic_width d) AND turbowasm_atomic_width_mask (atomic_width d) =
      turbowasm_atomic_load_le data e (atomic_width d)" if "e + atomic_width d \<le> length data" for data e
  proof -
    have "unat (turbowasm_atomic_load_le data e (atomic_width d)) < 2 ^ (8 * atomic_width d)"
      using le_nat_less [of "bytes_get data e (atomic_width d)"] that u(2) by (simp add: turbowasm_atomic_load_le_def load_le_nat)
    then show ?thesis
      by (simp only: and_width_mask [OF w] word_eq_iff_unsigned [where 'a = nat] unat_take mod_less)
  qed
  have nw: "\<not> atomic_width d \<notin> atomic_widths" using w by blast
  show ?thesis
    unfolding turbowasm_instance_memory_atomic_def if_not_P [OF nw]
    using wf_heap_target [OF assms(1,2)] assms(2) atomic_effect_wf [OF assms(3), of "unat address + unat offset" "mem_data (mem_at h x)" v expected replacement]
    by (auto simp: Let_def storage_range_wf aligned_sum [OF w] u ld not_le)
qed

text \<open>
  C5. Every atomic access of the table, on a shared or an unshared memory, once the global order is available: it traps
  as unaligned exactly when the sum of address and offset is not a multiple of its width, then as out of
  bounds when it does not fit, and a trap changes nothing. Otherwise it returns the number that its bytes
  denoted and leaves the number that the operation prescribes modulo the width: the stored, added, subtracted,
  combined or exchanged value, and for a compare-exchange the replacement exactly when the old number is the
  expected one. Every other byte and every other memory is kept.
\<close>

theorem atomic_access_correct:
  fixes h :: instance_heap and x :: memory_id and address offset :: u64
  assumes "wf_heap h" "memory_target h i k = Some (Inr x)" "turbowasm_atomic_descriptor_find subopcode = Some d"
  defines "data \<equiv> mem_data (mem_at h x)" and "e \<equiv> unat address + unat offset"
  shows "if e mod atomic_width d \<noteq> 0 then
       turbowasm_instance_memory_atomic True h i k address offset d v expected replacement =
         Some (TURBOWASM_TRAPPED, 0, TURBOWASM_TRAP_UNALIGNED_ATOMIC, h)
     else if length data < e + atomic_width d then
       turbowasm_instance_memory_atomic True h i k address offset d v expected replacement =
         Some (TURBOWASM_TRAPPED, 0, TURBOWASM_TRAP_MEMORY_OUT_OF_BOUNDS, h)
     else \<exists>old h' data'.
       turbowasm_instance_memory_atomic True h i k address offset d v expected replacement = Some (TURBOWASM_OK, old, TURBOWASM_TRAP_NONE, h') \<and>
       unat old = le_nat (take (atomic_width d) (drop e data)) \<and>
       mem_at h' x = (mem_at h x)\<lparr>mem_data := data'\<rparr> \<and> (\<forall>y. y \<noteq> x \<longrightarrow> mem_at h' y = mem_at h y) \<and>
       length data' = length data \<and>
       le_nat (take (atomic_width d) (drop e data')) = atomic_new d (unat v) (unat expected) (unat replacement) (unat old) \<and>
       (\<forall>j < length data. j < e \<or> e + atomic_width d \<le> j \<longrightarrow> data' ! j = data ! j)"
proof -
  have d: "d \<in> set descriptors" using descriptor_find [OF assms(3)] by blast
  have o: "owned h x" by (rule memory_target_owned [OF assms(2)])
  note eq = memory_atomic_wf [OF assms(1,2) d, folded data_def, of address offset, folded e_def]
  show ?thesis
  proof (cases "e + atomic_width d \<le> length data")
    case True
    obtain bs where bs: "atomic_effect d v expected replacement data e = (TURBOWASM_OK, bytes_put data e bs)" "length bs = atomic_width d"
        "le_nat bs = atomic_new d (unat v) (unat expected) (unat replacement) (le_nat (bytes_get data e (atomic_width d)))"
      using atomic_effect_wf [OF d True] by blast
    have old: "unat (turbowasm_atomic_load_le data e (atomic_width d)) = le_nat (bytes_get data e (atomic_width d))"
      using atomic_width_cases [OF d] True by (auto simp: turbowasm_atomic_load_le_def intro!: load_le_nat)
    have "bytes_get (bytes_put data e bs) e (atomic_width d) = bs" using True bs(2) by (simp add: bytes_get_put)
    then show ?thesis
      using True o bs old unfolding eq by (auto simp: mem_at_put bytes_put_nth bytes_get_def [symmetric])
  qed (auto simp: eq)
qed

lemma atomic_access_correct_witness:
  "\<exists>h'. turbowasm_instance_memory_atomic True sample_heap 8 0 4 0
     (descriptors ! 23) 5 0 0 = Some (TURBOWASM_OK, 0, TURBOWASM_TRAP_NONE, h') \<and>
     le_nat (take 1 (drop 4 (mem_data (mem_at h' (7, 0))))) = 251"
proof -
  have d: "turbowasm_atomic_descriptor_find 0x27 = Some (descriptors ! 23)" by (simp add: turbowasm_atomic_descriptor_find_def)
  have f: "atomic_width (descriptors ! 23) = 1" "atomic_kind (descriptors ! 23) = TURBOWASM_ATOMIC_RMW"
      "atomic_op (descriptors ! 23) = TURBOWASM_ATOMIC_OP_SUB"
    by (simp_all add: descriptors_def atomic_family_def)
  have "mem_data sample_memory = replicate 16 0" by (simp add: sample_memory_def)
  then show ?thesis
    using atomic_access_correct [OF wf_sample_heap sample_target(2) d, of 4 0 5 0 0]
    by (auto simp: f sample_at atomic_new_def take_replicate drop_replicate unat_eq_0)
qed


section \<open>The invariant of the heap\<close>

lemma target_cases:
  obtains "memory_target h i k = None" | status where "memory_target h i k = Some (Inl status)"
  | x where "memory_target h i k = Some (Inr x)" "owned h x"
  by (metis memory_target_owned not_None_eq sum.exhaust)

lemma target_failed: "memory_target h i k = Some (Inl status) \<Longrightarrow> memory_count (h i) \<le> k \<or> turbowasm_instance_memory_resolve h i k = Some None"
  by (cases "turbowasm_instance_memory_resolve h i k") (auto simp: memory_target_def split: if_splits option.splits)

lemma target_none: "memory_target h i k = None \<longleftrightarrow> k < memory_count (h i) \<and> turbowasm_instance_memory_resolve h i k = None"
  by (cases "turbowasm_instance_memory_resolve h i k") (auto simp: memory_target_def)

named_theorems heap_keeps \<open>every operation keeps the heap well formed\<close>

lemma store_value_keeps [heap_keeps]:
  assumes "wf_heap h" "turbowasm_instance_memory_store_value h i k address offset opcode v = Some (status, trap, h')"
  shows "wf_heap h'"
proof (cases "status = TURBOWASM_OK")
  case True
  obtain x kind width bs where "memory_target h i k = Some (Inr x)" "length bs = width"
    "unat address + unat offset + width \<le> length (mem_data (mem_at h x))" "h' = mem_store h x (unat address + unat offset) bs"
    using memory_store_ok [OF assms(1)] assms(2) True by metis
  then show ?thesis using assms(1) by (metis memory_target_owned wf_heap_store)
next
  case False
  show ?thesis
  proof (rule target_cases [of h i k])
    assume "memory_target h i k = None"
    then show ?thesis using assms
      by (auto simp: turbowasm_instance_memory_store_value_def turbowasm_instance_memory_shared_def
          split: option.splits prod.splits if_splits)
  next
    fix status' assume "memory_target h i k = Some (Inl status')"
    then show ?thesis using memory_store_untargeted assms by metis
  next
    fix x assume x: "memory_target h i k = Some (Inr x)"
    show ?thesis
    proof (cases "\<exists>kind width. store_shape opcode = Some (kind, width) \<and> value_kind v = Some kind")
      case True
      then obtain kind width bs where "store_shape opcode = Some (kind, width)" "store_encode opcode v = Some bs" "value_kind v = Some kind"
        using store_encode_length by blast
      then show ?thesis using memory_store_wf [OF assms(1) x] assms False by (auto split: if_splits)
    next
      case False
      then show ?thesis using memory_store_refused assms by blast
    qed
  qed
qed

lemma write_bytes_keeps [heap_keeps]:
  assumes "wf_heap h" "turbowasm_instance_memory_write_bytes h i k address offset bs = Some (status, h')" "length bs < 2 ^ 64"
  shows "wf_heap h'"
proof (rule target_cases [of h i k])
  fix x assume "memory_target h i k = Some (Inr x)" "owned h x"
  then show ?thesis using memory_write_wf [OF assms(1) _ assms(3)] assms by (auto split: if_splits intro!: wf_heap_store)
qed (use assms in \<open>auto simp: turbowasm_instance_memory_write_bytes_def\<close>)

lemma fill_keeps [heap_keeps]:
  assumes "wf_heap h" "turbowasm_instance_memory_fill h i k destination v len = Some (status, h')"
  shows "wf_heap h'"
proof (rule target_cases [of h i k])
  fix x assume x: "memory_target h i k = Some (Inr x)" "owned h x"
  show ?thesis
    using assms(2) x assms(1) wf_heapD [OF assms(1) x(2)]
    by (auto simp: turbowasm_instance_memory_fill_def turbowasm_instance_memory_fill_bytes_def storage_range_wf split: if_splits
        intro!: wf_heap_store)
qed (use assms in \<open>auto simp: turbowasm_instance_memory_fill_def turbowasm_instance_memory_fill_bytes_def\<close>)

lemma copy_keeps [heap_keeps]:
  assumes "wf_heap h" "turbowasm_instance_memory_copy h i dm sm destination source len = Some (status, h')"
  shows "wf_heap h'"
proof (rule target_cases [of h i dm])
  fix d assume d: "memory_target h i dm = Some (Inr d)" "owned h d"
  show ?thesis
  proof (rule target_cases [of h i sm])
    fix s assume s: "memory_target h i sm = Some (Inr s)" "owned h s"
    show ?thesis
      using assms d(2) memory_copy_wf [OF assms(1) d(1) s(1)] by (auto split: if_splits intro!: wf_heap_store)
  qed (use assms target_resolve [OF d(1)] target_failed [of h i sm] in
        \<open>auto simp: turbowasm_instance_memory_copy_def turbowasm_instance_memory_copy_bytes_def target_none split: if_splits\<close>)
qed (use assms target_failed [of h i dm] in
      \<open>auto simp: turbowasm_instance_memory_copy_def turbowasm_instance_memory_copy_bytes_def target_none bind_eq_Some_conv
        split: if_splits option.splits\<close>)

lemma init_keeps [heap_keeps]:
  assumes "wf_heap h" "turbowasm_instance_memory_init h i data_index k destination source len = Some (status, h')"
  shows "wf_heap h'"
proof -
  have "length (bytes_get bs (unat source) (unat len)) < 2 ^ 64" for bs
    using unat_less_exp [of len] by (simp add: bytes_get_def min_def)
  then show ?thesis
    using assms write_bytes_keeps [OF assms(1)]
    by (auto simp: turbowasm_instance_memory_init_def Let_def split: option.splits if_splits)
qed

lemma data_drop_keeps [heap_keeps]:
  assumes "wf_heap h" "turbowasm_instance_data_drop h i data_index = (status, h')"
  shows "wf_heap h'"
proof (cases "h' = h")
  case False
  then have "h' = h(i := (h i)\<lparr>data_segment_dropped := (data_segment_dropped (h i))[data_index := True]\<rparr>)"
    using assms(2) by (auto simp: turbowasm_instance_data_drop_def split: if_splits)
  then have "owned h' = owned h" "mem_at h' = mem_at h"
    by (simp_all add: owned_def mem_at_def fun_eq_iff)
  then show ?thesis using assms(1) by (simp add: wf_heap_def)
next
  case True
  then show ?thesis using assms(1) by simp
qed

lemma grow_keeps [heap_keeps]:
  assumes "wf_heap h" "turbowasm_instance_memory_grow64 grant h i k delta = Some (status, previous, h')"
  shows "wf_heap h'"
proof (rule target_cases [of h i k])
  fix x assume x: "memory_target h i k = Some (Inr x)" "owned h x"
  show ?thesis
    using assms(2) x assms(1) wf_memory_grown [OF wf_heapD [OF assms(1) x(2)], of delta]
    by (auto simp: turbowasm_instance_memory_grow64_def memory_grow_wf [OF wf_heapD [OF assms(1) x(2)]] Let_def mem_put_at
        split: if_splits intro!: wf_heap_put)
qed (use assms in \<open>auto simp: turbowasm_instance_memory_grow64_def\<close>)

lemma atomic_keeps [heap_keeps]:
  assumes "wf_heap h" "d \<in> set descriptors"
    "turbowasm_instance_memory_atomic sc h i k address offset d v expected replacement = Some (status, old, trap, h')"
  shows "wf_heap h'"
proof (rule target_cases [of h i k])
  fix x assume x: "memory_target h i k = Some (Inr x)" "owned h x"
  have wf: "wf_memory (mem_at h x)" by (rule wf_heapD [OF assms(1) x(2)])
  have "wf_heap h'" if sc
    using assms that x(2) memory_atomic_wf [OF assms(1) x(1) assms(2), of address offset v expected replacement]
      atomic_effect_wf [OF assms(2), of "unat address + unat offset" "mem_data (mem_at h x)" v expected replacement]
    by (auto split: if_splits intro!: wf_heap_put wf_memory_data [OF wf])
  moreover have "wf_heap h'" if "\<not> sc"
    using assms that x by (auto simp: turbowasm_instance_memory_atomic_def Let_def split: if_splits)
  ultimately show ?thesis by blast
qed (use assms in \<open>auto simp: turbowasm_instance_memory_atomic_def split: if_splits\<close>)

end
