(* ===== verification/TW_Wait_Laws.thy ===== *)
theory TW_Wait_Laws
  imports TW_Atomic_Laws
begin

text \<open>
  Laws of waiting and notification: which slots a notification wakes, the accounting of wake-ups over all interleavings
  of the threads, and when a blocked thread returns.
\<close>


section \<open>Waiters\<close>

lemma acquire_slot_idle:
  "turbowasm_memory_waiter_acquire_slot m = Some slot \<Longrightarrow> slot < length (mem_waiters m) \<and> \<not> waiter_active (mem_waiters m ! slot)"
  by (auto simp: turbowasm_memory_waiter_acquire_slot_def find_Some_iff)

lemma wf_memory_waiters:
  assumes "wf_memory m" "length ws = length (mem_waiters m)" "unat c = length (filter waiter_active ws)"
  shows "wf_memory (m\<lparr>mem_waiters := ws, mem_waiter_count := c\<rparr>)"
  using assms by (auto simp: wf_memory_def mem_size_def)

lemma active_waiters_le: "wf_memory m \<Longrightarrow> length (filter waiter_active (mem_waiters m)) \<le> 64"
  using length_filter_le [of waiter_active "mem_waiters m"] by (auto simp: wf_memory_def split: if_splits)

lemma wf_register:
  assumes wf: "wf_memory m" and slot: "turbowasm_memory_waiter_acquire_slot m = Some slot"
  shows "wf_memory (register_waiter m slot address)"
proof -
  let ?w = "\<lparr>waiter_address = address, waiter_active = True, waiter_notified = False\<rparr>"
  have s: "slot < length (mem_waiters m)" "\<not> waiter_active (mem_waiters m ! slot)" using acquire_slot_idle [OF slot] by auto
  then have n: "length (filter waiter_active ((mem_waiters m)[slot := ?w])) = length (filter waiter_active (mem_waiters m)) + 1"
    using length_filter_update [OF s(1), of waiter_active ?w] by simp
  have c: "unat (mem_waiter_count m) = length (filter waiter_active (mem_waiters m))" using wf by (simp add: wf_memory_def)
  then have "unat (mem_waiter_count m + 1) = unat (mem_waiter_count m) + 1"
    using active_waiters_le [OF wf] by (simp add: unat_word_ariths)
  then show ?thesis unfolding register_waiter_def using wf n c by (intro wf_memory_waiters) simp_all
qed

lemma wf_release:
  assumes wf: "wf_memory m" and s: "slot < length (mem_waiters m)" "waiter_active (mem_waiters m ! slot)"
  shows "wf_memory (release_waiter m slot)"
proof -
  have n: "length (filter waiter_active ((mem_waiters m)[slot := idle_waiter])) + 1 = length (filter waiter_active (mem_waiters m))"
    using length_filter_update [OF s(1), of waiter_active idle_waiter] s(2) by (simp add: idle_waiter_def)
  have c: "unat (mem_waiter_count m) = length (filter waiter_active (mem_waiters m))" using wf by (simp add: wf_memory_def)
  then have z: "mem_waiter_count m \<noteq> 0" using n by auto
  then have "unat (mem_waiter_count m - 1) = unat (mem_waiter_count m) - 1"
    by (simp add: unat_sub word_le_nat_alt Suc_le_eq unat_gt_0)
  then show ?thesis unfolding release_waiter_def using wf n c z by (intro wf_memory_waiters) simp_all
qed

subsection \<open>Notification\<close>

definition waits_at :: "u64 \<Rightarrow> turbowasm_memory_waiter \<Rightarrow> bool" where
  "waits_at address w \<longleftrightarrow> waiter_active w \<and> \<not> waiter_notified w \<and> waiter_address w = address"

text \<open>The slots after the loop: the first \<open>c\<close> waiters at the address are notified.\<close>

fun mark :: "u64 \<Rightarrow> nat \<Rightarrow> turbowasm_memory_waiter list \<Rightarrow> turbowasm_memory_waiter list" where
  "mark address c [] = []"
| "mark address c (w # ws) =
     (if waits_at address w then (case c of 0 \<Rightarrow> w # ws | Suc c \<Rightarrow> w\<lparr>waiter_notified := True\<rparr> # mark address c ws)
      else w # mark address c ws)"

lemma mark_0 [simp]: "mark address 0 ws = ws"
  by (induction ws) auto

lemma notify_loop_mark:
  "woken \<le> count \<Longrightarrow>
   notify_loop address count woken ws = (woken + min (count - woken) (length (filter (waits_at address) ws)), mark address (count - woken) ws)"
proof (induction ws arbitrary: woken)
  case Nil
  then show ?case by simp
next
  case (Cons w ws)
  show ?case
  proof (cases "woken < count")
    case True
    then obtain c where c: "count - woken = Suc c" "count - Suc woken = c" by (metis Suc_diff_Suc)
    show ?thesis using Cons.IH [of woken] Cons.IH [of "Suc woken"] True c by (auto simp: waits_at_def)
  next
    case False
    then have "count = woken" using Cons.prems by simp
    then show ?thesis by simp
  qed
qed

lemma length_mark [simp]: "length (mark address c ws) = length ws"
  by (induction address c ws rule: mark.induct) (auto split: nat.splits)

lemma mark_nth:
  "j < length ws \<Longrightarrow> mark address c ws ! j =
     (if waits_at address (ws ! j) \<and> length (filter (waits_at address) (take j ws)) < c then (ws ! j)\<lparr>waiter_notified := True\<rparr> else ws ! j)"
proof (induction address c ws arbitrary: j rule: mark.induct)
  case (1 address c)
  then show ?case by simp
next
  case (2 address c w ws)
  show ?case
    using 2 by (cases j; cases c) (auto split: if_splits)
qed

lemma mark_active: "filter waiter_active (mark address c ws) = [] \<longleftrightarrow> filter waiter_active ws = []"
  "length (filter waiter_active (mark address c ws)) = length (filter waiter_active ws)"
  by (induction address c ws rule: mark.induct) (auto split: nat.splits)

lemma wf_mark: "wf_memory m \<Longrightarrow> wf_memory (m\<lparr>mem_waiters := mark address c (mem_waiters m)\<rparr>)"
  by (auto simp: wf_memory_def mem_size_def mark_active)

lemma memory_notify_wf:
  assumes "wf_heap h" "memory_target h i k = Some (Inr x)"
  shows "turbowasm_instance_memory_notify True h i k address offset count =
     Some (if (unat address + unat offset) mod 4 \<noteq> 0 then (TURBOWASM_TRAPPED, 0, TURBOWASM_TRAP_UNALIGNED_ATOMIC, h)
           else if length (mem_data (mem_at h x)) < unat address + unat offset + 4 then (TURBOWASM_TRAPPED, 0, TURBOWASM_TRAP_MEMORY_OUT_OF_BOUNDS, h)
           else (TURBOWASM_OK, min (unat count) (length (filter (waits_at (address + offset)) (mem_waiters (mem_at h x)))),
             TURBOWASM_TRAP_NONE,
             mem_put h x ((mem_at h x)\<lparr>mem_waiters := mark (address + offset) (unat count) (mem_waiters (mem_at h x))\<rparr>)))"
proof -
  have al: "(address + offset) mod 4 = 0 \<longleftrightarrow> (unat address + unat offset) mod 4 = 0"
    using aligned_sum [of 4 address offset] by simp
  have wf: "wf_memory (mem_at h x)" by (rule wf_heap_target [OF assms])
  then have ws: "mem_waiter_mutex_initialized (mem_at h x) = mem_shared (mem_at h x)"
      "\<not> mem_shared (mem_at h x) \<Longrightarrow> mem_waiters (mem_at h x) = []"
    by (simp_all add: wf_memory_def)
  have "(mem_at h x)\<lparr>mem_waiters := mem_waiters (mem_at h x)\<rparr> = mem_at h x" by simp
  then have u: "mem_put h x ((mem_at h x)\<lparr>mem_waiters := []\<rparr>) = h" if "\<not> mem_shared (mem_at h x)"
    unfolding ws(2) [OF that] by (simp add: mem_put_at)
  show ?thesis
    using wf ws u notify_loop_mark [of 0 "unat count" "address + offset" "mem_waiters (mem_at h x)"]
    by (cases "mem_shared (mem_at h x)")
       (auto simp: turbowasm_instance_memory_notify_def assms(2) Let_def al storage_range_wf mem_put_at)
qed

text \<open>
  C35. A notification wakes the smaller of the requested number and the number of threads that wait at the
  address and were not woken before, and it wakes them in the order of their slots: the waiter of slot \<open>j\<close> is woken
  exactly when it waits at the address and fewer than \<open>count\<close> slots before it do. It returns that number,
  and changes nothing else; an unaligned or unmapped address traps and wakes nobody.
\<close>

theorem memory_notify_correct:
  fixes h :: instance_heap and x :: memory_id and address offset :: u64
  assumes "wf_heap h" "memory_target h i k = Some (Inr x)"
  defines "ws \<equiv> mem_waiters (mem_at h x)" and "e \<equiv> unat address + unat offset"
  shows "if e mod 4 \<noteq> 0 then turbowasm_instance_memory_notify True h i k address offset count =
         Some (TURBOWASM_TRAPPED, 0, TURBOWASM_TRAP_UNALIGNED_ATOMIC, h)
     else if length (mem_data (mem_at h x)) < e + 4 then turbowasm_instance_memory_notify True h i k address offset count =
         Some (TURBOWASM_TRAPPED, 0, TURBOWASM_TRAP_MEMORY_OUT_OF_BOUNDS, h)
     else \<exists>h' ws'. turbowasm_instance_memory_notify True h i k address offset count =
         Some (TURBOWASM_OK, min (unat count) (length (filter (waits_at (address + offset)) ws)), TURBOWASM_TRAP_NONE, h') \<and>
         mem_at h' x = (mem_at h x)\<lparr>mem_waiters := ws'\<rparr> \<and> (\<forall>y. y \<noteq> x \<longrightarrow> mem_at h' y = mem_at h y) \<and>
         length ws' = length ws \<and>
         (\<forall>j < length ws. ws' ! j =
            (if waits_at (address + offset) (ws ! j) \<and> length (filter (waits_at (address + offset)) (take j ws)) < unat count
             then (ws ! j)\<lparr>waiter_notified := True\<rparr> else ws ! j))"
proof -
  have o: "owned h x" by (rule memory_target_owned [OF assms(2)])
  show ?thesis
    unfolding memory_notify_wf [OF assms(1,2)] e_def ws_def
    by (simp, intro impI exI [of _ "mark (address + offset) (unat count) (mem_waiters (mem_at h x))"])
       (simp add: mem_at_put [OF o] mark_nth)
qed

lemma memory_notify_correct_witness:
  "\<exists>h'. turbowasm_instance_memory_notify True sample_heap 8 0 4 0 3 = Some (TURBOWASM_OK, 0, TURBOWASM_TRAP_NONE, h')"
  using memory_notify_correct [OF wf_sample_heap sample_target(2), of 4 0 3]
  by (auto simp: sample_at) (auto simp: sample_memory_def cleared_memory_def)

section \<open>Threads\<close>

inductive_cases wait_stepE: "wait_step S l S'"

definition slot_of :: "instance_heap \<Rightarrow> memory_id \<times> nat \<Rightarrow> turbowasm_memory_waiter" where
  "slot_of h p = mem_waiters (mem_at h (fst p)) ! snd p"

definition has_slot :: "instance_heap \<Rightarrow> memory_id \<times> nat \<Rightarrow> bool" where
  "has_slot h p \<longleftrightarrow> owned h (fst p) \<and> snd p < length (mem_waiters (mem_at h (fst p)))"

definition notified_slots :: "instance_heap \<Rightarrow> (memory_id \<times> nat) set" where
  "notified_slots h = {p. has_slot h p \<and> waiter_notified (slot_of h p)}"

text \<open>The heap is well formed, the blocked threads hold the active slots, one each, and only active slots are notified.\<close>

definition slots_inv :: "instance_heap \<Rightarrow> (nat \<rightharpoonup> memory_id \<times> nat) \<Rightarrow> bool" where
  "slots_inv g W \<longleftrightarrow>
     wf_heap g \<and> finite (dom W) \<and> inj_on W (dom W) \<and>
     ran W = {p. has_slot g p \<and> waiter_active (slot_of g p)} \<and>
     (\<forall>p. has_slot g p \<longrightarrow> waiter_notified (slot_of g p) \<longrightarrow> waiter_active (slot_of g p))"

text \<open>An update of the slots of one memory.\<close>

lemma slots_put:
  assumes "owned h x"
  shows "has_slot (mem_put h x m) p \<longleftrightarrow> owned h (fst p) \<and> snd p < length (mem_waiters (if fst p = x then m else mem_at h (fst p)))"
    "slot_of (mem_put h x m) p = mem_waiters (if fst p = x then m else mem_at h (fst p)) ! snd p"
  by (simp_all add: has_slot_def slot_of_def mem_at_put [OF assms] owned_links [OF mem_put_links])

lemma slots_update:
  assumes "owned h x" "slot < length (mem_waiters (mem_at h x))" "mem_waiters m = (mem_waiters (mem_at h x))[slot := w]"
  shows "has_slot (mem_put h x m) p \<longleftrightarrow> has_slot h p"
    "slot_of (mem_put h x m) p = (if p = (x, slot) then w else slot_of h p)"
  unfolding slots_put [OF assms(1)] using assms(2,3) by (cases p; simp add: has_slot_def slot_of_def)+

lemma slots_mark:
  assumes "owned h x" "mem_waiters m = mark a c (mem_waiters (mem_at h x))"
  shows "has_slot (mem_put h x m) p \<longleftrightarrow> has_slot h p"
    "has_slot h p \<Longrightarrow> slot_of (mem_put h x m) p =
       (if fst p = x \<and> waits_at a (slot_of h p) \<and> length (filter (waits_at a) (take (snd p) (mem_waiters (mem_at h x)))) < c
        then (slot_of h p)\<lparr>waiter_notified := True\<rparr> else slot_of h p)"
  unfolding slots_put [OF assms(1)] using assms(2) by (auto simp: has_slot_def slot_of_def mark_nth)

text \<open>How many slots a notification marks.\<close>

lemma card_first:
  "card {j. j < length ws \<and> P (ws ! j) \<and> length (filter P (take j ws)) < c} = min c (length (filter P ws))"
proof (induction ws rule: rev_induct)
  case Nil
  then show ?case by simp
next
  case (snoc w ws)
  have "{j. j < length (ws @ [w]) \<and> P ((ws @ [w]) ! j) \<and> length (filter P (take j (ws @ [w]))) < c} =
      {j. j < length ws \<and> P (ws ! j) \<and> length (filter P (take j ws)) < c} \<union>
      (if P w \<and> length (filter P ws) < c then {length ws} else {})"
    by (auto simp: nth_append less_Suc_eq)
  then show ?case using snoc.IH by (simp add: card_insert_if)
qed

lemma ran_clear:
  assumes "inj_on m (dom m)" "m t = Some a"
  shows "ran (m(t := None)) = ran m - {a}"
proof (intro set_eqI iffI)
  fix b assume "b \<in> ran (m(t := None))"
  then obtain u where u: "m u = Some b" "u \<noteq> t" by (auto simp: ran_def split: if_splits)
  then have "b \<noteq> a" using assms by (metis domI inj_onD)
  then show "b \<in> ran m - {a}" using u by (auto simp: ran_def)
next
  fix b assume "b \<in> ran m - {a}"
  then obtain u where u: "m u = Some b" "b \<noteq> a" by (auto simp: ran_def)
  then have "u \<noteq> t" using assms(2) by auto
  then show "b \<in> ran (m(t := None))" using u(1) by (auto simp: ran_def)
qed

definition same_slots :: "instance_heap \<Rightarrow> instance_heap \<Rightarrow> bool" where
  "same_slots h h' \<longleftrightarrow> (\<forall>p. has_slot h' p = has_slot h p \<and> (has_slot h p \<longrightarrow> slot_of h' p = slot_of h p))"

lemma same_slots_refl [simp]: "same_slots h h"
  by (simp add: same_slots_def)

lemma same_slots_put: "owned h x \<Longrightarrow> mem_waiters m = mem_waiters (mem_at h x) \<Longrightarrow> same_slots h (mem_put h x m)"
  by (auto simp: same_slots_def slots_put) (auto simp: has_slot_def slot_of_def)

lemma notified_same_slots: "same_slots h h' \<Longrightarrow> notified_slots h' = notified_slots h"
  by (auto simp: same_slots_def notified_slots_def)

lemma slots_invD:
  assumes "slots_inv g W"
  shows "wf_heap g" "finite (dom W)" "inj_on W (dom W)"
    "ran W = {p. has_slot g p \<and> waiter_active (slot_of g p)}"
    "has_slot g p \<Longrightarrow> waiter_notified (slot_of g p) \<Longrightarrow> waiter_active (slot_of g p)"
  using assms unfolding slots_inv_def by blast+

lemma slots_inv_same_slots:
  assumes "slots_inv g W" "same_slots g h" "wf_heap h"
  shows "slots_inv h W"
  using assms by (auto simp: slots_inv_def same_slots_def)

lemma write_same_slots:
  assumes "turbowasm_instance_memory_write_bytes h i k address offset bs = Some (status, h')"
  shows "same_slots h h'"
  using assms
  by (cases rule: target_cases [of h i k])
     (auto simp: turbowasm_instance_memory_write_bytes_def mem_store_def same_slots_put split: sum.splits if_splits)

lemma atomic_same_slots:
  assumes "turbowasm_instance_memory_atomic sc h i k address offset d v expected replacement = Some (status, old, trap, h')"
  shows "same_slots h h'"
  using assms
  by (cases rule: target_cases [of h i k])
     (auto simp: turbowasm_instance_memory_atomic_def Let_def same_slots_put split: sum.splits if_splits prod.splits)

lemma memory_grow_waiters: "mem_waiters (snd (memory_grow grant m delta)) = mem_waiters m"
  by (simp add: memory_grow_def Let_def)

lemma grow_same_slots:
  assumes "turbowasm_instance_memory_grow64 grant h i k delta = Some (status, previous, h')"
  shows "same_slots h h'"
proof (cases rule: target_cases [of h i k])
  case (3 x)
  then have "h' = mem_put h x (snd (memory_grow grant (mem_at h x) delta))"
    using assms by (auto simp: turbowasm_instance_memory_grow64_def split: prod.splits)
  then show ?thesis using 3(2) by (simp add: same_slots_put memory_grow_waiters)
qed (use assms in \<open>auto simp: turbowasm_instance_memory_grow64_def\<close>)

text \<open>Registration and return move a thread and its slot together.\<close>

lemma wait_register_slot:
  assumes "wait_register sc h i k address offset width expected timeout = (Some (Inr (x, slot)), h')"
  obtains a where "owned h x" "turbowasm_memory_waiter_acquire_slot (mem_at h x) = Some slot" "h' = mem_put h x (register_waiter (mem_at h x) slot a)"
proof -
  have "\<exists>a. memory_target h i k = Some (Inr x) \<and> turbowasm_memory_waiter_acquire_slot (mem_at h x) = Some slot \<and>
      h' = mem_put h x (register_waiter (mem_at h x) slot a)"
    using assms by (auto simp: wait_register_def Let_def split: if_splits option.splits sum.splits)
  then show ?thesis using that memory_target_owned by blast
qed

lemma slots_inv_update:
  assumes inv: "slots_inv g W" and x: "owned g x" "slot < length (mem_waiters (mem_at g x))"
    and m: "mem_waiters m = (mem_waiters (mem_at g x))[slot := w]" "wf_memory m"
    and w: "waiter_notified w \<Longrightarrow> waiter_active w"
    and dom: "finite (dom waiting)" "inj_on waiting (dom waiting)"
    and ran: "ran waiting = (if waiter_active w then insert (x, slot) (ran W) else ran W - {(x, slot)})"
  shows "slots_inv (mem_put g x m) waiting"
proof -
  have has: "has_slot g (x, slot)" using x by (simp add: has_slot_def)
  have wf: "wf_heap (mem_put g x m)" using inv x(1) m(2) by (intro wf_heap_put) (simp_all add: slots_inv_def)
  have r: "ran W = {p. has_slot g p \<and> waiter_active (slot_of g p)}"
    and n: "\<And>p. has_slot g p \<Longrightarrow> waiter_notified (slot_of g p) \<Longrightarrow> waiter_active (slot_of g p)"
    using slots_invD [OF inv] by blast+
  show ?thesis
    unfolding slots_inv_def using wf dom has w n
    by (auto simp: slots_update [OF x m(1)] ran r split: if_splits)
qed

lemma notified_update:
  assumes "owned h x" "slot < length (mem_waiters (mem_at h x))" "mem_waiters m = (mem_waiters (mem_at h x))[slot := w]"
  shows "notified_slots (mem_put h x m) = (if waiter_notified w then insert (x, slot) (notified_slots h) else notified_slots h - {(x, slot)})"
proof -
  have "has_slot h (x, slot)" using assms by (simp add: has_slot_def)
  then show ?thesis by (auto simp: notified_slots_def slots_update [OF assms])
qed

lemma slots_inv_register:
  assumes inv: "slots_inv g W" and t: "W t = None" and o: "owned g x"
    and slot: "turbowasm_memory_waiter_acquire_slot (mem_at g x) = Some slot"
    and h: "h = mem_put g x (register_waiter (mem_at g x) slot a)"
  shows "slots_inv h (W(t \<mapsto> (x, slot)))" "notified_slots h = notified_slots g"
proof -
  have s: "slot < length (mem_waiters (mem_at g x))" "\<not> waiter_active (mem_waiters (mem_at g x) ! slot)"
    using acquire_slot_idle [OF slot] by auto
  have nr: "(x, slot) \<notin> ran W" using slots_invD(4) [OF inv] s(2) by (simp add: slot_of_def)
  have nn: "(x, slot) \<notin> notified_slots g" using slots_invD(5) [OF inv, of "(x, slot)"] s(2) by (auto simp: notified_slots_def slot_of_def)
  have wf: "wf_memory (mem_at g x)" using slots_invD(1) [OF inv] o by (rule wf_heapD)
  have m: "mem_waiters (register_waiter (mem_at g x) slot a) =
      (mem_waiters (mem_at g x))[slot := \<lparr>waiter_address = a, waiter_active = True, waiter_notified = False\<rparr>]"
    by (simp add: register_waiter_def)
  show "notified_slots h = notified_slots g" unfolding h notified_update [OF o s(1) m] using nn by simp
  have inj: "inj_on (W(t \<mapsto> (x, slot))) (dom (W(t \<mapsto> (x, slot))))"
    using inv nr t by (auto simp: slots_inv_def inj_on_def ran_def dom_def)
  show "slots_inv h (W(t \<mapsto> (x, slot)))"
    unfolding h using inv t inj by (intro slots_inv_update [OF inv o s(1) m wf_register [OF wf slot]]) (simp_all add: slots_inv_def)
qed

lemma slots_inv_release:
  assumes inv: "slots_inv g W" and t: "W t = Some (x, slot)"
  shows "slots_inv (wait_release g x slot) (W(t := None))"
    "notified_slots (wait_release g x slot) = notified_slots g - {(x, slot)}"
    "has_slot g (x, slot)"
proof -
  have "(x, slot) \<in> ran W" using t by (auto simp: ran_def)
  then have s: "has_slot g (x, slot)" "waiter_active (mem_waiters (mem_at g x) ! slot)"
    using slots_invD(4) [OF inv] by (simp_all add: slot_of_def)
  then show "has_slot g (x, slot)" by simp
  have o: "owned g x" and l: "slot < length (mem_waiters (mem_at g x))" using s(1) by (simp_all add: has_slot_def)
  have wf: "wf_memory (mem_at g x)" using slots_invD(1) [OF inv] o by (rule wf_heapD)
  have m: "mem_waiters (release_waiter (mem_at g x) slot) = (mem_waiters (mem_at g x))[slot := idle_waiter]"
    by (simp add: release_waiter_def)
  show "notified_slots (wait_release g x slot) = notified_slots g - {(x, slot)}"
    unfolding wait_release_def notified_update [OF o l m] by (simp add: idle_waiter_def)
  have inj: "inj_on W (dom W)" using inv by (simp add: slots_inv_def)
  then have r: "ran (W(t := None)) = ran W - {(x, slot)}"
    using t by (rule ran_clear)
  have "inj_on (W(t := None)) (dom (W(t := None)))"
    using inj by (auto simp: inj_on_def)
  then show "slots_inv (wait_release g x slot) (W(t := None))"
    unfolding wait_release_def using inv r
    by (intro slots_inv_update [OF inv o l m wf_release [OF wf l s(2)]]) (simp_all add: slots_inv_def idle_waiter_def)
qed

lemma finite_notified: "slots_inv g W \<Longrightarrow> finite (notified_slots g)"
  using slots_invD(4,5) [of g W] finite_ran [OF slots_invD(2), of g W]
  by (rule_tac finite_subset [of _ "ran W"]) (auto simp: notified_slots_def)

text \<open>A notification marks as many slots as it reports.\<close>

lemma slots_inv_notify:
  assumes inv: "slots_inv g W"
    and n: "turbowasm_instance_memory_notify sc g i k address offset count = Some (status, woken, trap, h)"
  shows "slots_inv h W" "card (notified_slots h) = card (notified_slots g) + woken"
proof -
  let ?h = "g"
  have "slots_inv h W \<and> card (notified_slots h) = card (notified_slots ?h) + woken"
  proof (cases "h = ?h \<and> woken = 0")
    case True
    then show ?thesis using inv by simp
  next
    case False
    obtain x where x: "memory_target ?h i k = Some (Inr x)" and o: "owned ?h x"
      using False n by (cases rule: target_cases [of ?h i k]) (auto simp: turbowasm_instance_memory_notify_def)
    have sc: sc using False n x by (auto simp: turbowasm_instance_memory_notify_def Let_def split: if_splits)
    let ?ws = "mem_waiters (mem_at ?h x)" and ?P = "waits_at (address + offset)"
    let ?m = "(mem_at ?h x)\<lparr>mem_waiters := mark (address + offset) (unat count) ?ws\<rparr>"
    have wf: "wf_heap ?h" by (rule slots_invD(1) [OF inv])
    have h: "h = mem_put ?h x ?m" and w: "woken = min (unat count) (length (filter ?P ?ws))"
      using False n [unfolded eqTrueI [OF sc] memory_notify_wf [OF wf x]] by (auto split: if_splits)
    have ws: "mem_waiters ?m = mark (address + offset) (unat count) ?ws" by simp
    note slots = slots_mark [OF o ws, folded h]
    let ?N = "(\<lambda>j. (x, j)) ` {j. j < length ?ws \<and> ?P (?ws ! j) \<and> length (filter ?P (take j ?ws)) < unat count}"
    have "?N = {p. has_slot ?h p \<and> fst p = x \<and> ?P (slot_of ?h p) \<and> length (filter ?P (take (snd p) ?ws)) < unat count}"
      using o by (auto simp: has_slot_def slot_of_def image_iff)
    then have N: "notified_slots h = notified_slots ?h \<union> ?N"
      by (auto simp: notified_slots_def slots split: if_splits)
    have "notified_slots ?h \<inter> ?N = {}" by (auto simp: notified_slots_def slot_of_def waits_at_def)
    then have c: "card (notified_slots h) = card (notified_slots ?h) + woken"
      unfolding N w card_first [of ?ws ?P, symmetric] using finite_notified [OF inv]
      by (subst card_Un_disjoint) (auto simp: card_image inj_on_def)
    have wf': "wf_heap h" unfolding h using wf o by (intro wf_heap_put wf_mark wf_heapD)
    have "slots_inv h W"
      using slots_invD [OF inv] wf' by (auto simp: slots_inv_def slots waits_at_def split: if_splits)
    then show ?thesis using c by blast
  qed
  then show "slots_inv h W" "card (notified_slots h) = card (notified_slots ?h) + woken" by blast+
qed

text \<open>The slots that the blocked threads hold, and the invariant of the system.\<close>

abbreviation held :: "wait_frame \<Rightarrow> memory_id \<times> nat" where
  "held f \<equiv> (frame_memory f, frame_slot f)"

definition holding :: "wait_system \<Rightarrow> nat \<rightharpoonup> memory_id \<times> nat" where
  "holding S = map_option held \<circ> sys_waiting S"

text \<open>Only a timed sleep that did not fail goes on, so the status of a blocked thread is \<open>WaitWoken\<close>.\<close>

definition wait_inv :: "wait_system \<Rightarrow> bool" where
  "wait_inv S \<longleftrightarrow> slots_inv (sys_heap S) (holding S) \<and> (\<forall>f\<in>ran (sys_waiting S). frame_status f = WaitWoken)"

lemma holding_updates:
  "holding (S\<lparr>sys_heap := h\<rparr>) = holding S"
  "holding (S\<lparr>sys_heap := h, sys_waiting := (sys_waiting S)(t \<mapsto> f)\<rparr>) = (holding S)(t \<mapsto> held f)"
  "holding (S\<lparr>sys_heap := h, sys_waiting := (sys_waiting S)(t := None)\<rparr>) = (holding S)(t := None)"
  "sys_waiting S t = Some f \<Longrightarrow> held f' = held f \<Longrightarrow> holding (S\<lparr>sys_waiting := (sys_waiting S)(t \<mapsto> f')\<rparr>) = holding S"
  "sys_waiting S t = Some f \<Longrightarrow> holding S t = Some (held f)" "sys_waiting S t = None \<Longrightarrow> holding S t = None"
  by (auto simp: holding_def fun_eq_iff)

lemma slot_notified_iff: "slot_notified h f \<longleftrightarrow> waiter_notified (slot_of h (held f))"
  by (simp add: slot_notified_def slot_of_def)

text \<open>What the two parts of a turn do: the slot stays, and outside the loop the status tells why the thread left.\<close>

lemma wait_check_cases:
  shows "wait_check interrupt now h f = Stay f' \<Longrightarrow> f' = f \<and> \<not> slot_notified h f"
    "wait_check interrupt now h f = Leave interrupted f' \<Longrightarrow> held f' = held f \<and>
       (slot_notified h f \<and> \<not> interrupted \<and> f' = f \<or> \<not> slot_notified h f \<and> interrupted \<and> f' = f \<or>
        \<not> slot_notified h f \<and> \<not> interrupted \<and> frame_status f' = WaitTimedOut)"
  by (auto simp: wait_check_def split: if_splits)

lemma wait_resume_cases:
  assumes "frame_status f = WaitWoken"
  shows "wait_resume wait_status interrupt now h f = Stay f' \<Longrightarrow> held f' = held f \<and> frame_status f' = WaitWoken"
    "wait_resume wait_status interrupt now h f = Leave interrupted f' \<Longrightarrow> held f' = held f \<and>
       (if slot_notified h f then \<not> interrupted else interrupted \<and> frame_status f' = WaitWoken \<or> \<not> interrupted \<and> frame_status f' \<noteq> WaitWoken)"
  using assms by (auto simp: wait_resume_def wait_wake_def wait_check_def Let_def slot_notified_def split: if_splits)

text \<open>How a wait that registered a slot returns: with the result 0 and success (or a failed fence) only when it was notified.\<close>

fun woken_by :: "wait_label \<Rightarrow> nat" where
  "woken_by (Notified n) = n"
| "woken_by _ = 0"

fun returned_woken :: "wait_label \<Rightarrow> nat" where
  "returned_woken (Returned t status result) =
     (if result = 0 \<and> (status = TURBOWASM_OK \<or> status = TURBOWASM_OUT_OF_MEMORY) then 1 else 0)"
| "returned_woken _ = 0"

fun returned_failed :: "wait_label \<Rightarrow> nat" where
  "returned_failed (Returned t status result) = (if status = TURBOWASM_UNSUPPORTED then 1 else 0)"
| "returned_failed _ = 0"

lemma wait_finish_label:
  assumes "wait_finish sc interrupted f h = (status, result, h')"
    and "slot_notified h f \<Longrightarrow> \<not> interrupted"
    and "\<not> slot_notified h f \<Longrightarrow> interrupted \<or> frame_status f \<noteq> WaitWoken"
  shows "h' = wait_release h (frame_memory f) (frame_slot f)"
    "returned_woken (Returned t status result) \<le> (if slot_notified h f then 1 else 0)"
    "(if slot_notified h f then 1 else 0) \<le> returned_woken (Returned t status result) + returned_failed (Returned t status result)"
  using assms
  by (cases "frame_status f"; cases interrupted; cases sc;
      auto simp: wait_finish_def wait_result_def turbowasm_threads_sc_fence_def split: if_splits)+

text \<open>
  One step: the notified slots grow by what a notification reports and shrink by one for a return of a notified
  thread, which returns as woken or with the failure of the lock library.
\<close>

definition accounts :: "instance_heap \<Rightarrow> wait_label \<Rightarrow> instance_heap \<Rightarrow> bool" where
  "accounts h l h' \<longleftrightarrow>
     card (notified_slots h') + returned_woken l \<le> card (notified_slots h) + woken_by l \<and>
     card (notified_slots h) + woken_by l \<le> card (notified_slots h') + returned_woken l + returned_failed l"

lemma accounts_release:
  assumes inv: "slots_inv h W" and t: "W t = Some (held f)" and fin: "wait_finish sc interrupted f h = (status, result, h')"
    and leave: "slot_notified h f \<Longrightarrow> \<not> interrupted" "\<not> slot_notified h f \<Longrightarrow> interrupted \<or> frame_status f \<noteq> WaitWoken"
  shows "slots_inv h' (W(t := None))" "accounts h (Returned u status result) h'"
proof -
  note l = wait_finish_label [OF fin leave]
  note r = slots_inv_release [OF inv t]
  show "slots_inv h' (W(t := None))" using r(1) l(1) by simp
  have n: "held f \<in> notified_slots h \<longleftrightarrow> slot_notified h f" using r(3) by (simp add: notified_slots_def slot_notified_iff)
  have "card (notified_slots h') + (if slot_notified h f then 1 else 0) = card (notified_slots h)"
    using card_Suc_Diff1 [OF finite_notified [OF inv], of "held f"] n by (auto simp: l(1) r(2))
  then show "accounts h (Returned u status result) h'"
    using l(2,3) [of u] unfolding accounts_def by simp
qed


lemma accounts_same: "same_slots h h' \<Longrightarrow> woken_by l = 0 \<Longrightarrow> returned_woken l = 0 \<Longrightarrow> accounts h l h'"
  by (simp add: accounts_def notified_same_slots)

lemma wait_register_refused:
  "wait_register sc h i k address offset width expected timeout = (Some (Inl r), h') \<Longrightarrow> h' = h"
  by (auto simp: wait_register_def Let_def split: if_splits option.splits sum.splits)

lemma wait_inv_heap:
  assumes "wait_inv S" "same_slots (sys_heap S) h" "wf_heap h"
  shows "wait_inv (S\<lparr>sys_heap := h\<rparr>)"
  using slots_inv_same_slots [OF _ assms(2,3)] assms(1) unfolding wait_inv_def by (simp add: holding_updates)

lemma step_accessed:
  assumes "wait_inv S" "same_slots (sys_heap S) h" "wf_heap h" "S' = S\<lparr>sys_heap := h\<rparr>"
  shows "wait_inv S' \<and> accounts (sys_heap S) Accessed (sys_heap S')"
  using wait_inv_heap [OF assms(1-3)] accounts_same [OF assms(2)] assms(4) by simp

text \<open>Registration, with the first check.\<close>

lemma step_entered:
  assumes inv: "wait_inv S" and t: "sys_waiting S t = None"
    and reg: "wait_register sc (sys_heap S) i k address offset width expected timeout = (Some (Inr (x, slot)), h)"
  shows "slots_inv h ((holding S)(t \<mapsto> (x, slot)))" "notified_slots h = notified_slots (sys_heap S)"
proof -
  obtain a where a: "owned (sys_heap S) x" "turbowasm_memory_waiter_acquire_slot (mem_at (sys_heap S) x) = Some slot"
      "h = mem_put (sys_heap S) x (register_waiter (mem_at (sys_heap S) x) slot a)"
    using wait_register_slot [OF reg] .
  have s: "slots_inv (sys_heap S) (holding S)" using inv unfolding wait_inv_def by blast
  show "slots_inv h ((holding S)(t \<mapsto> (x, slot)))" by (rule slots_inv_register(1) [OF s holding_updates(6) [OF t] a])
  show "notified_slots h = notified_slots (sys_heap S)" by (rule slots_inv_register(2) [OF s holding_updates(6) [OF t] a])
qed

lemma held_new_frame [simp]: "held (new_frame timeout start x slot) = (x, slot)" "frame_status (new_frame timeout start x slot) = WaitWoken"
  by (simp_all add: new_frame_def)

lemma step_left_at_once:
  assumes inv: "wait_inv S" and t: "sys_waiting S t = None"
    and reg: "wait_register sc (sys_heap S) i k address offset width expected timeout = (Some (Inr (x, slot)), h)"
    and check: "wait_check interrupt now h (new_frame timeout start x slot) = Leave interrupted f"
    and fin: "wait_finish sc interrupted f h = (status, result, h')"
  shows "wait_inv (S\<lparr>sys_heap := h'\<rparr>) \<and> accounts (sys_heap S) (Returned t status result) h'"
proof -
  note e = step_entered [OF inv t reg]
  note c = wait_check_cases(2) [OF check]
  have held: "held f = (x, slot)" using c by simp
  then have n: "slot_notified h f = slot_notified h (new_frame timeout start x slot)" by (simp add: slot_notified_iff)
  have leave: "slot_notified h f \<Longrightarrow> \<not> interrupted" "\<not> slot_notified h f \<Longrightarrow> interrupted \<or> frame_status f \<noteq> WaitWoken"
    using c n by auto
  have W: "((holding S)(t \<mapsto> (x, slot))) t = Some (held f)" using held by simp
  note r = accounts_release [OF e(1) W fin leave]
  have undo: "((holding S)(t \<mapsto> (x, slot)))(t := None) = holding S"
    using holding_updates(6) [OF t] by (simp add: fun_upd_idem)
  then show ?thesis using r(1) [unfolded undo] r(2) [of t] e(2) inv by (simp add: wait_inv_def holding_updates accounts_def)
qed

lemma blocked_status: "wait_inv S \<Longrightarrow> sys_waiting S t = Some f \<Longrightarrow> frame_status f = WaitWoken"
  unfolding wait_inv_def by (auto simp: ran_def)

lemma step_left:
  assumes inv: "wait_inv S" and t: "sys_waiting S t = Some f"
    and resume: "wait_resume wait_status interrupt now (sys_heap S) f = Leave interrupted f'"
    and fin: "wait_finish sc interrupted f' (sys_heap S) = (status, result, h')"
  shows "wait_inv (S\<lparr>sys_heap := h', sys_waiting := (sys_waiting S)(t := None)\<rparr>) \<and> accounts (sys_heap S) (Returned t status result) h'"
proof -
  note c = wait_resume_cases(2) [OF blocked_status [OF inv t] resume]
  then have n: "slot_notified (sys_heap S) f' = slot_notified (sys_heap S) f" by (simp add: slot_notified_iff)
  have leave: "slot_notified (sys_heap S) f' \<Longrightarrow> \<not> interrupted"
      "\<not> slot_notified (sys_heap S) f' \<Longrightarrow> interrupted \<or> frame_status f' \<noteq> WaitWoken"
    using c n by (auto split: if_splits)
  have W: "holding S t = Some (held f')" using holding_updates(5) [OF t] c by simp
  have "slots_inv (sys_heap S) (holding S)" using inv unfolding wait_inv_def by blast
  note r = accounts_release [OF this W fin leave]
  have "\<forall>g\<in>ran ((sys_waiting S)(t := None)). frame_status g = WaitWoken"
    using inv unfolding wait_inv_def by (auto simp: ran_def)
  then show ?thesis using r by (simp add: wait_inv_def holding_updates)
qed

lemma wait_step_inv:
  assumes "wait_step S l S'" "wait_inv S"
  shows "wait_inv S' \<and> accounts (sys_heap S) l (sys_heap S')"
  using assms(1)
proof cases
  case (step_refuse t sc i k address offset width expected timeout status result trap h)
  then show ?thesis using wait_register_refused [OF step_refuse(4)] assms(2) accounts_same [OF same_slots_refl] by simp
next
  case (step_register t sc i k address offset width expected timeout x slot h interrupt now start f)
  note e = step_entered [OF assms(2) step_register(3,4)]
  have f: "f = new_frame timeout start x slot" using wait_check_cases(1) [OF step_register(5)] by blast
  have "\<forall>g\<in>ran ((sys_waiting S)(t \<mapsto> f)). frame_status g = WaitWoken"
    using assms(2) f unfolding wait_inv_def by (auto simp: ran_def)
  then have "wait_inv S'" using e(1) f step_register(2) by (simp add: wait_inv_def holding_updates)
  then show ?thesis using e(2) step_register(1,2) by (simp add: accounts_def)
next
  case (step_at_once t sc i k address offset width expected timeout x slot h interrupt now start interrupted f status result h')
  then show ?thesis using step_left_at_once [OF assms(2) step_at_once(3-6)] by simp
next
  case (step_resume t f wait_status interrupt now f')
  note c = wait_resume_cases(1) [OF blocked_status [OF assms(2) step_resume(3)] step_resume(4)]
  have "\<forall>g\<in>ran ((sys_waiting S)(t \<mapsto> f')). frame_status g = WaitWoken"
    using assms(2) c unfolding wait_inv_def by (auto simp: ran_def)
  then have "wait_inv S'"
    using assms(2) holding_updates(4) [OF step_resume(3)] c step_resume(2) unfolding wait_inv_def by simp
  then show ?thesis using step_resume(1,2) by (simp add: accounts_def)
next
  case (step_return t f wait_status interrupt now interrupted f' sc status result h')
  then show ?thesis using step_left [OF assms(2) step_return(3-5)] by simp
next
  case (step_notify sc i k address offset count status woken trap h)
  have inv: "slots_inv (sys_heap S) (holding S)" using assms(2) unfolding wait_inv_def by blast
  note r = slots_inv_notify [OF inv step_notify(3)]
  then show ?thesis using assms(2) step_notify(1,2) by (simp add: wait_inv_def holding_updates accounts_def)
next
  case (step_access i k address offset source status h)
  have wf: "wf_heap (sys_heap S)" using assms(2) slots_invD(1) unfolding wait_inv_def by blast
  show ?thesis
    using step_accessed [OF assms(2) write_same_slots [OF step_access(3)] write_bytes_keeps [OF wf step_access(3,4)] step_access(2)] step_access(1) by simp
next
  case (step_atomic sc i k address offset d v expected replacement status old trap h subopcode)
  have wf: "wf_heap (sys_heap S)" using assms(2) slots_invD(1) unfolding wait_inv_def by blast
  have d: "d \<in> set descriptors" using descriptor_find [OF step_atomic(4)] by blast
  show ?thesis
    using step_accessed [OF assms(2) atomic_same_slots [OF step_atomic(3)] atomic_keeps [OF wf d step_atomic(3)] step_atomic(2)] step_atomic(1) by simp
next
  case (step_grow grant i k delta status previous h)
  have wf: "wf_heap (sys_heap S)" using assms(2) slots_invD(1) unfolding wait_inv_def by blast
  show ?thesis
    using step_accessed [OF assms(2) grow_same_slots [OF step_grow(3)] grow_keeps [OF wf step_grow(3)] step_grow(2)] step_grow(1) by simp
qed

lemma wait_run_accounts:
  assumes "wait_run S ls S'" "wait_inv S"
  shows "wait_inv S' \<and>
     card (notified_slots (sys_heap S')) + sum_list (map returned_woken ls) \<le> card (notified_slots (sys_heap S)) + sum_list (map woken_by ls) \<and>
     card (notified_slots (sys_heap S)) + sum_list (map woken_by ls) \<le>
       card (notified_slots (sys_heap S')) + sum_list (map returned_woken ls) + sum_list (map returned_failed ls)"
  using assms
proof (induction rule: wait_run.induct)
  case (run_nil S)
  then show ?case by simp
next
  case (run_snoc S ls S' l S'')
  then show ?case using wait_step_inv [OF run_snoc(2)] unfolding accounts_def by auto
qed

text \<open>
  C4. No wake-up is lost and none is invented. Along every interleaving of waits, notifications, stores, atomic accesses and
  growth by any number of threads, from a state where the blocked threads hold the active slots one each and nobody was notified:
  each wake-up that a notification reported belongs to a thread that is notified and has not returned yet, or to a wait
  that returned with the result 0 (as successful, or with the error of the last fence), or to a wait that returned
  \<open>UNSUPPORTED\<close> because its timed sleep failed. So without such failures the reported numbers add up to the waits
  that returned 0 plus the notified threads, and never to less than these. The blocked threads hold distinct active
  slots and all of them, and the heap stays well formed.
\<close>

theorem wait_notify_conservation:
  assumes "wait_run S ls S'" "wait_inv S" "notified_slots (sys_heap S) = {}"
  shows "sum_list (map returned_woken ls) + card (notified_slots (sys_heap S')) \<le> sum_list (map woken_by ls) \<and>
     sum_list (map woken_by ls) \<le>
       sum_list (map returned_woken ls) + card (notified_slots (sys_heap S')) + sum_list (map returned_failed ls) \<and>
     wf_heap (sys_heap S') \<and> inj_on (holding S') (dom (holding S')) \<and>
     ran (holding S') = {p. has_slot (sys_heap S') p \<and> waiter_active (slot_of (sys_heap S') p)}"
proof -
  note r = wait_run_accounts [OF assms(1,2)]
  have "slots_inv (sys_heap S') (holding S')" using r unfolding wait_inv_def by blast
  from slots_invD(1,3,4) [OF this] r assms(3) show ?thesis by simp
qed

text \<open>An instance with a shared memory of 16 bytes.\<close>

definition shared_memory :: turbowasm_instance_memory where
  "shared_memory = sample_memory\<lparr>mem_shared := True, mem_waiter_mutex_initialized := True, mem_waiters := replicate 64 idle_waiter\<rparr>"

definition shared_heap :: instance_heap where
  "shared_heap =
     (\<lambda>i. if i = 7 then \<lparr>inst_module = Some (sample_module False), inst_memories = [shared_memory], linked_memories = [], data_segment_dropped = []\<rparr>
          else \<lparr>inst_module = None, inst_memories = [], linked_memories = [], data_segment_dropped = []\<rparr>)"

definition quiet_system :: wait_system where
  "quiet_system = \<lparr>sys_heap = shared_heap, sys_waiting = Map.empty\<rparr>"

lemma owned_shared: "owned shared_heap x \<longleftrightarrow> x = (7, 0)"
  by (cases x) (auto simp: owned_def shared_heap_def sample_module_def split: if_splits)

lemma at_shared: "mem_at shared_heap (7, 0) = shared_memory"
  by (simp add: mem_at_def shared_heap_def)

lemma wf_shared_memory: "wf_memory shared_memory"
  by (simp add: wf_memory_def shared_memory_def sample_memory_def cleared_memory_def mem_size_def idle_waiter_def filter_replicate)

lemma shared_target: "memory_target shared_heap 7 0 = Some (Inr (7, 0))"
proof -
  have "turbowasm_instance_memory_resolve shared_heap 7 0 = Some (Some (7, 0))"
    by (subst turbowasm_instance_memory_resolve.simps) (simp add: shared_heap_def sample_module_def)
  moreover have "memory_count (shared_heap 7) = 1" by (simp add: shared_heap_def)
  ultimately show ?thesis by (simp add: memory_target_def)
qed

lemma quiet_inv: "wait_inv quiet_system" "notified_slots (sys_heap quiet_system) = {}"
proof -
  have idle: "slot_of shared_heap p = idle_waiter" if "has_slot shared_heap p" for p
    using that by (cases p, auto simp: has_slot_def slot_of_def owned_shared at_shared) (simp add: shared_memory_def)
  then show "notified_slots (sys_heap quiet_system) = {}"
    by (auto simp: quiet_system_def notified_slots_def idle_waiter_def)
  have "wf_heap shared_heap" using wf_shared_memory by (auto simp: wf_heap_def owned_shared at_shared)
  then show "wait_inv quiet_system"
    using idle by (auto simp: wait_inv_def slots_inv_def holding_def quiet_system_def idle_waiter_def)
qed

lemma mark_first: "waits_at a w \<Longrightarrow> 0 < c \<Longrightarrow> waiter_notified (mark a c (w # ws) ! 0)"
  by (cases c) simp_all

lemma shared_data: "mem_data shared_memory = replicate 16 0" "mem_shared shared_memory" "mem_waiter_mutex_initialized shared_memory"
  by (simp_all add: shared_memory_def sample_memory_def)

lemma load_le_zeros: "load_le_loop index (replicate n 0) v = v"
  by (induction n arbitrary: index) simp_all

lemma shared_waiters: "mem_waiters (register_waiter shared_memory 0 a) =
    \<lparr>waiter_address = a, waiter_active = True, waiter_notified = False\<rparr> # replicate 63 idle_waiter"
proof -
  have "replicate 64 idle_waiter = idle_waiter # replicate 63 idle_waiter" by (simp flip: replicate_Suc)
  then show ?thesis by (simp add: register_waiter_def shared_memory_def)
qed

lemma shared_register:
  assumes "timeout \<noteq> 0"
  shows "wait_register True shared_heap 7 0 8 0 4 0 timeout = (Some (Inr ((7, 0), 0)), mem_put shared_heap (7, 0) (register_waiter shared_memory 0 8))"
proof -
  have slot: "turbowasm_memory_waiter_acquire_slot shared_memory = Some 0"
    by (simp add: turbowasm_memory_waiter_acquire_slot_def shared_memory_def idle_waiter_def upt_conv_Cons)
  show ?thesis
    using slot assms by (simp add: wait_register_def shared_target at_shared Let_def storage_range_wf [OF wf_shared_memory] shared_data
        turbowasm_atomic_load_le_def bytes_get_def drop_replicate take_replicate load_le_zeros)
qed

lemma wait_notify_conservation_witness:
  "\<exists>S. wait_run quiet_system [Registered 1, Notified 1, Returned 1 TURBOWASM_OK 0] S \<and> card (notified_slots (sys_heap S)) = 0"
proof -
  let ?m = "register_waiter shared_memory 0 8" and ?f = "new_frame (- 1) 0 (7, 0) 0"
  let ?h1 = "mem_put shared_heap (7, 0) ?m"
  let ?S1 = "quiet_system\<lparr>sys_heap := ?h1, sys_waiting := (sys_waiting quiet_system)(1 \<mapsto> ?f)\<rparr>"
  have o: "owned shared_heap (7, 0)" by (simp add: owned_shared)
  have "\<not> slot_notified ?h1 ?f" by (simp add: slot_notified_def new_frame_def mem_at_put [OF o] shared_waiters)
  then have "wait_check False 0 ?h1 ?f = Stay ?f" by (simp add: wait_check_def new_frame_def)
  then have s1: "wait_step quiet_system (Registered 1) ?S1"
    using shared_register [of "- 1"] step_register [of quiet_system 1 True 7 0 8 0 4 0 "- 1" "(7, 0)" 0 ?h1 False 0 0 ?f] by (simp add: quiet_system_def)
  have wf: "wf_heap ?h1" using wait_step_inv [OF s1 quiet_inv(1)] slots_invD(1) unfolding wait_inv_def by fastforce
  let ?h2 = "mem_put ?h1 (7, 0) (?m\<lparr>mem_waiters := mark 8 5 (mem_waiters ?m)\<rparr>)"
  have "turbowasm_instance_memory_notify True ?h1 7 0 8 0 5 = Some (TURBOWASM_OK, 1, TURBOWASM_TRAP_NONE, ?h2)"
    using memory_notify_wf [OF wf, of 7 0 "(7, 0)" 8 0 5]
    by (simp add: shared_target mem_at_put [OF o] shared_waiters) (simp add: register_waiter_def shared_data waits_at_def idle_waiter_def filter_replicate)
  then have s2: "wait_step ?S1 (Notified 1) (?S1\<lparr>sys_heap := ?h2\<rparr>)"
    using step_notify [of True ?S1 7 0 8 0 5] by simp
  have "waiter_notified (mem_waiters (mem_at ?h2 (7, 0)) ! 0)"
    using o by (simp add: mem_at_put owned_links [OF mem_put_links] shared_waiters waits_at_def mark_first)
  then have n: "slot_notified ?h2 ?f" by (simp add: slot_notified_def new_frame_def)
  then have r: "wait_resume WaitWoken False 0 ?h2 ?f = Leave False ?f" by (simp add: wait_resume_def wait_wake_def wait_check_def new_frame_def)
  obtain h3 where "wait_finish True False ?f ?h2 = (TURBOWASM_OK, 0, h3)"
    using n by (simp add: wait_finish_def wait_result_def turbowasm_threads_sc_fence_def new_frame_def)
  then have "\<exists>S3. wait_step (?S1\<lparr>sys_heap := ?h2\<rparr>) (Returned 1 TURBOWASM_OK 0) S3"
    using step_return [of "?S1\<lparr>sys_heap := ?h2\<rparr>" 1 ?f WaitWoken False 0 False ?f True] r by auto
  then obtain S3 where "wait_run quiet_system ((([] @ [Registered 1]) @ [Notified 1]) @ [Returned 1 TURBOWASM_OK 0]) S3"
    using run_snoc [OF run_snoc [OF run_snoc [OF run_nil s1] s2]] by blast
  then show ?thesis using wait_notify_conservation [OF _ quiet_inv] by fastforce
qed

subsection \<open>The blocked phase\<close>

text \<open>The heap after the first \<open>n\<close> sleeps.\<close>

definition heap_after :: "wait_event list \<Rightarrow> nat \<Rightarrow> instance_heap \<Rightarrow> instance_heap" where
  "heap_after events n h = fold ev_others (take n events) h"

lemma heap_after_simps [simp]:
  "heap_after events 0 h = h" "heap_after [] n h = h" "heap_after (ev # events) (Suc n) h = heap_after events n (ev_others ev h)"
  by (simp_all add: heap_after_def)

lemma slot_notified_status [simp]: "slot_notified h (f\<lparr>frame_status := st\<rparr>) = slot_notified h f"
  by (simp add: slot_notified_def)

lemma wait_loop_returns:
  assumes "(\<exists>ev\<in>set events. ev_interrupt ev \<or> 0 \<le> sint (frame_timeout f) \<and> frame_deadline f \<le> ev_now ev) \<or>
     (\<exists>n\<le>length events. slot_notified (heap_after events n h) f)"
  shows "\<exists>r. wait_loop events h f = Some r"
  using assms
proof (induction events arbitrary: h f)
  case Nil
  then have "wait_loop [] h f = Some (False, f, h)" by simp
  then show ?case by blast
next
  case (Cons ev events)
  show ?case
  proof (cases "slot_notified h f \<or> ev_interrupt ev \<or> 0 \<le> sint (frame_timeout f) \<and> frame_deadline f \<le> ev_now ev")
    case True
    then show ?thesis by (auto simp: wait_check_def)
  next
    case False
    then have c: "wait_check (ev_interrupt ev) (ev_now ev) h f = Stay f" by (auto simp: wait_check_def)
    have rest: "(\<exists>ev\<in>set events. ev_interrupt ev \<or> 0 \<le> sint (frame_timeout f) \<and> frame_deadline f \<le> ev_now ev) \<or>
        (\<exists>n\<le>length events. slot_notified (heap_after events n (ev_others ev h)) f)"
      using Cons.prems
    proof
      assume "\<exists>n\<le>length (ev # events). slot_notified (heap_after (ev # events) n h) f"
      then obtain n where n: "n \<le> length (ev # events)" "slot_notified (heap_after (ev # events) n h) f" by blast
      with False obtain m where "n = Suc m" by (cases n) auto
      with n show ?thesis by auto
    qed (use False in auto)
    show ?thesis
      using c Cons.IH [of f "ev_others ev h"] Cons.IH [of "f\<lparr>frame_status := WaitWoken\<rparr>" "ev_others ev h"] rest
      by (simp add: wait_wake_def Let_def exI [of Not False])
  qed
qed

text \<open>Where and why the loop ends.\<close>

definition loop_exit :: "wait_event list \<Rightarrow> wait_frame \<Rightarrow> nat \<Rightarrow> bool \<Rightarrow> wait_status \<Rightarrow> bool \<Rightarrow> bool" where
  "loop_exit events f n interrupted st notified \<longleftrightarrow>
     (if notified then \<not> interrupted \<and> st = (if 0 \<le> sint (frame_timeout f) \<and> 0 < n then ev_status (events ! (n - 1)) else WaitWoken)
      else
        interrupted \<and> st = WaitWoken \<and> n < length events \<and> ev_interrupt (events ! n) \<or>
        \<not> interrupted \<and> 0 \<le> sint (frame_timeout f) \<and> st = WaitTimedOut \<and> n < length events \<and> frame_deadline f \<le> ev_now (events ! n) \<or>
        \<not> interrupted \<and> 0 \<le> sint (frame_timeout f) \<and> 0 < n \<and> st = ev_status (events ! (n - 1)) \<and> st \<noteq> WaitWoken)"

lemma loop_exit_Cons:
  assumes "loop_exit events f n interrupted st notified" "0 \<le> sint (frame_timeout f) \<Longrightarrow> n = 0 \<Longrightarrow> \<not> notified"
  shows "loop_exit (ev # events) f (Suc n) interrupted st notified"
  using assms by (cases n) (auto simp: loop_exit_def)

lemma wait_loop_exit:
  assumes "wait_loop events h f = Some (interrupted, f', h')" "frame_status f = WaitWoken"
  shows "\<exists>n\<le>length events. h' = heap_after events n h \<and> held f' = held f \<and> (\<forall>m<n. \<not> slot_notified (heap_after events m h) f) \<and>
     loop_exit events f n interrupted (frame_status f') (slot_notified h' f)"
  using assms
proof (induction events arbitrary: h f)
  case Nil
  then show ?case by (auto simp: loop_exit_def split: if_splits)
next
  case (Cons ev events)
  show ?case
  proof (cases "wait_check (ev_interrupt ev) (ev_now ev) h f")
    case (Leave i f1)
    then show ?thesis
      using Cons.prems by (intro exI [of _ 0]) (auto simp: wait_check_def loop_exit_def split: if_splits)
  next
    case (Stay f1)
    then have f1: "f1 = f" "\<not> slot_notified h f" by (auto simp: wait_check_def split: if_splits)
    let ?h = "ev_others ev h"
    show ?thesis
    proof (cases "wait_wake (ev_status ev) ?h f")
      case (Leave i f2)
      then show ?thesis
        using Cons.prems Stay f1 by (intro exI [of _ 1]) (auto simp: wait_wake_def Let_def loop_exit_def split: if_splits)
    next
      case (Stay f2)
      then have f2: "f2 = f" "0 \<le> sint (frame_timeout f) \<Longrightarrow> \<not> slot_notified ?h f"
        using Cons.prems(2) by (auto simp: wait_wake_def Let_def split: if_splits)
      have "wait_loop events ?h f = Some (interrupted, f', h')"
        using Cons.prems(1) \<open>wait_check _ _ _ _ = Stay f1\<close> Stay f1 f2 by simp
      from Cons.IH [OF this Cons.prems(2)] obtain n where n: "n \<le> length events" "h' = heap_after events n ?h" "held f' = held f"
          "\<forall>m<n. \<not> slot_notified (heap_after events m ?h) f" "loop_exit events f n interrupted (frame_status f') (slot_notified h' f)"
        by blast
      have "\<forall>m<Suc n. \<not> slot_notified (heap_after (ev # events) m h) f"
        using n(4) f1(2) by (auto simp: less_Suc_eq_0_disj)
      moreover have "loop_exit (ev # events) f (Suc n) interrupted (frame_status f') (slot_notified h' f)"
        using n(2,5) f2(2) by (intro loop_exit_Cons) auto
      ultimately show ?thesis using n(1-3) by (intro exI [of _ "Suc n"]) simp
    qed
  qed
qed

text \<open>The other threads change neither which instance owns which memory nor the number of slots.\<close>

definition others_keep_slots :: "memory_id \<Rightarrow> wait_event \<Rightarrow> bool" where
  "others_keep_slots x ev \<longleftrightarrow>
     (\<forall>h. same_links h (ev_others ev h) \<and> length (mem_waiters (mem_at (ev_others ev h) x)) = length (mem_waiters (mem_at h x)))"

lemma heap_after_slots:
  assumes "list_all (others_keep_slots x) events"
  shows "owned (heap_after events n h) x = owned h x" "length (mem_waiters (mem_at (heap_after events n h) x)) = length (mem_waiters (mem_at h x))"
proof -
  have "owned (fold ev_others evs h) x = owned h x \<and> length (mem_waiters (mem_at (fold ev_others evs h) x)) = length (mem_waiters (mem_at h x))"
    if "list_all (others_keep_slots x) evs" for evs
    using that by (induction evs arbitrary: h) (auto simp: others_keep_slots_def owned_links)
  moreover have "list_all (others_keep_slots x) (take n events)"
    using assms by (auto simp: list_all_iff dest: in_set_takeD)
  ultimately show "owned (heap_after events n h) x = owned h x" "length (mem_waiters (mem_at (heap_after events n h) x)) = length (mem_waiters (mem_at h x))"
    unfolding heap_after_def by blast+
qed

text \<open>The status and the result of a wait that leaves after \<open>n\<close> sleeps.\<close>

definition wait_outcome :: "wait_event list \<Rightarrow> u64 \<Rightarrow> u64 \<Rightarrow> nat \<Rightarrow> bool \<Rightarrow> turbowasm_status \<Rightarrow> u32 \<Rightarrow> bool" where
  "wait_outcome events timeout deadline n notified status result \<longleftrightarrow>
     (if notified
      then result = 0 \<and>
        status = (if 0 \<le> sint timeout \<and> 0 < n \<and> ev_status (events ! (n - 1)) = WaitFailed then TURBOWASM_UNSUPPORTED else TURBOWASM_OK)
      else
        status = TURBOWASM_INTERRUPTED \<and> result = 0 \<and> n < length events \<and> ev_interrupt (events ! n) \<or>
        status = TURBOWASM_OK \<and> result = 2 \<and> 0 \<le> sint timeout \<and>
          (n < length events \<and> deadline \<le> ev_now (events ! n) \<or> 0 < n \<and> ev_status (events ! (n - 1)) = WaitTimedOut) \<or>
        status = TURBOWASM_UNSUPPORTED \<and> result = 0 \<and> 0 \<le> sint timeout \<and> 0 < n \<and> ev_status (events ! (n - 1)) = WaitFailed)"

text \<open>
  C36. How a registered wait returns. With a turn in which it is interrupted, or in which the clock has passed the deadline of its
  timeout, or after a sleep in which another thread notified its slot, the wait returns, and it frees its slot, whatever
  else the other threads did to the heap. It leaves at the first sleep that ends with its slot notified, never
  later. With the slot notified it reports the result 0 with success, unless the lock library failed in that very
  sleep, which makes it \<open>UNSUPPORTED\<close>. With the slot not notified it reports the interrupt of that turn, or the result
  2 with success for a timeout that expired by the clock or in the sleep, or \<open>UNSUPPORTED\<close> for a failed sleep.
\<close>

theorem memory_wait_returns:
  assumes "wait_register True h i k address offset width expected timeout = (Some (Inr (x, slot)), h1)"
    "list_all (others_keep_slots x) events"
    "(\<exists>ev\<in>set events. ev_interrupt ev \<or> 0 < sint timeout \<and> wait_deadline timeout now \<le> ev_now ev) \<or>
     (\<exists>n\<le>length events. waiter_notified (slot_of (heap_after events n h1) (x, slot)))"
  shows "\<exists>status result n h2.
     h2 = heap_after events n h1 \<and> n \<le> length events \<and> (\<forall>m<n. \<not> waiter_notified (slot_of (heap_after events m h1) (x, slot))) \<and>
     turbowasm_instance_memory_wait_internal True now events h i k address offset width expected timeout =
       Some (status, result, TURBOWASM_TRAP_NONE, wait_release h2 x slot) \<and>
     slot_of (wait_release h2 x slot) (x, slot) = idle_waiter \<and>
     wait_outcome events timeout (wait_deadline timeout now) n (waiter_notified (slot_of h2 (x, slot))) status result"
proof -
  let ?f = "new_frame timeout now x slot"
  obtain a where o: "owned h x" and slot: "turbowasm_memory_waiter_acquire_slot (mem_at h x) = Some slot"
      and h1: "h1 = mem_put h x (register_waiter (mem_at h x) slot a)"
    using wait_register_slot [OF assms(1)] .
  have o1: "owned h1 x" "slot < length (mem_waiters (mem_at h1 x))"
    using o acquire_slot_idle [OF slot] by (simp_all add: h1 mem_at_put owned_links [OF mem_put_links] register_waiter_def)
  have f: "frame_timeout ?f = timeout" "frame_deadline ?f = wait_deadline timeout now" by (simp_all add: new_frame_def)
  have sn: "slot_notified g ?f = waiter_notified (slot_of g (x, slot))" for g by (simp add: slot_notified_iff)
  obtain interrupted f' h2 where r: "wait_loop events h1 ?f = Some (interrupted, f', h2)"
    using wait_loop_returns [of events ?f h1] assms(3) unfolding f sn by (metis order_less_imp_le prod_cases3)
  obtain n where n: "n \<le> length events" "h2 = heap_after events n h1" "held f' = (x, slot)"
      "\<forall>m<n. \<not> slot_notified (heap_after events m h1) ?f" "loop_exit events ?f n interrupted (frame_status f') (slot_notified h2 ?f)"
    using wait_loop_exit [OF r] by auto
  have h2: "owned h2 x" "slot < length (mem_waiters (mem_at h2 x))" using heap_after_slots [OF assms(2)] o1 n(2) by simp_all
  then have free: "slot_of (wait_release h2 x slot) (x, slot) = idle_waiter"
    by (simp add: slot_of_def wait_release_def release_waiter_def mem_at_put)
  obtain status result where w: "wait_result True interrupted (frame_status f') (slot_notified h2 ?f) = (status, result)" by fastforce
  have "slot_notified h2 f' = slot_notified h2 ?f" using n(3) by (simp add: slot_notified_iff)
  then have "turbowasm_instance_memory_wait_internal True now events h i k address offset width expected timeout =
      Some (status, result, TURBOWASM_TRAP_NONE, wait_release h2 x slot)"
    using w n(3) by (simp add: turbowasm_instance_memory_wait_internal_def assms(1) r wait_finish_def)
  then show ?thesis
    using n(1,2,4) free w n(5) unfolding sn loop_exit_def f wait_outcome_def
    by (intro exI [of _ status] exI [of _ result] exI [of _ n] exI [of _ h2])
       (cases "frame_status f'"; auto simp: wait_result_def turbowasm_threads_sc_fence_def split: if_splits)
qed

text \<open>A thread that is notified in its second sleep, which the library reports as timed out.\<close>

definition notify_shared :: "instance_heap \<Rightarrow> instance_heap" where
  "notify_shared h = mem_put h (7, 0) ((mem_at h (7, 0))\<lparr>mem_waiters := mark 8 1 (mem_waiters (mem_at h (7, 0)))\<rparr>)"

lemma notify_shared_keeps: "others_keep_slots (7, 0) \<lparr>ev_interrupt = b, ev_now = now, ev_others = notify_shared, ev_status = st\<rparr>"
proof -
  have "length (mem_waiters (xs[0 := (xs ! 0)\<lparr>mem_waiters := mark 8 1 (mem_waiters (xs ! 0))\<rparr>] ! 0)) = length (mem_waiters (xs ! 0))" for xs
    by (cases xs) simp_all
  then show ?thesis unfolding others_keep_slots_def notify_shared_def by (auto simp: mem_at_def mem_put_def same_links_def)
qed

lemma memory_wait_returns_witness:
  "\<exists>h'. turbowasm_instance_memory_wait_internal True 100
     [\<lparr>ev_interrupt = False, ev_now = 101, ev_others = id, ev_status = WaitWoken\<rparr>,
      \<lparr>ev_interrupt = False, ev_now = 102, ev_others = notify_shared, ev_status = WaitTimedOut\<rparr>]
     shared_heap 7 0 8 0 4 0 5 = Some (TURBOWASM_OK, 0, TURBOWASM_TRAP_NONE, h') \<and> slot_of h' ((7, 0), 0) = idle_waiter"
proof -
  let ?evs = "[\<lparr>ev_interrupt = False, ev_now = 101, ev_others = id, ev_status = WaitWoken\<rparr>,
      \<lparr>ev_interrupt = False, ev_now = 102, ev_others = notify_shared, ev_status = WaitTimedOut\<rparr>]"
  let ?h1 = "mem_put shared_heap (7, 0) (register_waiter shared_memory 0 8)"
  have o: "owned shared_heap (7, 0)" by (simp add: owned_shared)
  have quiet: "\<not> waiter_notified (slot_of ?h1 ((7, 0), 0))"
    by (simp add: slot_of_def mem_at_put [OF o] shared_waiters)
  have hit: "waiter_notified (slot_of (notify_shared ?h1) ((7, 0), 0))"
    using o by (simp add: slot_of_def notify_shared_def mem_at_put owned_links [OF mem_put_links] shared_waiters waits_at_def)
  have heaps: "heap_after ?evs 0 ?h1 = ?h1" "heap_after ?evs 1 ?h1 = ?h1" "heap_after ?evs 2 ?h1 = notify_shared ?h1"
    by (simp_all add: heap_after_def)
  have keep: "list_all (others_keep_slots (7, 0)) ?evs"
    using notify_shared_keeps by (simp add: others_keep_slots_def same_links_def)
  have reg: "wait_register True shared_heap 7 0 8 0 4 0 5 = (Some (Inr ((7, 0), 0)), ?h1)" by (rule shared_register) simp
  have "\<exists>n\<le>length ?evs. waiter_notified (slot_of (heap_after ?evs n ?h1) ((7, 0), 0))"
    using hit heaps(3) by (intro exI [of _ 2]) simp
  from memory_wait_returns [OF reg keep disjI2 [OF this], of 100]
  obtain status result n h2 where r: "h2 = heap_after ?evs n ?h1" "n \<le> length ?evs"
      "turbowasm_instance_memory_wait_internal True 100 ?evs shared_heap 7 0 8 0 4 0 5 =
         Some (status, result, TURBOWASM_TRAP_NONE, wait_release h2 (7, 0) 0)"
      "slot_of (wait_release h2 (7, 0) 0) ((7, 0), 0) = idle_waiter"
      "wait_outcome ?evs 5 (wait_deadline 5 100) n (waiter_notified (slot_of h2 ((7, 0), 0))) status result"
    by blast
  consider "n = 0" | "n = 1" | "n = 2" using r(2) by (auto simp: le_Suc_eq)
  then have "status = TURBOWASM_OK \<and> result = 0"
    by cases (use r(1,5) quiet hit heaps in \<open>auto simp: wait_outcome_def wait_deadline_def split: if_splits\<close>)
  then show ?thesis using r(3,4) by blast
qed

end
