(* ===== verification/TW_Memory_Exec_Laws.thy ===== *)
theory TW_Memory_Exec_Laws
  imports TW_Wait_Laws
begin

text \<open>
  The memory instructions keep the heap well formed, and the creation of the memories of an instance establishes it.
\<close>

section \<open>Instructions\<close>
























section \<open>Creation\<close>

text \<open>The limits of a declaration, as validation leaves them.\<close>

definition valid_limits :: "turbowasm_validation_memory \<Rightarrow> bool" where
  "valid_limits v \<longleftrightarrow> (limits_has_maximum (vmem_limits v) \<longrightarrow> limits_minimum (vmem_limits v) \<le> limits_maximum (vmem_limits v))"

lemma allocate_memory_wf:
  assumes "allocate_memory env max_bytes linked k v = (TURBOWASM_OK, m)" "valid_limits v"
  shows "if vmem_imported v then k < length linked \<and> fst (linked ! k) \<noteq> None
     else wf_memory m \<and> mem_pages m = limits_minimum (vmem_limits v) \<and> mem_shared m = vmem_shared v \<and>
       mem_resource_max_bytes m = max_bytes \<and> list_all (\<lambda>b. b = 0) (mem_data m)"
proof (cases "vmem_imported v")
  case True
  then show ?thesis using assms(1) by (auto simp: allocate_memory_def not_le split: if_splits)
next
  case False
  have p: "vmem_page_size v \<noteq> 0" and s: "unat (limits_minimum (vmem_limits v)) * unat (vmem_page_size v) < 2 ^ 64"
    using assms(1) False by (auto simp: allocate_memory_def mult_fits not_le split: if_splits)
  have b: "unat (limits_minimum (vmem_limits v) * ucast (vmem_page_size v)) = unat (limits_minimum (vmem_limits v)) * unat (vmem_page_size v)"
    using s by (rule mult_exact)
  show ?thesis
    using assms False p s
    by (auto simp: allocate_memory_def turbowasm_instance_memory_storage_init_def cleared_memory_def Let_def wf_memory_def mem_size_def b
        valid_limits_def idle_waiter_def filter_replicate word_less_nat_alt list_all_iff split: if_splits)
qed

lemma allocate_loop_frame:
  "allocate_memories_loop env max_bytes linked k vs ms = (status, ms') \<Longrightarrow> length ms' = length ms \<and> (\<forall>j < k. ms' ! j = ms ! j)"
  by (induction env max_bytes linked k vs ms rule: allocate_memories_loop.induct) (fastforce split: if_splits prod.splits)+

lemma allocate_loop_ok:
  assumes "allocate_memories_loop env max_bytes linked k vs ms = (TURBOWASM_OK, ms')" "length ms = k + length vs" "j < length vs"
  shows "allocate_memory (env (k + j)) max_bytes linked (k + j) (vs ! j) = (TURBOWASM_OK, ms' ! (k + j))"
  using assms
proof (induction env max_bytes linked k vs ms arbitrary: j rule: allocate_memories_loop.induct)
  case (1 env max_bytes linked k memories)
  then show ?case by simp
next
  case (2 env max_bytes linked k v vs ms)
  obtain m where m: "allocate_memory (env k) max_bytes linked k v = (TURBOWASM_OK, m)"
      "allocate_memories_loop env max_bytes linked (Suc k) vs (ms[k := m]) = (TURBOWASM_OK, ms')"
    using 2(2) by (auto split: if_splits prod.splits)
  show ?case
  proof (cases j)
    case 0
    then show ?thesis using m allocate_loop_frame [OF m(2)] 2(3) by simp
  next
    case (Suc j')
    then show ?thesis using 2(1) [OF m(1) [symmetric] _ m(2)] 2(3,4) by simp
  qed
qed

text \<open>
  C37. Creating the memories of an instance from validated declarations, when it succeeds: there is one memory per declaration; a memory
  that is not imported is well formed, has the declared minimum size, is shared exactly when it is declared so, lies within the
  configured limit and is all zeros, and every imported one has a provider.
\<close>

theorem memory_allocation_correct:
  assumes "turbowasm_allocate_memories grant env inst memories = (TURBOWASM_OK, inst')" "list_all valid_limits memories" "memories \<noteq> []"
  shows "memory_count inst' = length memories \<and>
     (\<forall>k < length memories.
        if vmem_imported (memories ! k) then k < length (linked_memories inst) \<and> fst (linked_memories inst ! k) \<noteq> None
        else wf_memory (inst_memories inst' ! k) \<and> mem_pages (inst_memories inst' ! k) = limits_minimum (vmem_limits (memories ! k)) \<and>
          mem_shared (inst_memories inst' ! k) = vmem_shared (memories ! k) \<and>
          list_all (\<lambda>b. b = 0) (mem_data (inst_memories inst' ! k)))"
proof -
  obtain md ms where md: "inst_module inst = Some md"
      and l: "allocate_memories_loop env (max_linear_memory_bytes md) (linked_memories inst) 0 memories
           (replicate (length memories) cleared_memory) = (TURBOWASM_OK, ms)" and inst': "inst' = inst\<lparr>inst_memories := ms\<rparr>"
    using assms(1,3) by (auto simp: turbowasm_allocate_memories_def split: if_splits option.splits prod.splits)
  have "length ms = length memories" using allocate_loop_frame [OF l] by simp
  moreover have "valid_limits (memories ! k)" if "k < length memories" for k
    using assms(2) that by (simp add: list_all_length)
  ultimately show ?thesis
    using allocate_loop_ok [OF l] allocate_memory_wf inst' by (fastforce split: if_splits)
qed

definition generous :: storage_env where
  "generous = \<lparr>grant_data = (\<lambda>n. True), grant_lock = True, grant_mutex = True, grant_waiters = True, grant_condition = (\<lambda>n. True)\<rparr>"

lemma memory_allocation_correct_witness:
  "\<exists>inst'. turbowasm_allocate_memories True (\<lambda>k. generous) (sample_heap 7) (val_memories (sample_module False)) = (TURBOWASM_OK, inst') \<and>
     wf_memory (inst_memories inst' ! 0)"
proof -
  have "\<exists>inst'. turbowasm_allocate_memories True (\<lambda>k. generous) (sample_heap 7) (val_memories (sample_module False)) = (TURBOWASM_OK, inst')"
    by (simp add: turbowasm_allocate_memories_def sample_heap_def sample_module_def allocate_memory_def cleared_memory_def Let_def
        turbowasm_instance_memory_storage_init_def generous_def word_less_nat_alt unat_div)
  then show ?thesis
    using memory_allocation_correct [of True "\<lambda>k. generous" "sample_heap 7" "val_memories (sample_module False)"]
    by (fastforce simp: sample_module_def valid_limits_def)
qed

end
