(* ===== verification/TW_Sha256.thy ===== *)
theory TW_Sha256
  imports TW_Numeric_Bits "HOL-Library.Monad_Syntax"
begin

text \<open>
  The hash function of \<^verbatim>\<open>sha256.c\<close>: the streaming state, the compression of one block, the loop that cuts the
  input into blocks, and the closing blocks with the padding and the length.
\<close>

subsection \<open>State and words\<close>

record turbowasm_sha256_state =
  sha_h :: "u32 list"
  sha_total :: u64
  sha_block :: "u8 list"
  sha_used :: nat

definition rotr32 :: "u32 \<Rightarrow> nat \<Rightarrow> u32" where
  "rotr32 x n = drop_bit n x OR push_bit (32 - n) x"

definition read_be32 :: "u8 list \<Rightarrow> nat \<Rightarrow> u32" where
  "read_be32 p off =
     push_bit 24 (ucast (p ! off)) OR push_bit 16 (ucast (p ! (off + 1))) OR push_bit 8 (ucast (p ! (off + 2))) OR ucast (p ! (off + 3))"

definition write_be32 :: "u32 \<Rightarrow> u8 list" where
  "write_be32 v = [ucast (drop_bit 24 v), ucast (drop_bit 16 v), ucast (drop_bit 8 v), ucast v]"

text \<open>The table \<^verbatim>\<open>k\<close>, in the rows of two in which the source lists it.\<close>

definition sha_k :: "u32 list" where
  "sha_k = concat
     [[0x428a2f98, 0x71374491], [0xb5c0fbcf, 0xe9b5dba5], [0x3956c25b, 0x59f111f1], [0x923f82a4, 0xab1c5ed5],
      [0xd807aa98, 0x12835b01], [0x243185be, 0x550c7dc3], [0x72be5d74, 0x80deb1fe], [0x9bdc06a7, 0xc19bf174],
      [0xe49b69c1, 0xefbe4786], [0x0fc19dc6, 0x240ca1cc], [0x2de92c6f, 0x4a7484aa], [0x5cb0a9dc, 0x76f988da],
      [0x983e5152, 0xa831c66d], [0xb00327c8, 0xbf597fc7], [0xc6e00bf3, 0xd5a79147], [0x06ca6351, 0x14292967],
      [0x27b70a85, 0x2e1b2138], [0x4d2c6dfc, 0x53380d13], [0x650a7354, 0x766a0abb], [0x81c2c92e, 0x92722c85],
      [0xa2bfe8a1, 0xa81a664b], [0xc24b8b70, 0xc76c51a3], [0xd192e819, 0xd6990624], [0xf40e3585, 0x106aa070],
      [0x19a4c116, 0x1e376c08], [0x2748774c, 0x34b0bcb5], [0x391c0cb3, 0x4ed8aa4a], [0x5b9cca4f, 0x682e6ff3],
      [0x748f82ee, 0x78a5636f], [0x84c87814, 0x8cc70208], [0x90befffa, 0xa4506ceb], [0xbef9a3f7, 0xc67178f2]]"

subsection \<open>One block\<close>

text \<open>The second loop over the message schedule: \<open>n\<close> more words behind the words \<open>w\<close>.\<close>

fun sha_schedule :: "nat \<Rightarrow> u32 list \<Rightarrow> u32 list" where
  "sha_schedule 0 w = w"
| "sha_schedule (Suc n) w =
     (let i = length w;
          s0 = rotr32 (w ! (i - 15)) 7 XOR rotr32 (w ! (i - 15)) 18 XOR drop_bit 3 (w ! (i - 15));
          s1 = rotr32 (w ! (i - 2)) 17 XOR rotr32 (w ! (i - 2)) 19 XOR drop_bit 10 (w ! (i - 2)) in
      sha_schedule n (w @ [w ! (i - 16) + s0 + w ! (i - 7) + s1]))"

text \<open>One round with the constant and the schedule word of its index, on the working variables.\<close>

fun sha_round :: "u32 \<times> u32 \<Rightarrow> u32 \<times> u32 \<times> u32 \<times> u32 \<times> u32 \<times> u32 \<times> u32 \<times> u32 \<Rightarrow>
    u32 \<times> u32 \<times> u32 \<times> u32 \<times> u32 \<times> u32 \<times> u32 \<times> u32" where
  "sha_round (ki, wi) (a, b, c, d, e, f, g, h) =
     (let s1 = rotr32 e 6 XOR rotr32 e 11 XOR rotr32 e 25;
          ch = (e AND f) XOR (NOT e AND g);
          t1 = h + s1 + ch + ki + wi;
          s0 = rotr32 a 2 XOR rotr32 a 13 XOR rotr32 a 22;
          maj = (a AND b) XOR (a AND c) XOR (b AND c);
          t2 = s0 + maj in
      (t1 + t2, a, b, c, d + t1, e, f, g))"

definition sha_transform :: "turbowasm_sha256_state \<Rightarrow> u8 list \<Rightarrow> turbowasm_sha256_state" where
  "sha_transform s block =
     (let w = sha_schedule 48 (map (\<lambda>i. read_be32 block (i * 4)) [0..<16]);
          h = sha_h s in
      case fold sha_round (zip sha_k w) (h ! 0, h ! 1, h ! 2, h ! 3, h ! 4, h ! 5, h ! 6, h ! 7) of
        (a, b, c, d, e, f, g, hh) \<Rightarrow>
          s\<lparr>sha_h := [h ! 0 + a, h ! 1 + b, h ! 2 + c, h ! 3 + d, h ! 4 + e, h ! 5 + f, h ! 6 + g, h ! 7 + hh]\<rparr>)"

subsection \<open>Streaming\<close>

text \<open>The body of the loop of \<^verbatim>\<open>update\<close>, for the part that fits into the block.\<close>

definition sha_absorb :: "turbowasm_sha256_state \<Rightarrow> u8 list \<Rightarrow> turbowasm_sha256_state" where
  "sha_absorb s part =
     (let s1 = s\<lparr>sha_block := bytes_put (sha_block s) (sha_used s) part, sha_used := sha_used s + length part,
                 sha_total := sha_total s + of_nat (length part)\<rparr> in
      if sha_used s1 = 64 then (sha_transform s1 (sha_block s1))\<lparr>sha_used := 0\<rparr> else s1)"

text \<open>The loop would not end on a state whose block is full already.\<close>

partial_function (option) sha_update :: "turbowasm_sha256_state \<Rightarrow> u8 list \<Rightarrow> turbowasm_sha256_state option" where
  "sha_update s bytes =
     (if bytes = [] then Some s
      else
        let n = (if 64 - sha_used s > length bytes then length bytes else 64 - sha_used s) in
        sha_update (sha_absorb s (take n bytes)) (drop n bytes))"

definition sha_init :: turbowasm_sha256_state where
  "sha_init =
     \<lparr>sha_h = [0x6a09e667, 0xbb67ae85, 0x3c6ef372, 0xa54ff53a, 0x510e527f, 0x9b05688c, 0x1f83d9ab, 0x5be0cd19],
      sha_total = 0, sha_block = replicate 64 0, sha_used = 0\<rparr>"

text \<open>The end of \<^verbatim>\<open>turbowasm_sha256\<close>: the last block with the length, and the digest.\<close>

definition sha_last :: "turbowasm_sha256_state \<Rightarrow> u64 \<Rightarrow> u8 list" where
  "sha_last s bits =
     (let blk = bytes_put (sha_block s) (sha_used s) (replicate (56 - sha_used s) 0);
          blk' = fold (\<lambda>i b. b[63 - i := ucast (drop_bit (8 * i) bits)]) [0..<8] blk;
          s1 = sha_transform (s\<lparr>sha_block := blk'\<rparr>) blk' in
      concat (map (\<lambda>i. write_be32 (sha_h s1 ! i)) [0..<8]))"

definition sha_finish :: "turbowasm_sha256_state \<Rightarrow> u8 list" where
  "sha_finish s =
     (let bits = sha_total s * 8;
          s1 = s\<lparr>sha_block := (sha_block s)[sha_used s := 0x80], sha_used := sha_used s + 1\<rparr>;
          s2 = (if sha_used s1 > 56
                then let blk = bytes_put (sha_block s1) (sha_used s1) (replicate (64 - sha_used s1) 0) in
                     (sha_transform (s1\<lparr>sha_block := blk\<rparr>) blk)\<lparr>sha_used := 0\<rparr>
                else s1) in
      sha_last s2 bits)"

definition turbowasm_sha256 :: "u8 list \<Rightarrow> u8 list option" where
  "turbowasm_sha256 bytes = do { s \<leftarrow> sha_update sha_init bytes; Some (sha_finish s) }"

end
