(* ===== verification/TW_Sha256_Laws.thy ===== *)
theory TW_Sha256_Laws
  imports TW_Sha256 Complex_Main
begin

text \<open>
  The hash function against its standard (FIPS 180-4), which is defined on the whole padded message, with the
  constants as the fractional parts of roots of primes: the table of the source, the message schedule and the
  rounds agree with the standard, the streaming state stands for a prefix of the message, and the closing blocks
  are the padding.
\<close>

section \<open>The standard\<close>

text \<open>The hash function of FIPS 180-4, on the whole padded message.\<close>

definition Ch :: "u32 \<Rightarrow> u32 \<Rightarrow> u32 \<Rightarrow> u32" where "Ch x y z = (x AND y) XOR (NOT x AND z)"
definition Maj :: "u32 \<Rightarrow> u32 \<Rightarrow> u32 \<Rightarrow> u32" where "Maj x y z = (x AND y) XOR (x AND z) XOR (y AND z)"
definition Sigma0 :: "u32 \<Rightarrow> u32" where "Sigma0 x = word_rotr 2 x XOR word_rotr 13 x XOR word_rotr 22 x"
definition Sigma1 :: "u32 \<Rightarrow> u32" where "Sigma1 x = word_rotr 6 x XOR word_rotr 11 x XOR word_rotr 25 x"
definition sigma0 :: "u32 \<Rightarrow> u32" where "sigma0 x = word_rotr 7 x XOR word_rotr 18 x XOR drop_bit 3 x"
definition sigma1 :: "u32 \<Rightarrow> u32" where "sigma1 x = word_rotr 17 x XOR word_rotr 19 x XOR drop_bit 10 x"

text \<open>The number that four bytes denote, most significant byte first.\<close>

definition be_word :: "u8 list \<Rightarrow> u32" where
  "be_word bs = of_nat (foldl (\<lambda>n b. 256 * n + unat b) 0 bs)"

fun message_word :: "u8 list \<Rightarrow> nat \<Rightarrow> u32" where
  "message_word block t =
     (if t < 16 then be_word (take 4 (drop (4 * t) block))
      else sigma1 (message_word block (t - 2)) + message_word block (t - 7) + sigma0 (message_word block (t - 15)) +
        message_word block (t - 16))"

declare message_word.simps [simp del]

text \<open>
  The constants are the first 32 bits of the fractional parts of the cube roots of the first 64 primes, the initial
  value those of the square roots of the first eight.
\<close>

definition first_primes :: "int list" where
  "first_primes =
     [2, 3, 5, 7, 11, 13, 17, 19, 23, 29, 31, 37, 41, 43, 47, 53, 59, 61, 67, 71, 73, 79, 83, 89, 97, 101, 103, 107, 109, 113, 127, 131,
      137, 139, 149, 151, 157, 163, 167, 173, 179, 181, 191, 193, 197, 199, 211, 223, 227, 229, 233, 239, 241, 251, 257, 263, 269, 271,
      277, 281, 283, 293, 307, 311]"

definition fraction_bits :: "real \<Rightarrow> u32" where
  "fraction_bits x = of_int \<lfloor>2 ^ 32 * frac x\<rfloor>"

definition standard_k :: "nat \<Rightarrow> u32" where
  "standard_k t = fraction_bits (root 3 (of_int (first_primes ! t)))"

definition standard_h :: "u32 list" where
  "standard_h = map (\<lambda>t. fraction_bits (sqrt (of_int (first_primes ! t)))) [0..<8]"

text \<open>The rounds, by the index of the round.\<close>

fun standard_rounds :: "u8 list \<Rightarrow> nat \<Rightarrow> u32 \<times> u32 \<times> u32 \<times> u32 \<times> u32 \<times> u32 \<times> u32 \<times> u32 \<Rightarrow>
    u32 \<times> u32 \<times> u32 \<times> u32 \<times> u32 \<times> u32 \<times> u32 \<times> u32" where
  "standard_rounds block 0 v = v"
| "standard_rounds block (Suc t) v =
     (case standard_rounds block t v of (a, b, c, d, e, f, g, h) \<Rightarrow>
        let T1 = h + Sigma1 e + Ch e f g + standard_k t + message_word block t;
            T2 = Sigma0 a + Maj a b c in
        (T1 + T2, a, b, c, d + T1, e, f, g))"

definition compress :: "u8 list \<Rightarrow> u32 list \<Rightarrow> u32 list" where
  "compress block H =
     (case standard_rounds block 64 (H ! 0, H ! 1, H ! 2, H ! 3, H ! 4, H ! 5, H ! 6, H ! 7) of
        (a, b, c, d, e, f, g, h) \<Rightarrow> map2 (+) H [a, b, c, d, e, f, g, h])"

text \<open>A one bit, zeros up to a multiple of the block, and the length in bits as 64 bits.\<close>

definition padding :: "nat \<Rightarrow> u8 list" where
  "padding n = 0x80 # replicate (nat ((55 - int n) mod 64)) 0 @ map (\<lambda>i. of_nat (8 * n div 256 ^ (7 - i))) [0..<8]"

fun blocks :: "u8 list \<Rightarrow> u8 list list" where
  "blocks m = (if length m < 64 then [] else take 64 m # blocks (drop 64 m))"

declare blocks.simps [simp del]

definition sha256_standard :: "u8 list \<Rightarrow> u8 list" where
  "sha256_standard m =
     concat (map (\<lambda>w. map (\<lambda>i. of_nat (unat w div 256 ^ (3 - i))) [0..<4])
       (fold compress (blocks (m @ padding (length m))) standard_h))"

section \<open>Constants\<close>

lemma root_bits:
  assumes "(2 ^ 32 * i + k) ^ n \<le> p * 2 ^ (32 * n)" "p * 2 ^ (32 * n) < (2 ^ 32 * i + k + 1) ^ n" "k < 2 ^ 32" "0 < n"
  shows "fraction_bits (root n (real p)) = of_nat k"
proof -
  let ?x = "root n (real p)"
  have x: "0 \<le> ?x" "?x ^ n = real p" using assms(4) by (simp_all add: real_root_pow_pos2)
  then have e: "(2 ^ 32 * ?x) ^ n = real (p * 2 ^ (32 * n))" by (simp add: power_mult_distrib power_mult)
  have "real (2 ^ 32 * i + k) ^ n \<le> (2 ^ 32 * ?x) ^ n"
    unfolding e using assms(1) by (metis of_nat_le_iff of_nat_power)
  then have lo: "real (2 ^ 32 * i + k) \<le> 2 ^ 32 * ?x" using power_mono_iff [of _ "2 ^ 32 * ?x" n] x(1) assms(4) by simp
  have "(2 ^ 32 * ?x) ^ n < real (2 ^ 32 * i + k + 1) ^ n"
    unfolding e using assms(2) by (metis of_nat_less_iff of_nat_power)
  then have hi: "2 ^ 32 * ?x < real (2 ^ 32 * i + k + 1)" by (rule power_less_imp_less_base) simp
  have "\<lfloor>?x\<rfloor> = int i"
  proof (rule floor_unique)
    show "of_int (int i) \<le> ?x" using lo by simp
    have "real (2 ^ 32 * i + k + 1) \<le> 2 ^ 32 * (real i + 1)" using assms(3) by simp
    then show "?x < of_int (int i) + 1" using hi by simp
  qed
  then have f: "2 ^ 32 * frac ?x = 2 ^ 32 * ?x - 2 ^ 32 * real i" by (simp add: frac_def algebra_simps)
  have "\<lfloor>2 ^ 32 * frac ?x\<rfloor> = int k" unfolding f using lo hi by (intro floor_unique) simp_all
  then show ?thesis by (simp add: fraction_bits_def)
qed

text \<open>An integer root of each prime, in units of \<open>2 ^ - 32\<close>, as a check of the table.\<close>

definition root_check :: "nat \<Rightarrow> int \<Rightarrow> int \<Rightarrow> int \<Rightarrow> bool" where
  "root_check n p k i \<longleftrightarrow> (4294967296 * i + k) ^ n \<le> p * 4294967296 ^ n \<and> p * 4294967296 ^ n < (4294967296 * i + k + 1) ^ n"

fun integer_root :: "nat \<Rightarrow> int \<Rightarrow> int list \<Rightarrow> int" where
  "integer_root n p [] = 0" |
  "integer_root n p (i # is) = (if p < (i + 1) ^ n then i else integer_root n p is)"

definition roots_agree :: "nat \<Rightarrow> int list \<Rightarrow> u32 list \<Rightarrow> bool" where
  "roots_agree n ps ks \<longleftrightarrow> list_all2 (\<lambda>p k. root_check n p (uint k) (integer_root n p [1, 2, 3, 4, 5, 6])) ps ks"

lemma roots_agree_bits:
  assumes "roots_agree n ps ks" "t < length ks" "0 \<le> ps ! t" "0 < n"
  shows "fraction_bits (root n (of_int (ps ! t))) = ks ! t"
proof -
  define p where "p = nat (ps ! t)"
  have p: "ps ! t = int p" using assms(3) by (simp add: p_def)
  have "length ps = length ks" using assms(1) by (auto simp: roots_agree_def dest: list_all2_lengthD)
  then have j: "root_check n (int p) (uint (ks ! t)) (integer_root n (int p) [1, 2, 3, 4, 5, 6])" (is "root_check _ _ _ ?j")
    using assms(1,2) unfolding roots_agree_def p [symmetric] by (auto simp: list_all2_conv_all_nth)
  define i where "i = nat ?j"
  have i: "?j = int i" by (auto simp: i_def)
  have e: "(2 :: int) ^ (n * 32) = 4294967296 ^ n" by (simp add: power_mult mult.commute [of n])
  have "int ((2 ^ 32 * i + unat (ks ! t)) ^ n) \<le> int (p * 2 ^ (32 * n))"
       "int (p * 2 ^ (32 * n)) < int ((2 ^ 32 * i + unat (ks ! t) + 1) ^ n)"
    using j unfolding root_check_def i uint_nat by (simp_all add: e ac_simps)
  then have "fraction_bits (root n (real p)) = of_nat (unat (ks ! t))"
    using unat_less_exp [of "ks ! t"] assms(4) unfolding of_nat_le_iff of_nat_less_iff by (intro root_bits) simp_all
  then show ?thesis by (simp add: p)
qed

lemma constants_agree: "roots_agree 3 first_primes sha_k"
  by code_simp

lemma initial_agree: "roots_agree 2 (take 8 first_primes) (sha_h sha_init)"
  by code_simp

lemma first_primes_positive: "t < 64 \<Longrightarrow> 0 \<le> first_primes ! t"
proof -
  have "list_all (\<lambda>p. 0 \<le> p) first_primes" "length first_primes = 64" by (simp_all add: first_primes_def)
  then show "t < 64 \<Longrightarrow> 0 \<le> first_primes ! t" by (simp add: list_all_length)
qed

lemma length_sha_k: "length sha_k = 64"
  by (simp add: sha_k_def)

lemma sha_k_standard: "t < 64 \<Longrightarrow> sha_k ! t = standard_k t"
  using roots_agree_bits [OF constants_agree, of t] first_primes_positive [of t] by (simp add: standard_k_def length_sha_k)

lemma sha_init_standard: "sha_h sha_init = standard_h"
proof (rule nth_equalityI)
  have l: "length (sha_h sha_init) = 8" by (simp add: sha_init_def)
  then show "length (sha_h sha_init) = length standard_h" by (simp add: standard_h_def)
  fix t assume "t < length (sha_h sha_init)"
  then have t: "t < 8" by (simp add: l)
  then show "sha_h sha_init ! t = standard_h ! t"
    using roots_agree_bits [OF initial_agree, of t] first_primes_positive [of t] by (simp add: sqrt_def standard_h_def l)
qed

section \<open>One block\<close>

lemma rotr32_rotate: "0 < n \<Longrightarrow> n < 32 \<Longrightarrow> rotr32 x n = word_rotr n x"
  using rotate_right [of n x] by (simp add: rotr32_def)

lemma read_be32_word:
  assumes "off + 4 \<le> length p"
  shows "read_be32 p off = be_word (take 4 (drop off p))"
proof -
  have l: "take 4 (drop off p) = [p ! off, p ! (off + 1), p ! (off + 2), p ! (off + 3)]"
    using assms by (intro nth_equalityI) (auto simp: less_Suc_eq numeral_eq_Suc nth_Cons')
  have n: "foldl (\<lambda>n b. 256 * n + unat b) 0 (take 4 (drop off p)) = le_nat [p ! (off + 3), p ! (off + 2), p ! (off + 1), p ! off]"
    unfolding l by simp
  show ?thesis
    unfolding be_word_def n
  proof (rule bit_word_eqI)
    fix j assume j: "j < LENGTH(32)"
    define q r where "q = j div 8" and "r = j mod 8"
    have qr: "j = 8 * q + r" "r < 8" "q < 4" using j by (simp_all add: q_def r_def)
    then have "q = 0 \<or> q = 1 \<or> q = 2 \<or> q = 3" by linarith
    moreover have "(16 + r) mod 8 = r" "(24 + r) mod 8 = r" using qr(2) by presburger+
    ultimately show "bit (read_be32 p off) j \<longleftrightarrow> bit (of_nat (le_nat [p ! (off + 3), p ! (off + 2), p ! (off + 1), p ! off]) :: u32) j"
      using qr(2) unfolding qr(1) by (elim disjE) (auto simp: read_be32_def bit_simps bit_le_nat simp del: le_nat.simps dest: bit_imp_le_length)
  qed
qed

lemma sha_schedule_words:
  assumes "16 \<le> m"
  shows "sha_schedule n (map (message_word block) [0..<m]) = map (message_word block) [0..<m + n]"
  using assms
proof (induction n arbitrary: m)
  case 0
  then show ?case by simp
next
  case (Suc n)
  have "message_word block m = map (message_word block) [0..<m] ! (m - 16) +
      (rotr32 (map (message_word block) [0..<m] ! (m - 15)) 7 XOR rotr32 (map (message_word block) [0..<m] ! (m - 15)) 18 XOR
       drop_bit 3 (map (message_word block) [0..<m] ! (m - 15))) +
      map (message_word block) [0..<m] ! (m - 7) +
      (rotr32 (map (message_word block) [0..<m] ! (m - 2)) 17 XOR rotr32 (map (message_word block) [0..<m] ! (m - 2)) 19 XOR
       drop_bit 10 (map (message_word block) [0..<m] ! (m - 2)))"
    using Suc.prems by (subst message_word.simps) (simp add: rotr32_rotate sigma0_def sigma1_def algebra_simps)
  then have "sha_schedule (Suc n) (map (message_word block) [0..<m]) = sha_schedule n (map (message_word block) [0..<Suc m])"
    by (simp add: Let_def)
  then show ?case using Suc.IH [of "Suc m"] Suc.prems by simp
qed

lemma sha_rounds:
  assumes "t \<le> 64"
  shows "fold sha_round (take t (zip sha_k (map (message_word block) [0..<64]))) v = standard_rounds block t v"
  using assms
proof (induction t)
  case 0
  then show ?case by simp
next
  case (Suc t)
  have l: "length sha_k = 64" by (simp add: sha_k_def)
  have "take (Suc t) (zip sha_k (map (message_word block) [0..<64])) =
      take t (zip sha_k (map (message_word block) [0..<64])) @ [(sha_k ! t, message_word block t)]"
    using Suc.prems l by (simp add: take_Suc_conv_app_nth)
  moreover obtain a b c d e f g h where "standard_rounds block t v = (a, b, c, d, e, f, g, h)" by (metis surj_pair)
  ultimately show ?case
    using Suc
    by (simp add: sha_k_standard Let_def rotr32_rotate Sigma0_def Sigma1_def Ch_def Maj_def add.assoc)
qed

lemma sha_transform_compress:
  assumes "length block = 64" "length (sha_h s) = 8"
  shows "sha_transform s block = s\<lparr>sha_h := compress block (sha_h s)\<rparr>"
proof -
  have w: "map (\<lambda>i. read_be32 block (i * 4)) [0..<16] = map (message_word block) [0..<16]"
    using assms(1) by (intro map_cong) (auto simp: read_be32_word message_word.simps mult.commute)
  have r: "fold sha_round (zip sha_k (map (message_word block) [0..<64])) v = standard_rounds block 64 v" for v
    using sha_rounds [of 64 block v] by (simp add: sha_k_def del: upt_rec_numeral)
  obtain h0 h1 h2 h3 h4 h5 h6 h7 where h: "sha_h s = [h0, h1, h2, h3, h4, h5, h6, h7]"
    using assms(2) by (auto simp: numeral_eq_Suc length_Suc_conv)
  show ?thesis
    unfolding sha_transform_def Let_def w compress_def
    using sha_schedule_words [of 16 48 block] r
    by (simp add: h split: prod.split del: upt_rec_numeral)
qed

section \<open>Streaming\<close>

definition wf_sha :: "turbowasm_sha256_state \<Rightarrow> bool" where
  "wf_sha s \<longleftrightarrow> length (sha_h s) = 8 \<and> length (sha_block s) = 64 \<and> sha_used s < 64"

definition pending :: "turbowasm_sha256_state \<Rightarrow> u8 list" where
  "pending s = take (sha_used s) (sha_block s)"

lemma length_compress [simp]: "length H = 8 \<Longrightarrow> length (compress block H) = 8"
  by (simp add: compress_def split: prod.split)

lemma blocks_short [simp]: "length m < 64 \<Longrightarrow> blocks m = []"
  by (subst blocks.simps) simp

lemma blocks_block: "length b = 64 \<Longrightarrow> blocks (b @ m) = b # blocks m"
  by (subst blocks.simps) simp

lemma sha_absorb_spec:
  assumes "wf_sha s" "sha_used s + length part \<le> 64" "part \<noteq> []"
  shows "wf_sha (sha_absorb s part)" "sha_total (sha_absorb s part) = sha_total s + of_nat (length part)"
    "if sha_used s + length part = 64
     then sha_h (sha_absorb s part) = compress (pending s @ part) (sha_h s) \<and> pending (sha_absorb s part) = [] \<and> length (pending s @ part) = 64
     else sha_h (sha_absorb s part) = sha_h s \<and> pending (sha_absorb s part) = pending s @ part"
proof -
  let ?s1 = "s\<lparr>sha_block := bytes_put (sha_block s) (sha_used s) part, sha_used := sha_used s + length part,
                 sha_total := sha_total s + of_nat (length part)\<rparr>"
  have l: "length (sha_block ?s1) = 64" "length (sha_h ?s1) = 8" "length (pending s) = sha_used s"
    using assms by (simp_all add: wf_sha_def pending_def)
  have b: "take (sha_used s + length part) (sha_block ?s1) = pending s @ part"
    using assms by (simp add: wf_sha_def bytes_put_def pending_def)
  then have f: "sha_block ?s1 = pending s @ part" if "sha_used s + length part = 64"
    using l(1) that by (metis order_refl take_all)
  show "wf_sha (sha_absorb s part)" "sha_total (sha_absorb s part) = sha_total s + of_nat (length part)"
    using assms l by (simp_all add: sha_absorb_def Let_def sha_transform_compress wf_sha_def)
  show "if sha_used s + length part = 64
     then sha_h (sha_absorb s part) = compress (pending s @ part) (sha_h s) \<and> pending (sha_absorb s part) = [] \<and> length (pending s @ part) = 64
     else sha_h (sha_absorb s part) = sha_h s \<and> pending (sha_absorb s part) = pending s @ part"
    using l assms(1) b f by (auto simp: sha_absorb_def Let_def sha_transform_compress wf_sha_def pending_def)
qed

text \<open>What the loop leaves: the complete blocks are compressed, the rest is pending.\<close>

lemma sha_update_spec:
  assumes "wf_sha s"
  shows "\<exists>s' full. sha_update s bytes = Some s' \<and> wf_sha s' \<and> sha_total s' = sha_total s + of_nat (length bytes) \<and>
    pending s @ bytes = full @ pending s' \<and> 64 dvd length full \<and>
    (\<forall>rest. fold compress (blocks (pending s @ bytes @ rest)) (sha_h s) = fold compress (blocks (pending s' @ rest)) (sha_h s'))"
  using assms
proof (induction "length bytes" arbitrary: s bytes rule: less_induct)
  case less
  show ?case
  proof (cases "bytes = []")
    case True
    then show ?thesis
      using less.prems by (subst sha_update.simps) (auto intro!: exI [of _ "[]"])
  next
    case False
    define n where "n = (if 64 - sha_used s > length bytes then length bytes else 64 - sha_used s)"
    define s2 where "s2 = sha_absorb s (take n bytes)"
    have n: "0 < n" "n \<le> length bytes" "sha_used s + n \<le> 64" using less.prems False by (auto simp: wf_sha_def n_def)
    have step: "sha_update s bytes = sha_update s2 (drop n bytes)"
      using False by (subst sha_update.simps) (simp add: Let_def n_def s2_def)
    have "sha_used s + length (take n bytes) \<le> 64" "take n bytes \<noteq> []" using n by auto
    note a = sha_absorb_spec [OF less.prems this, folded s2_def]
    have glue: "take n bytes @ drop n bytes @ rest = bytes @ rest" for rest by (metis append.assoc append_take_drop_id)
    have blk: "\<exists>b. pending s @ bytes = b @ pending s2 @ drop n bytes \<and> 64 dvd length b \<and>
        (\<forall>rest. fold compress (blocks (pending s @ bytes @ rest)) (sha_h s) = fold compress (blocks (pending s2 @ drop n bytes @ rest)) (sha_h s2))"
    proof (cases "sha_used s + length (take n bytes) = 64")
      case True
      have "blocks (pending s @ bytes @ rest) = (pending s @ take n bytes) # blocks (drop n bytes @ rest)" for rest
        using a(3) True blocks_block [of "pending s @ take n bytes" "drop n bytes @ rest"] by (metis append.assoc append_take_drop_id)
      then show ?thesis
        using a(3) True by (intro exI [of _ "pending s @ take n bytes"]) simp
    next
      case False
      then show ?thesis using a(3) by (intro exI [of _ "[]"]) (simp add: glue)
    qed
    have lt: "length (drop n bytes) < length bytes" using n by simp
    obtain s' full where "sha_update s2 (drop n bytes) = Some s'" "wf_sha s'" "sha_total s' = sha_total s2 + of_nat (length (drop n bytes))"
        "pending s2 @ drop n bytes = full @ pending s'" "64 dvd length full"
        "\<forall>rest. fold compress (blocks (pending s2 @ drop n bytes @ rest)) (sha_h s2) = fold compress (blocks (pending s' @ rest)) (sha_h s')"
      using less.hyps [OF lt a(1)] by blast
    moreover have "of_nat (length (take n bytes)) + of_nat (length (drop n bytes)) = (of_nat (length bytes) :: u64)"
      using n(2) by (simp flip: of_nat_add)
    ultimately show ?thesis
      using blk step a(2) by (fastforce simp: add.assoc)
  qed
qed

section \<open>The last blocks\<close>

definition be_length :: "u64 \<Rightarrow> u8 list" where
  "be_length bits = map (\<lambda>i. ucast (drop_bit (8 * (7 - i)) bits)) [0..<8]"

lemma write_length:
  assumes "length blk = 64"
  shows "fold (\<lambda>i b. b[63 - i := f i]) [0..<8] blk = take 56 blk @ map (\<lambda>i. f (7 - i)) [0..<8]"
proof (rule nth_equalityI)
  show "length (fold (\<lambda>i b. b[63 - i := f i]) [0..<8] blk) = length (take 56 blk @ map (\<lambda>i. f (7 - i)) [0..<8])"
    using assms by (simp add: upt8)
  fix j assume "j < length (fold (\<lambda>i b. b[63 - i := f i]) [0..<8] blk)"
  then have j: "j < 64" using assms by (simp add: upt8)
  show "fold (\<lambda>i b. b[63 - i := f i]) [0..<8] blk ! j = (take 56 blk @ map (\<lambda>i. f (7 - i)) [0..<8]) ! j"
  proof (cases "j < 56")
    case True
    then show ?thesis using assms by (simp add: upt8 nth_append nth_list_update)
  next
    case False
    then have "j \<in> {56, 57, 58, 59, 60, 61, 62, 63}" using j by auto
    then show ?thesis using assms by (auto simp: upt8 nth_append)
  qed
qed

lemma length_fold_compress: "length H = 8 \<Longrightarrow> length (fold compress bs H) = 8"
  by (induction bs arbitrary: H) simp_all

lemma sha_last_spec:
  assumes "length (sha_h s) = 8" "length (sha_block s) = 64" "sha_used s \<le> 56"
  shows "sha_last s bits = concat (map write_be32 (fold compress (blocks (pending s @ replicate (56 - sha_used s) 0 @ be_length bits)) (sha_h s)))"
proof -
  let ?blk = "bytes_put (sha_block s) (sha_used s) (replicate (56 - sha_used s) 0)"
  let ?last = "pending s @ replicate (56 - sha_used s) 0 @ be_length bits"
  have l: "length ?blk = 64" "take 56 ?blk = pending s @ replicate (56 - sha_used s) 0"
    using assms by (simp_all add: pending_def bytes_put_def)
  have w: "fold (\<lambda>i b. b[63 - i := ucast (drop_bit (8 * i) bits)]) [0..<8] ?blk = ?last"
    using write_length [OF l(1), of "\<lambda>i. ucast (drop_bit (8 * i) bits)"] l(2) by (simp add: be_length_def)
  have len: "length ?last = 64" using assms by (simp add: pending_def be_length_def)
  then have b: "blocks ?last = [?last]" using blocks_block [of ?last "[]"] by simp
  have out: "map (\<lambda>i. write_be32 (H ! i)) [0..<8] = map write_be32 H" if "length H = 8" for H
    using that map_nth [of H] by (metis list.map_comp comp_def map_cong)
  show ?thesis
    unfolding sha_last_def Let_def w
    using assms(1) len by (simp add: sha_transform_compress b out)
qed

lemma sha_finish_spec:
  assumes "wf_sha s"
  defines "z \<equiv> if sha_used s < 56 then 55 - sha_used s else 119 - sha_used s"
  shows "sha_finish s = concat (map write_be32
     (fold compress (blocks (pending s @ 0x80 # replicate z 0 @ be_length (sha_total s * 8))) (sha_h s)))"
proof -
  let ?s1 = "s\<lparr>sha_block := (sha_block s)[sha_used s := 0x80], sha_used := sha_used s + 1\<rparr>"
  have l: "length (sha_block s) = 64" "length (sha_h s) = 8" "length (pending s) = sha_used s" "sha_used s < 64"
    using assms(1) by (simp_all add: wf_sha_def pending_def)
  have one: "(sha_block s)[sha_used s := 0x80] = pending s @ 0x80 # drop (Suc (sha_used s)) (sha_block s)"
    using l(1,4) by (simp add: pending_def upd_conv_take_nth_drop)
  have "pending ?s1 = take (Suc (sha_used s)) ((sha_block s)[sha_used s := 0x80])" by (simp add: pending_def)
  then have p1: "pending ?s1 = pending s @ [0x80]" unfolding one using l(3) by simp
  show ?thesis
  proof (cases "sha_used s < 56")
    case True
    then show ?thesis
      using sha_last_spec [of ?s1 "sha_total s * 8"] l p1 by (simp add: sha_finish_def Let_def z_def)
  next
    case False
    let ?blk = "bytes_put (sha_block ?s1) (sha_used ?s1) (replicate (64 - sha_used ?s1) 0)"
    let ?s2 = "(sha_transform (?s1\<lparr>sha_block := ?blk\<rparr>) ?blk)\<lparr>sha_used := 0\<rparr>"
    define B where "B = pending s @ 0x80 # replicate (63 - sha_used s) 0"
    have blk: "?blk = B" using l by (simp add: bytes_put_def one B_def)
    have B: "length B = 64" using l by (simp add: B_def)
    define S where "S = s\<lparr>sha_block := B, sha_h := compress B (sha_h s), sha_used := 0\<rparr>"
    have t: "?s2 = S"
      unfolding blk S_def using l B by (subst sha_transform_compress) simp_all
    have "sha_finish s = sha_last ?s2 (sha_total s * 8)" using False by (simp add: sha_finish_def Let_def)
    then have fin: "sha_finish s = sha_last S (sha_total s * 8)" unfolding t .
    have "replicate z (0 :: u8) = replicate (63 - sha_used s) 0 @ replicate 56 0"
      using False l(4) by (simp add: z_def flip: replicate_add)
    then have "blocks (pending s @ 0x80 # replicate z 0 @ be_length (sha_total s * 8)) = B # blocks (replicate 56 0 @ be_length (sha_total s * 8))"
      using blocks_block [OF B, of "replicate 56 0 @ be_length (sha_total s * 8)"] by (simp add: B_def)
    then show ?thesis
      using sha_last_spec [of S "sha_total s * 8"] l B by (simp add: fin S_def pending_def)
  qed
qed

section \<open>The whole digest\<close>

lemma byte_of_word:
  fixes v :: "'a :: len word"
  assumes "8 * k + 8 \<le> LENGTH('a)"
  shows "ucast (drop_bit (8 * k) v) = (of_nat (unat v div 256 ^ k) :: u8)"
proof (rule bit_word_eqI)
  fix j assume "j < LENGTH(8)"
  moreover have "(256 :: nat) ^ k = 2 ^ (8 * k)" by (simp add: power_mult)
  ultimately show "bit (ucast (drop_bit (8 * k) v) :: u8) j \<longleftrightarrow> bit (of_nat (unat v div 256 ^ k) :: u8) j"
    using assms by (simp add: bit_simps drop_bit_eq_div [symmetric])
qed

lemma be_length_standard: "be_length (of_nat n * 8) = map (\<lambda>i. of_nat (8 * n div 256 ^ (7 - i))) [0..<8]"
  unfolding be_length_def
proof (intro map_cong refl bit_word_eqI)
  fix i j assume i: "i \<in> set [0..<8]" and j: "j < LENGTH(8)"
  have lt: "8 * (7 - i) + j < 64" using i j by auto
  have "(of_nat n * 8 :: u64) = of_nat (8 * n)" by simp
  moreover have "(256 :: nat) ^ (7 - i) = 2 ^ (8 * (7 - i))" by (simp add: power_mult)
  ultimately show "bit (ucast (drop_bit (8 * (7 - i)) (of_nat n * 8 :: u64)) :: u8) j \<longleftrightarrow> bit (of_nat (8 * n div 256 ^ (7 - i)) :: u8) j"
    using i j lt by (simp add: bit_simps drop_bit_eq_div [symmetric] del: of_nat_mult)
qed

lemma write_be32_standard: "write_be32 w = map (\<lambda>i. of_nat (unat w div 256 ^ (3 - i))) [0..<4]"
proof -
  have "[0..<4] = [0, 1, 2, 3 :: nat]" by code_simp
  then show ?thesis
    using byte_of_word [of 1 w] byte_of_word [of 2 w] byte_of_word [of 3 w] by (simp add: write_be32_def)
qed

text \<open>
  C10. The digest is the one of FIPS 180-4 for every message: the streaming buffer, its padding and the length
  field agree with compressing the whole padded message block by block.
\<close>

theorem sha256_correct: "turbowasm_sha256 m = Some (sha256_standard m)"
proof -
  have "wf_sha sha_init" "pending sha_init = []" "sha_total sha_init = 0" by (simp_all add: wf_sha_def pending_def sha_init_def)
  then obtain s full where s: "sha_update sha_init m = Some s" "wf_sha s" "sha_total s = of_nat (length m)"
      "m = full @ pending s" "64 dvd length full"
      "\<And>rest. fold compress (blocks (m @ rest)) (sha_h sha_init) = fold compress (blocks (pending s @ rest)) (sha_h s)"
    using sha_update_spec [of sha_init m] by auto
  have u: "length (pending s) = sha_used s" "sha_used s < 64" using s(2) by (simp_all add: wf_sha_def pending_def)
  obtain k where "length full = 64 * k" using s(5) by (auto elim: dvdE)
  then have "length m = 64 * k + sha_used s" using s(4) u(1) by (metis length_append)
  then have z: "nat ((55 - int (length m)) mod 64) = (if sha_used s < 56 then 55 - sha_used s else 119 - sha_used s)"
    using u(2) mod_mult_self2 [of "55 - int (sha_used s)" 64 "- int k"] mod_add_self2 [of "55 - int (sha_used s)" 64]
    by (auto simp: algebra_simps)
  have "sha_finish s = sha256_standard m"
    unfolding sha_finish_spec [OF s(2)] sha256_standard_def write_be32_standard [symmetric] s(6) [unfolded sha_init_standard] padding_def z s(3) be_length_standard
    by simp
  then show ?thesis using s(1) by (simp add: turbowasm_sha256_def)
qed

end
