(* ===== verification/TW_String.thy ===== *)
theory TW_String
  imports TW_Memory
begin

text \<open>
  The strings of \<^verbatim>\<open>component_string.c\<close>: scanning and encoding of code points, the measure of a string that the host
  owns, lifting a string out of a guest memory, and lowering it into memory that the guest allocates.

  The reallocation function of the guest is a field of the call's memory: it takes and returns the instances, since
  it runs guest code. The enumerations are datatypes, so the tests that reject other values have nothing to reject.
\<close>

subsection \<open>Types\<close>

datatype turbowasm_component_pointer_type = TURBOWASM_COMPONENT_POINTER_I32 | TURBOWASM_COMPONENT_POINTER_I64

datatype turbowasm_component_string_encoding =
    TURBOWASM_COMPONENT_STRING_UTF8 | TURBOWASM_COMPONENT_STRING_UTF16 | TURBOWASM_COMPONENT_STRING_LATIN1_UTF16

datatype turbowasm_component_string_origin =
    TURBOWASM_COMPONENT_STRING_ORIGIN_UTF8 | TURBOWASM_COMPONENT_STRING_ORIGIN_UTF16
  | TURBOWASM_COMPONENT_STRING_ORIGIN_LATIN1 | TURBOWASM_COMPONENT_STRING_ORIGIN_COMPACT_UTF16

text \<open>A string that the host owns; its size is the length of its bytes.\<close>

record turbowasm_component_owned_string =
  string_data :: "u8 list"
  string_origin :: turbowasm_component_string_origin

text \<open>
  An action on the instances ends with a status or a value and leaves a new heap; an action that does not return is
  \<open>None\<close>. The statements behind an action run only when it ended well.
\<close>

type_synonym 'a guest_action = "instance_heap \<Rightarrow> (instance_heap \<times> (turbowasm_status + 'a)) option"

definition guest_return :: "'a \<Rightarrow> 'a guest_action" where
  "guest_return a = (\<lambda>h. Some (h, Inr a))"

definition guest_fail :: "turbowasm_status \<Rightarrow> 'a guest_action" where
  "guest_fail status = (\<lambda>h. Some (h, Inl status))"

definition guest_then :: "'a guest_action \<Rightarrow> ('a \<Rightarrow> 'b guest_action) \<Rightarrow> 'b guest_action" where
  "guest_then m f = (\<lambda>h. case m h of
     None \<Rightarrow> None
   | Some (h', Inl status) \<Rightarrow> Some (h', Inl status)
   | Some (h', Inr a) \<Rightarrow> f a h')"

text \<open>The memory of a call. The reallocation function of the guest takes the old region, an alignment and the new size.\<close>

record turbowasm_component_canonical_memory =
  canon_instance :: addr
  canon_memory_index :: nat
  pointer_type :: turbowasm_component_pointer_type
  string_encoding :: turbowasm_component_string_encoding
  guest_realloc :: "(u64 \<Rightarrow> u64 \<Rightarrow> u64 \<Rightarrow> u64 \<Rightarrow> u64 guest_action) option"

record string_measure =
  measure_scalars :: nat
  utf16_units :: nat
  ascii_prefix :: nat
  latin1_prefix :: nat
  latin1_prefix_bytes :: nat
  measure_latin1 :: bool

record guest_string =
  guest_pointer :: u64
  guest_capacity :: u64

abbreviation TW_STRING_MAX_BYTES :: nat where "TW_STRING_MAX_BYTES \<equiv> 2 ^ 28 - 1"

subsection \<open>Code points\<close>

definition turbowasm_component_string_encoding_valid :: "turbowasm_component_string_encoding \<Rightarrow> bool" where
  "turbowasm_component_string_encoding_valid encoding \<longleftrightarrow>
     encoding = TURBOWASM_COMPONENT_STRING_UTF8 \<or> encoding = TURBOWASM_COMPONENT_STRING_UTF16 \<or>
     encoding = TURBOWASM_COMPONENT_STRING_LATIN1_UTF16"

definition memory_valid :: "turbowasm_component_canonical_memory \<Rightarrow> bool" where
  "memory_valid memory \<longleftrightarrow>
     (pointer_type memory = TURBOWASM_COMPONENT_POINTER_I32 \<or> pointer_type memory = TURBOWASM_COMPONENT_POINTER_I64) \<and>
     turbowasm_component_string_encoding_valid (string_encoding memory)"

definition utf16_tag :: "turbowasm_component_canonical_memory \<Rightarrow> u64" where
  "utf16_tag memory = (if pointer_type memory = TURBOWASM_COMPONENT_POINTER_I64 then push_bit 63 1 else push_bit 31 1)"

definition scalar_valid :: "u32 \<Rightarrow> bool" where
  "scalar_valid scalar \<longleftrightarrow> scalar < 0x110000 \<and> (scalar < 0xd800 \<or> scalar \<ge> 0xe000)"

definition read_utf16 :: "u8 list \<Rightarrow> nat \<Rightarrow> u32" where
  "read_utf16 p off = ucast (p ! off) OR push_bit 8 (ucast (p ! (off + 1)))"

text \<open>The continuation bytes of a code point: \<open>trailing\<close> of them from the cursor.\<close>

fun utf8_trailing :: "u8 list \<Rightarrow> nat \<Rightarrow> nat \<Rightarrow> u32 \<Rightarrow> (u32 \<times> nat) option" where
  "utf8_trailing bytes cursor 0 scalar = Some (scalar, cursor)"
| "utf8_trailing bytes cursor (Suc trailing) scalar =
     (let byte = bytes ! cursor in
      if byte AND 0xc0 \<noteq> 0x80 then None
      else utf8_trailing bytes (cursor + 1) trailing (push_bit 6 scalar OR ucast (byte AND 0x3f)))"

definition next_utf8 :: "u8 list \<Rightarrow> nat \<Rightarrow> nat \<Rightarrow> (u32 \<times> nat) option" where
  "next_utf8 bytes limit cursor =
     (let scalar = ucast (bytes ! cursor) :: u32; cursor' = cursor + 1;
          rest = (\<lambda>trailing minimum scalar.
            if limit - cursor' < trailing then None
            else case utf8_trailing bytes cursor' trailing scalar of
                None \<Rightarrow> None
              | Some (scalar', cursor'') \<Rightarrow> if scalar' < minimum then None else Some (scalar', cursor'')) in
      if scalar \<ge> 0x80
      then if scalar \<ge> 0xc0 \<and> scalar < 0xe0 then rest 1 0x80 (scalar AND 0x1f)
           else if scalar \<ge> 0xe0 \<and> scalar < 0xf0 then rest 2 0x800 (scalar AND 0x0f)
           else if scalar \<ge> 0xf0 \<and> scalar < 0xf8 then rest 3 0x10000 (scalar AND 0x07)
           else None
      else Some (scalar, cursor'))"

definition next_utf16 :: "u8 list \<Rightarrow> nat \<Rightarrow> nat \<Rightarrow> (u32 \<times> nat) option" where
  "next_utf16 bytes limit cursor =
     (if limit - cursor < 2 then None
      else
        let scalar = read_utf16 bytes cursor; cursor' = cursor + 2 in
        if scalar \<ge> 0xd800 \<and> scalar < 0xdc00
        then if limit - cursor' < 2 then None
             else
               let low = read_utf16 bytes cursor' in
               if low < 0xdc00 \<or> low \<ge> 0xe000 then None
               else Some (0x10000 + push_bit 10 (scalar - 0xd800) + (low - 0xdc00), cursor' + 2)
        else Some (scalar, cursor'))"

definition next_scalar :: "u8 list \<Rightarrow> nat \<Rightarrow> nat \<Rightarrow> turbowasm_component_string_origin \<Rightarrow> (u32 \<times> nat) option" where
  "next_scalar bytes limit offset origin =
     (if offset \<ge> limit then None
      else if origin = TURBOWASM_COMPONENT_STRING_ORIGIN_LATIN1 then Some (ucast (bytes ! offset), offset + 1)
      else case (if origin \<noteq> TURBOWASM_COMPONENT_STRING_ORIGIN_UTF8 then next_utf16 bytes limit offset else next_utf8 bytes limit offset) of
          None \<Rightarrow> None
        | Some (scalar, cursor) \<Rightarrow> if scalar_valid scalar then Some (scalar, cursor) else None)"

text \<open>The bytes of a code point; the loop fills them from the last one.\<close>

fun utf8_tail :: "nat \<Rightarrow> u32 \<Rightarrow> u8 list \<Rightarrow> u32 \<times> u8 list" where
  "utf8_tail 0 scalar bytes = (scalar, bytes)"
| "utf8_tail (Suc i) scalar bytes = utf8_tail i (drop_bit 6 scalar) (ucast (0x80 OR (scalar AND 0x3f)) # bytes)"

definition encode_utf8 :: "u32 \<Rightarrow> u8 list" where
  "encode_utf8 scalar =
     (if scalar < 0x80 then [ucast scalar]
      else
        let count = (if scalar < 0x800 then 2 else if scalar < 0x10000 then 3 else 4 :: nat);
            (rest, bytes) = utf8_tail (count - 1) scalar [] in
        ucast ((if count = 2 then 0xc0 else if count = 3 then 0xe0 else 0xf0) OR rest) # bytes)"

definition encode_utf16 :: "u32 \<Rightarrow> u8 list" where
  "encode_utf16 scalar =
     (if scalar < 0x10000 then [ucast scalar, ucast (drop_bit 8 scalar)]
      else
        let s = scalar - 0x10000; high = 0xd800 + drop_bit 10 s; low = 0xdc00 + (s AND 0x3ff) in
        [ucast high, ucast (drop_bit 8 high), ucast low, ucast (drop_bit 8 low)])"

subsection \<open>Progress of the scan\<close>

lemma utf8_trailing_cursor: "utf8_trailing bytes cursor n scalar = Some (s, c) \<Longrightarrow> c = cursor + n"
  by (induction n arbitrary: cursor scalar) (simp, fastforce simp: Let_def split: if_splits)

lemma next_scalar_forward: "next_scalar bytes limit offset origin = Some (s, c) \<Longrightarrow> offset < c \<and> c \<le> limit"
  by (auto simp: next_scalar_def next_utf8_def next_utf16_def Let_def dest: utf8_trailing_cursor split: if_splits option.splits)

subsection \<open>Measuring\<close>

definition measure_scalar :: "nat \<Rightarrow> nat \<Rightarrow> u32 \<Rightarrow> string_measure \<Rightarrow> string_measure" where
  "measure_scalar total_bytes before scalar result =
     (let r1 = (if scalar \<ge> 0x80 \<and> ascii_prefix result = total_bytes then result\<lparr>ascii_prefix := before\<rparr> else result);
          r2 = (if measure_latin1 r1 \<and> scalar \<ge> 0x100
                then r1\<lparr>measure_latin1 := False, latin1_prefix := measure_scalars r1, latin1_prefix_bytes := before\<rparr> else r1) in
      r2\<lparr>measure_scalars := measure_scalars r2 + 1, utf16_units := utf16_units r2 + (if scalar \<ge> 0x10000 then 2 else 1)\<rparr>)"

function measure_loop :: "u8 list \<Rightarrow> nat \<Rightarrow> string_measure \<Rightarrow> string_measure option" where
  "measure_loop data cursor result =
     (if cursor < length data
      then case next_scalar data (length data) cursor TURBOWASM_COMPONENT_STRING_ORIGIN_UTF8 of
          None \<Rightarrow> None
        | Some (scalar, cursor') \<Rightarrow> measure_loop data cursor' (measure_scalar (length data) cursor scalar result)
      else Some result)"
  by pat_completeness auto
termination
  by (relation "Wellfounded.measure (\<lambda>(data, cursor, result). length data - cursor)") (auto dest: next_scalar_forward)

definition measure_string :: "turbowasm_component_owned_string \<Rightarrow> turbowasm_status + string_measure" where
  "measure_string string =
     (let size = length (string_data string); origin = string_origin string;
          maximum_utf8_bytes =
            (if origin = TURBOWASM_COMPONENT_STRING_ORIGIN_UTF8 then TW_STRING_MAX_BYTES
             else if origin = TURBOWASM_COMPONENT_STRING_ORIGIN_LATIN1 then TW_STRING_MAX_BYTES * 2
             else TW_STRING_MAX_BYTES div 2 * 3) in
      if size > maximum_utf8_bytes then Inl TURBOWASM_INVALID_ARGUMENT
      else case measure_loop (string_data string) 0
          \<lparr>measure_scalars = 0, utf16_units = 0, ascii_prefix = size, latin1_prefix = 0, latin1_prefix_bytes = 0, measure_latin1 = True\<rparr> of
          None \<Rightarrow> Inl TURBOWASM_INVALID_ARGUMENT
        | Some scanned \<Rightarrow>
            let result = (if measure_latin1 scanned
                  then scanned\<lparr>latin1_prefix := measure_scalars scanned, latin1_prefix_bytes := size\<rparr> else scanned) in
            if origin = TURBOWASM_COMPONENT_STRING_ORIGIN_LATIN1 \<and> \<not> measure_latin1 result then Inl TURBOWASM_INVALID_ARGUMENT
            else
              let source_bytes =
                    (if origin = TURBOWASM_COMPONENT_STRING_ORIGIN_UTF8 then size
                     else if origin = TURBOWASM_COMPONENT_STRING_ORIGIN_LATIN1 then measure_scalars result
                     else utf16_units result * 2) in
              if source_bytes > TW_STRING_MAX_BYTES then Inl TURBOWASM_INVALID_ARGUMENT else Inr result)"

definition turbowasm_component_string_validate :: "turbowasm_component_owned_string \<Rightarrow> turbowasm_status" where
  "turbowasm_component_string_validate string = (case measure_string string of Inl status \<Rightarrow> status | Inr ignored \<Rightarrow> TURBOWASM_OK)"

subsection \<open>Lifting\<close>

text \<open>\<^verbatim>\<open>bounds\<close>: the test of a region of the guest.\<close>

definition string_bounds :: "turbowasm_component_canonical_memory \<Rightarrow> u64 \<Rightarrow> u64 \<Rightarrow> u64 \<Rightarrow> unit guest_action" where
  "string_bounds memory pointer bytes alignment =
     (if pointer mod alignment \<noteq> 0 \<or> bytes > SIZE_MAX \<or>
         (pointer_type memory = TURBOWASM_COMPONENT_POINTER_I32 \<and> pointer > 0xffffffff)
      then guest_fail TURBOWASM_TRAPPED
      else (\<lambda>h. do { r \<leftarrow> turbowasm_instance_memory_bounds h (canon_instance memory) (canon_memory_index memory) pointer 0 bytes;
                    Some (h, case r of Inl status \<Rightarrow> Inl status | Inr view \<Rightarrow> Inr ()) }))"

text \<open>
  The first loop adds up the size of the result, the second one appends its bytes. A string from a UTF-8 guest keeps
  its bytes as they are; the size that the source records with them, the sum of the first loop, is their number, since
  the decoder accepts shortest forms only.
\<close>

function lift_size :: "u8 list \<Rightarrow> nat \<Rightarrow> turbowasm_component_string_origin \<Rightarrow> nat \<Rightarrow> nat option" where
  "lift_size raw cursor origin total_bytes =
     (if cursor < length raw
      then case next_scalar raw (length raw) cursor origin of
          None \<Rightarrow> None
        | Some (scalar, cursor') \<Rightarrow> lift_size raw cursor' origin (total_bytes + length (encode_utf8 scalar))
      else Some total_bytes)"
  by pat_completeness auto
termination
  by (relation "Wellfounded.measure (\<lambda>(raw, cursor, origin, total_bytes). length raw - cursor)") (auto dest: next_scalar_forward)

function lift_encode :: "u8 list \<Rightarrow> nat \<Rightarrow> turbowasm_component_string_origin \<Rightarrow> u8 list \<Rightarrow> u8 list option" where
  "lift_encode raw cursor origin encoded =
     (if cursor < length raw
      then case next_scalar raw (length raw) cursor origin of
          None \<Rightarrow> None
        | Some (scalar, cursor') \<Rightarrow> lift_encode raw cursor' origin (encoded @ encode_utf8 scalar)
      else Some encoded)"
  by pat_completeness auto
termination
  by (relation "Wellfounded.measure (\<lambda>(raw, cursor, origin, encoded). length raw - cursor)") (auto dest: next_scalar_forward)

definition lift_decode ::
    "(nat \<Rightarrow> bool) \<Rightarrow> u8 list \<Rightarrow> turbowasm_component_string_origin \<Rightarrow> turbowasm_status + turbowasm_component_owned_string" where
  "lift_decode grant raw origin =
     (case lift_size raw 0 origin 0 of
        None \<Rightarrow> Inl TURBOWASM_TRAPPED
      | Some total_bytes \<Rightarrow>
          if origin = TURBOWASM_COMPONENT_STRING_ORIGIN_UTF8 then Inr \<lparr>string_data = raw, string_origin = origin\<rparr>
          else if total_bytes \<noteq> 0
          then if \<not> grant total_bytes then Inl TURBOWASM_OUT_OF_MEMORY
               else case lift_encode raw 0 origin [] of
                   None \<Rightarrow> Inl TURBOWASM_TRAPPED
                 | Some encoded \<Rightarrow> Inr \<lparr>string_data = encoded, string_origin = origin\<rparr>
          else Inr \<lparr>string_data = [], string_origin = origin\<rparr>)"

text \<open>The encoding of the bytes, the width of a unit and the alignment that the options and the tag select, and the untagged length.\<close>

definition lift_shape ::
    "turbowasm_component_canonical_memory \<Rightarrow> u64 \<Rightarrow> turbowasm_component_string_origin \<times> u64 \<times> u64 \<times> u64" where
  "lift_shape memory tagged_length =
     (if string_encoding memory = TURBOWASM_COMPONENT_STRING_UTF16
      then (TURBOWASM_COMPONENT_STRING_ORIGIN_UTF16, 2, 2, tagged_length)
      else if string_encoding memory = TURBOWASM_COMPONENT_STRING_LATIN1_UTF16
      then if tagged_length AND utf16_tag memory \<noteq> 0
           then (TURBOWASM_COMPONENT_STRING_ORIGIN_COMPACT_UTF16, 2, 2, tagged_length XOR utf16_tag memory)
           else (TURBOWASM_COMPONENT_STRING_ORIGIN_LATIN1, 1, 2, tagged_length)
      else (TURBOWASM_COMPONENT_STRING_ORIGIN_UTF8, 1, 1, tagged_length))"

definition turbowasm_component_string_lift ::
    "(nat \<Rightarrow> bool) \<Rightarrow> turbowasm_component_canonical_memory \<Rightarrow> u64 \<Rightarrow> u64 \<Rightarrow> turbowasm_component_owned_string guest_action" where
  "turbowasm_component_string_lift grant memory pointer tagged_length =
     (if \<not> memory_valid memory then guest_fail TURBOWASM_INVALID_ARGUMENT
      else
        case lift_shape memory tagged_length of (origin, width, alignment, units) \<Rightarrow>
        if units > of_nat TW_STRING_MAX_BYTES div width then guest_fail TURBOWASM_TRAPPED
        else
          let len = units * width in
          guest_then (string_bounds memory pointer len alignment) (\<lambda>_.
          if len \<noteq> 0
          then if \<not> grant (unat len) then guest_fail TURBOWASM_OUT_OF_MEMORY
               else (\<lambda>h. do { r \<leftarrow> turbowasm_instance_memory_read_bytes h (canon_instance memory) (canon_memory_index memory)
                                   pointer 0 (unat len);
                             Some (h, case r of (status, raw) \<Rightarrow>
                               if status \<noteq> TURBOWASM_OK then Inl status else lift_decode grant raw origin) })
          else (\<lambda>h. Some (h, lift_decode grant [] origin))))"

subsection \<open>Lowering\<close>

definition resize :: "turbowasm_component_canonical_memory \<Rightarrow> guest_string \<Rightarrow> u64 \<Rightarrow> u64 \<Rightarrow> guest_string guest_action" where
  "resize memory guest alignment bytes =
     (if bytes > 0xffffffff then guest_fail TURBOWASM_TRAPPED
      else case guest_realloc memory of
          None \<Rightarrow> guest_fail TURBOWASM_UNSUPPORTED
        | Some realloc \<Rightarrow>
            guest_then (realloc (guest_pointer guest) (guest_capacity guest) alignment bytes) (\<lambda>pointer.
            guest_then (string_bounds memory pointer bytes alignment) (\<lambda>_.
            guest_return \<lparr>guest_pointer = pointer, guest_capacity = bytes\<rparr>)))"

definition guest_write :: "turbowasm_component_canonical_memory \<Rightarrow> guest_string \<Rightarrow> nat \<Rightarrow> u8 list \<Rightarrow> unit guest_action" where
  "guest_write memory guest offset bytes =
     (if offset > unat (guest_capacity guest) \<or> length bytes > unat (guest_capacity guest) - offset
      then guest_fail TURBOWASM_TRAPPED
      else (\<lambda>h. do { r \<leftarrow> turbowasm_instance_memory_write_bytes h (canon_instance memory) (canon_memory_index memory)
                          (guest_pointer guest) (of_nat offset) bytes;
                    Some (case r of (status, h') \<Rightarrow> (h', if status \<noteq> TURBOWASM_OK then Inl status else Inr ())) }))"

function write_scalars ::
    "turbowasm_component_canonical_memory \<Rightarrow> guest_string \<Rightarrow> u8 list \<Rightarrow> nat \<Rightarrow> nat \<Rightarrow> nat \<Rightarrow> bool \<Rightarrow> unit guest_action" where
  "write_scalars memory guest data cursor source_end destination utf16 =
     (if cursor < source_end
      then case next_scalar data source_end cursor TURBOWASM_COMPONENT_STRING_ORIGIN_UTF8 of
          None \<Rightarrow> guest_fail TURBOWASM_INVALID_ARGUMENT
        | Some (scalar, cursor') \<Rightarrow>
            if \<not> utf16 \<and> scalar \<ge> 0x100 then guest_fail TURBOWASM_INVALID_ARGUMENT
            else
              let bytes = (if utf16 then encode_utf16 scalar else [ucast scalar]) in
              guest_then (guest_write memory guest destination bytes) (\<lambda>_.
              write_scalars memory guest data cursor' source_end (destination + length bytes) utf16)
      else guest_return ())"
  by pat_completeness auto
termination
  by (relation "Wellfounded.measure (\<lambda>(memory, guest, data, cursor, source_end, destination, utf16). source_end - cursor)")
     (auto dest: next_scalar_forward)

text \<open>One byte at a time, from the last one when the units become wider.\<close>

fun adjust_loop :: "turbowasm_component_canonical_memory \<Rightarrow> guest_string \<Rightarrow> nat \<Rightarrow> bool \<Rightarrow> nat list \<Rightarrow> unit guest_action" where
  "adjust_loop memory guest count inflate [] = guest_return ()"
| "adjust_loop memory guest count inflate (index # rest) =
     (let at = (if inflate then count - index - 1 else index) in
      guest_then (\<lambda>h. do { r \<leftarrow> turbowasm_instance_memory_read_bytes h (canon_instance memory) (canon_memory_index memory)
                                 (guest_pointer guest) (of_nat (if inflate then at else at * 2)) 1;
                           Some (h, case r of (status, bytes) \<Rightarrow> if status \<noteq> TURBOWASM_OK then Inl status else Inr bytes) })
        (\<lambda>bytes.
      guest_then (guest_write memory guest (if inflate then at * 2 else at) (if inflate then [bytes ! 0, 0] else [bytes ! 0])) (\<lambda>_.
      adjust_loop memory guest count inflate rest)))"

definition adjust_latin1_prefix :: "turbowasm_component_canonical_memory \<Rightarrow> guest_string \<Rightarrow> nat \<Rightarrow> bool \<Rightarrow> unit guest_action" where
  "adjust_latin1_prefix memory guest count inflate = adjust_loop memory guest count inflate [0..<count]"

definition lower_utf8 ::
    "turbowasm_component_canonical_memory \<Rightarrow> guest_string \<Rightarrow> turbowasm_component_owned_string \<Rightarrow> string_measure \<Rightarrow> nat \<Rightarrow>
     (guest_string \<times> u64) guest_action" where
  "lower_utf8 memory guest string measured source_units =
     (let data = string_data string; size = length data;
          prefix = (if string_origin string = TURBOWASM_COMPONENT_STRING_ORIGIN_UTF8 then size else ascii_prefix measured) in
      guest_then (resize memory guest 1 (of_nat source_units)) (\<lambda>guest.
      guest_then (if prefix \<noteq> 0 then guest_write memory guest 0 (take prefix data) else guest_return ()) (\<lambda>_.
      guest_then
        (if prefix \<noteq> size
         then let factor = (if string_origin string = TURBOWASM_COMPONENT_STRING_ORIGIN_LATIN1 then 2 else 3) in
           guest_then (resize memory guest 1 (of_nat source_units * factor)) (\<lambda>guest.
           guest_then (guest_write memory guest prefix (drop prefix data)) (\<lambda>_.
           if unat (guest_capacity guest) > size then resize memory guest 1 (of_nat size) else guest_return guest))
         else guest_return guest) (\<lambda>guest.
      guest_return (guest, of_nat size)))))"

definition lower_utf16 ::
    "turbowasm_component_canonical_memory \<Rightarrow> guest_string \<Rightarrow> turbowasm_component_owned_string \<Rightarrow> string_measure \<Rightarrow> nat \<Rightarrow>
     (guest_string \<times> u64) guest_action" where
  "lower_utf16 memory guest string measured source_units =
     guest_then (resize memory guest 2 (of_nat source_units * 2)) (\<lambda>guest.
     let bytes = of_nat (utf16_units measured) * 2 in
     guest_then (write_scalars memory guest (string_data string) 0 (length (string_data string)) 0 True) (\<lambda>_.
     guest_then (if guest_capacity guest > bytes then resize memory guest 2 bytes else guest_return guest) (\<lambda>guest.
     guest_return (guest, of_nat (utf16_units measured)))))"

definition lower_compact ::
    "turbowasm_component_canonical_memory \<Rightarrow> guest_string \<Rightarrow> turbowasm_component_owned_string \<Rightarrow> string_measure \<Rightarrow> nat \<Rightarrow>
     (guest_string \<times> u64) guest_action" where
  "lower_compact memory guest string measured source_units =
     (let utf16_bytes = of_nat (utf16_units measured) * 2; data = string_data string in
      if string_origin string = TURBOWASM_COMPONENT_STRING_ORIGIN_COMPACT_UTF16
      then
        guest_then (lower_utf16 memory guest string measured source_units) (\<lambda>(guest, len).
        if \<not> measure_latin1 measured then guest_return (guest, len OR utf16_tag memory)
        else
          guest_then (adjust_latin1_prefix memory guest (measure_scalars measured) False) (\<lambda>_.
          guest_then (resize memory guest 1 (of_nat (measure_scalars measured))) (\<lambda>guest.
          guest_return (guest, of_nat (measure_scalars measured)))))
      else
        guest_then (resize memory guest 2 (of_nat source_units)) (\<lambda>guest.
        guest_then (write_scalars memory guest data 0 (latin1_prefix_bytes measured) 0 False) (\<lambda>_.
        if \<not> measure_latin1 measured
        then
          guest_then (resize memory guest 2 (of_nat source_units * 2)) (\<lambda>guest.
          guest_then (adjust_latin1_prefix memory guest (latin1_prefix measured) True) (\<lambda>_.
          guest_then (write_scalars memory guest data (latin1_prefix_bytes measured) (length data) (latin1_prefix measured * 2) True) (\<lambda>_.
          guest_then (if guest_capacity guest > utf16_bytes then resize memory guest 2 utf16_bytes else guest_return guest) (\<lambda>guest.
          guest_return (guest, of_nat (utf16_units measured) OR utf16_tag memory)))))
        else
          guest_then (if unat (guest_capacity guest) > measure_scalars measured
                      then resize memory guest 2 (of_nat (measure_scalars measured)) else guest_return guest) (\<lambda>guest.
          guest_return (guest, of_nat (measure_scalars measured))))))"

definition turbowasm_component_string_lower ::
    "turbowasm_component_canonical_memory \<Rightarrow> turbowasm_component_owned_string \<Rightarrow> (u64 \<times> u64) guest_action" where
  "turbowasm_component_string_lower memory string =
     (if \<not> memory_valid memory then guest_fail TURBOWASM_INVALID_ARGUMENT
      else case measure_string string of
          Inl status \<Rightarrow> guest_fail status
        | Inr measured \<Rightarrow>
            let source_units =
                  (if string_origin string = TURBOWASM_COMPONENT_STRING_ORIGIN_UTF8 then length (string_data string)
                   else if string_origin string = TURBOWASM_COMPONENT_STRING_ORIGIN_LATIN1 then measure_scalars measured
                   else utf16_units measured);
                guest = \<lparr>guest_pointer = 0, guest_capacity = 0\<rparr>;
                lower = (case string_encoding memory of
                    TURBOWASM_COMPONENT_STRING_UTF8 \<Rightarrow> lower_utf8
                  | TURBOWASM_COMPONENT_STRING_UTF16 \<Rightarrow> lower_utf16
                  | TURBOWASM_COMPONENT_STRING_LATIN1_UTF16 \<Rightarrow> lower_compact) in
            guest_then (lower memory guest string measured source_units) (\<lambda>(guest, len).
            guest_return (guest_pointer guest, len)))"

end
