(* ===== verification/TW_Unicode.thy ===== *)
theory TW_Unicode
  imports TW_String TW_Memory_Laws
begin

text \<open>
  Code points in UTF-8, UTF-16 and Latin-1: a step of the scan accepts exactly the encodings of the code points, in
  their shortest form and without surrogates, and returns the code point and the position behind it.
\<close>

section \<open>Code points\<close>

subsection \<open>Six bits at a time\<close>

lemma byte_all: "list_all P (map word_of_int [0..255]) \<Longrightarrow> P (b :: u8)"
proof -
  assume a: "list_all P (map word_of_int [0..255])"
  have "uint b < 256" using uint_lt_0 uint_bounded [of b] by simp
  then have "uint b \<in> set [0..255]" by simp
  then have "P (word_of_int (uint b))" using a unfolding list_all_iff by (metis imageI set_map)
  then show "P b" by simp
qed

lemma and_low_bits: "(w :: 'a :: len word) AND 63 = take_bit 6 w" "(w :: 'a :: len word) AND 1023 = take_bit 10 w"
  by (simp_all add: take_bit_eq_mask mask_eq_exp_minus_1)

lemma continuation_bytes:
  "list_all (\<lambda>b :: u8. (b AND 0xc0 = 0x80 \<longrightarrow> 0x80 OR (b AND 0x3f) = b) \<and>
     (0x80 OR (b AND 0x3f)) AND 0xc0 = 0x80 \<and> (0x80 OR (b AND 0x3f)) AND 0x3f = b AND 0x3f) (map word_of_int [0..255])"
  by code_simp

lemma continuation_byte:
  "(b :: u8) AND 0xc0 = 0x80 \<Longrightarrow> 0x80 OR (b AND 0x3f) = b"
  "((0x80 :: u8) OR (b AND 0x3f)) AND 0xc0 = 0x80" "((0x80 :: u8) OR (b AND 0x3f)) AND 0x3f = b AND 0x3f"
  using byte_all [OF continuation_bytes, of b] by simp_all

lemma low_byte: "ucast ((0x80 :: u32) OR (r AND 0x3f)) = (0x80 :: u8) OR (ucast r AND 0x3f)"
proof -
  have "ucast ((0x80 :: u32) OR (r AND 0x3f)) = (ucast (0x80 :: u32) :: u8) OR (ucast r AND ucast (0x3f :: u32))"
    by (simp only: unsigned_or_eq unsigned_and_eq)
  then show ?thesis by simp
qed

lemma unpack_low: "ucast (push_bit 6 (x :: u32) OR ucast ((b :: u8) AND 0x3f)) AND (0x3f :: u8) = b AND 0x3f"
  unfolding and_low_bits by (rule bit_word_eqI) (auto simp: bit_simps)

lemma unpack_high: "unat x < 2 ^ 26 \<Longrightarrow> drop_bit 6 (push_bit 6 (x :: u32) OR ucast ((b :: u8) AND 0x3f)) = x"
proof -
  assume "unat x < 2 ^ 26"
  then have x: "take_bit 26 x = x" by (simp add: word_eq_iff_unsigned [where 'a = nat] unsigned_take_bit_eq take_bit_nat_eq_self)
  have "drop_bit 6 (push_bit 6 x OR ucast (b AND 0x3f)) = take_bit 26 x"
    unfolding and_low_bits by (rule bit_word_eqI) (auto simp: bit_simps)
  then show ?thesis by (simp only: x)
qed

lemma pack: "push_bit 6 (drop_bit 6 r) OR ucast ((ucast r :: u8) AND 0x3f) = (r :: u32)"
proof (rule bit_word_eqI)
  fix n assume "n < LENGTH(32)"
  then show "bit (push_bit 6 (drop_bit 6 r) OR ucast ((ucast r :: u8) AND 0x3f)) n = bit r n"
    unfolding and_low_bits by (cases "n < 6") (auto simp: bit_simps)
qed

lemma unat_drop: "unat (drop_bit n (s :: u32)) = unat s div 2 ^ n"
proof -
  have "take_bit LENGTH(32) (unat s) = unat s" using unat_less_exp [of s] by (simp add: take_bit_nat_eq_self)
  then show ?thesis unfolding unsigned_drop_bit_eq by (simp only: drop_bit_eq_div)
qed

subsection \<open>Continuation bytes\<close>

lemma utf8_tail_step:
  "utf8_tail (Suc n) s acc =
     (case utf8_tail n s acc of (r, bs) \<Rightarrow> (drop_bit 6 r, (0x80 OR (ucast r AND 0x3f)) # bs))"
proof (induction n arbitrary: s acc)
  case 0
  show ?case by (simp only: utf8_tail.simps low_byte prod.case)
next
  case (Suc n)
  have "utf8_tail (Suc (Suc n)) s acc = utf8_tail (Suc n) (drop_bit 6 s) (ucast (0x80 OR (s AND 0x3f)) # acc)" by (rule utf8_tail.simps(2))
  also have "\<dots> = (case utf8_tail (Suc n) s acc of (r, bs) \<Rightarrow> (drop_bit 6 r, (0x80 OR (ucast r AND 0x3f)) # bs))"
    by (subst Suc.IH) (simp only: utf8_tail.simps(2))
  finally show ?case .
qed

declare utf8_tail.simps(2) [simp del]

lemma utf8_tail_rest: "utf8_tail n s acc = (r, bs) \<Longrightarrow> r = drop_bit (6 * n) s \<and> length bs = n + length acc"
  by (induction n arbitrary: s acc) (simp, fastforce simp: utf8_tail.simps(2) drop_bit_drop_bit add.commute)

lemma utf8_trailing_sound:
  assumes "utf8_trailing bytes c n x = Some (s, c')" "unat x < 2 ^ (32 - 6 * n)" "6 * n \<le> 24" "c + n \<le> length bytes"
  shows "utf8_tail n s [] = (x, bytes_get bytes c n)"
  using assms
proof (induction n arbitrary: c x)
  case 0
  then show ?case by (simp add: bytes_get_def)
next
  case (Suc n)
  define b where "b = bytes ! c"
  have b: "b AND 0xc0 = 0x80" "utf8_trailing bytes (c + 1) n (push_bit 6 x OR ucast (b AND 0x3f)) = Some (s, c')"
    using Suc.prems(1) by (simp_all add: b_def Let_def split: if_splits)
  let ?x = "push_bit 6 x OR ucast (b AND 0x3f) :: u32"
  have "(2 :: nat) ^ (32 - 6 * Suc n) \<le> 2 ^ 26" by (rule power_increasing) simp_all
  then have x: "unat x < 2 ^ 26" using Suc.prems(2) by (rule less_le_trans [rotated])
  have h: "drop_bit 6 ?x = x" by (rule unpack_high [OF x])
  then have "unat ?x div 2 ^ 6 = unat x" unfolding unat_drop [symmetric] by simp
  then have "unat ?x div 2 ^ 6 < 2 ^ (32 - 6 * Suc n)" using Suc.prems(2) by simp
  then have "unat ?x < 2 ^ (32 - 6 * Suc n) * 2 ^ 6" by (simp add: div_less_iff_less_mult)
  also have "\<dots> = 2 ^ (32 - 6 * Suc n + 6)" by (simp only: power_add)
  also have "32 - 6 * Suc n + 6 = 32 - 6 * n" using Suc.prems(3) by simp
  finally have "utf8_tail n s [] = (?x, bytes_get bytes (c + 1) n)"
    using Suc.prems(3,4) by (intro Suc.IH [OF b(2)]) simp_all
  then have "utf8_tail (Suc n) s [] = (x, b # bytes_get bytes (c + 1) n)"
    unfolding utf8_tail_step by (simp only: prod.case h unpack_low continuation_byte(1) [OF b(1)])
  then show ?case using Suc.prems(4) by (simp add: b_def bytes_get_def Cons_nth_drop_Suc [symmetric])
qed

lemma utf8_trailing_complete:
  assumes "utf8_tail n s [] = (x, bytes_get bytes c n)" "c + n \<le> length bytes"
  shows "utf8_trailing bytes c n x = Some (s, c + n)"
  using assms
proof (induction n arbitrary: c x)
  case 0
  then show ?case by simp
next
  case (Suc n)
  obtain r bs where r: "utf8_tail n s [] = (r, bs)" by fastforce
  then have e: "x = drop_bit 6 r" "bytes_get bytes c (Suc n) = (0x80 OR (ucast r AND 0x3f)) # bs"
    using Suc.prems(1) by (simp_all add: utf8_tail_step)
  have g: "bytes_get bytes c (Suc n) = bytes ! c # bytes_get bytes (c + 1) n"
    using Suc.prems(2) by (simp add: bytes_get_def Cons_nth_drop_Suc [symmetric])
  then have b: "bytes ! c = 0x80 OR (ucast r AND 0x3f)" "bs = bytes_get bytes (c + 1) n" using e(2) by simp_all
  have "utf8_trailing bytes (c + 1) n r = Some (s, c + 1 + n)" using r b(2) Suc.prems(2) by (intro Suc.IH) simp_all
  then show ?case by (simp add: b(1) e(1) continuation_byte(2,3) pack)
qed

lemma take_small: "unat (s :: u32) < 2 ^ n \<Longrightarrow> take_bit n s = s"
  by (simp add: word_eq_iff_unsigned [where 'a = nat] unsigned_take_bit_eq take_bit_nat_eq_self)

lemma byte_scalar: "ucast (ucast (b :: u8) :: u32) = b" "unat (s :: u32) < 256 \<Longrightarrow> ucast (ucast s :: u8) = s"
  using take_small [of s 8] by (simp_all add: ucast_ucast_take) (rule bit_word_eqI; simp add: bit_simps)

subsection \<open>UTF-8\<close>

text \<open>The leading bytes: their high bits give the number of continuation bytes, the others the high bits of the code point.\<close>

definition utf8_lead :: "nat \<Rightarrow> u32" where
  "utf8_lead n = (if n = 1 then 0xc0 else if n = 2 then 0xe0 else 0xf0)"

definition utf8_mask :: "nat \<Rightarrow> u32" where
  "utf8_mask n = (if n = 1 then 0x1f else if n = 2 then 0x0f else 0x07)"

lemma lead_bytes:
  "list_all (\<lambda>b :: u8. list_all (\<lambda>n. utf8_lead n \<le> ucast b \<and> ucast b \<le> utf8_lead n + utf8_mask n \<longrightarrow>
     ucast (utf8_lead n OR (ucast b AND utf8_mask n)) = b \<and> (ucast b AND utf8_mask n) \<le> utf8_mask n) [1, 2, 3]) (map word_of_int [0..255])"
  by code_simp

lemma lead_rests:
  "list_all (\<lambda>n. list_all (\<lambda>r :: u32. r \<le> utf8_mask n \<longrightarrow> ucast (ucast (utf8_lead n OR r) :: u8) = utf8_lead n + r \<and>
     ((utf8_lead n + r) AND utf8_mask n) = r) (map word_of_int [0..31])) [1, 2, 3]"
  by code_simp

lemma lead_byte:
  assumes "n \<in> {1, 2, 3}" "utf8_lead n \<le> ucast (b :: u8)" "ucast b \<le> utf8_lead n + utf8_mask n"
  shows "ucast (utf8_lead n OR (ucast b AND utf8_mask n)) = b" "(ucast b AND utf8_mask n) \<le> utf8_mask n"
proof -
  have "list_all (\<lambda>n. utf8_lead n \<le> ucast b \<and> ucast b \<le> utf8_lead n + utf8_mask n \<longrightarrow>
     ucast (utf8_lead n OR (ucast b AND utf8_mask n)) = b \<and> (ucast b AND utf8_mask n) \<le> utf8_mask n) [1, 2, 3]"
    by (rule byte_all [OF lead_bytes])
  moreover have "n \<in> set [1, 2, 3]" using assms(1) by simp
  ultimately have "ucast (utf8_lead n OR (ucast b AND utf8_mask n)) = b \<and> (ucast b AND utf8_mask n) \<le> utf8_mask n"
    using assms(2,3) unfolding list_all_iff by blast
  then show "ucast (utf8_lead n OR (ucast b AND utf8_mask n)) = b" "(ucast b AND utf8_mask n) \<le> utf8_mask n" by simp_all
qed

lemma lead_rest:
  assumes "n \<in> {1, 2, 3}" "r \<le> utf8_mask n"
  shows "ucast (ucast (utf8_lead n OR r) :: u8) = utf8_lead n + r" "((utf8_lead n + r) AND utf8_mask n) = r"
proof -
  have "utf8_mask n \<le> 31" by (simp add: utf8_mask_def)
  then have "uint r \<le> 31" using assms(2) by (simp add: word_le_def)
  then have "uint r \<in> set [0..31]" by simp
  then have "word_of_int (uint r) \<in> set (map word_of_int [0..31] :: u32 list)" unfolding set_map by (rule imageI)
  then have r: "r \<in> set (map word_of_int [0..31])" by simp
  have n: "n \<in> set [1, 2, 3]" using assms(1) by simp
  have "r \<le> utf8_mask n \<longrightarrow> ucast (ucast (utf8_lead n OR r) :: u8) = utf8_lead n + r \<and> ((utf8_lead n + r) AND utf8_mask n) = r"
    using lead_rests n r unfolding list_all_iff by blast
  then show "ucast (ucast (utf8_lead n OR r) :: u8) = utf8_lead n + r" "((utf8_lead n + r) AND utf8_mask n) = r"
    using assms(2) by simp_all
qed

text \<open>The least code point with \<open>n\<close> continuation bytes, and the first one that needs more.\<close>

definition utf8_min :: "nat \<Rightarrow> nat" where
  "utf8_min n = (if n = 1 then 0x80 else if n = 2 then 0x800 else if n = 3 then 0x10000 else 0x200000)"

lemma encode_utf8_long:
  assumes "n \<in> {1, 2, 3}" "utf8_min n \<le> unat s" "unat s < utf8_min (Suc n)" "utf8_tail n s [] = (r, bs)"
  shows "encode_utf8 s = ucast (utf8_lead n OR r) # bs"
proof -
  consider "n = 1" | "n = 2" | "n = 3" using assms(1) by blast
  then show ?thesis
  proof cases
    case 1
    then show ?thesis using assms(2-4) by (simp add: encode_utf8_def utf8_min_def utf8_lead_def word_less_nat_alt)
  next
    case 2
    then show ?thesis using assms(2-4) by (simp add: encode_utf8_def utf8_min_def utf8_lead_def word_less_nat_alt)
  next
    case 3
    then show ?thesis using assms(2-4) by (simp add: encode_utf8_def utf8_min_def utf8_lead_def word_less_nat_alt)
  qed
qed

lemma next_utf8_lead:
  assumes "n \<in> {1, 2, 3}" "utf8_lead n \<le> ucast (bytes ! c)" "ucast (bytes ! c) \<le> utf8_lead n + utf8_mask n"
  shows "next_utf8 bytes limit c =
     (if limit - (c + 1) < n then None
      else case utf8_trailing bytes (c + 1) n (ucast (bytes ! c) AND utf8_mask n) of
          None \<Rightarrow> None
        | Some (s, c') \<Rightarrow> if unat s < utf8_min n then None else Some (s, c'))"
proof -
  consider "n = 1" | "n = 2" | "n = 3" using assms(1) by blast
  then show ?thesis
  proof cases
    case 1
    then show ?thesis using assms(2,3)
      by (simp add: next_utf8_def utf8_min_def utf8_lead_def utf8_mask_def word_less_nat_alt word_le_nat_alt del: utf8_trailing.simps split: option.split)
  next
    case 2
    then show ?thesis using assms(2,3)
      by (simp add: next_utf8_def utf8_min_def utf8_lead_def utf8_mask_def word_less_nat_alt word_le_nat_alt del: utf8_trailing.simps split: option.split)
  next
    case 3
    then show ?thesis using assms(2,3)
      by (simp add: next_utf8_def utf8_min_def utf8_lead_def utf8_mask_def word_less_nat_alt word_le_nat_alt del: utf8_trailing.simps split: option.split)
  qed
qed

lemma next_utf8_cases:
  assumes "next_utf8 bytes limit c = Some (s, c')"
  obtains (ascii) "ucast (bytes ! c) < (0x80 :: u32)" "s = ucast (bytes ! c)" "c' = c + 1"
  | (long) n where "n \<in> {1, 2, 3}" "utf8_lead n \<le> ucast (bytes ! c)" "ucast (bytes ! c) \<le> utf8_lead n + utf8_mask n"
proof -
  let ?b = "ucast (bytes ! c) :: u32"
  consider "?b < 0x80" | "0xc0 \<le> ?b" "?b < 0xe0" | "0xe0 \<le> ?b" "?b < 0xf0" | "0xf0 \<le> ?b" "?b < 0xf8"
    using assms by (auto simp: next_utf8_def Let_def split: if_splits)
  then show ?thesis
  proof cases
    case 1
    then show ?thesis using assms by (intro ascii) (auto simp: next_utf8_def Let_def not_le split: if_splits)
  next
    case 2
    then show ?thesis by (intro long [of 1]) (simp_all add: utf8_lead_def utf8_mask_def word_less_nat_alt word_le_nat_alt)
  next
    case 3
    then show ?thesis by (intro long [of 2]) (simp_all add: utf8_lead_def utf8_mask_def word_less_nat_alt word_le_nat_alt)
  next
    case 4
    then show ?thesis by (intro long [of 3]) (simp_all add: utf8_lead_def utf8_mask_def word_less_nat_alt word_le_nat_alt)
  qed
qed

lemma next_utf8_sound:
  assumes "next_utf8 bytes limit c = Some (s, c')" "c < limit" "limit \<le> length bytes"
  shows "bytes_get bytes c (length (encode_utf8 s)) = encode_utf8 s \<and> c' = c + length (encode_utf8 s)"
  using assms(1)
proof (cases rule: next_utf8_cases)
  case ascii
  then show ?thesis using assms(2,3) by (simp add: encode_utf8_def bytes_get_Cons byte_scalar) (simp add: bytes_get_def)
next
  case (long n)
  let ?x = "ucast (bytes ! c) AND utf8_mask n :: u32"
  have t: "utf8_trailing bytes (c + 1) n ?x = Some (s, c')" "utf8_min n \<le> unat s" "c + 1 + n \<le> limit"
    using assms next_utf8_lead [OF long, of limit] by (auto split: if_splits option.splits)
  have x: "unat ?x < 2 ^ (6 - n)"
    using lead_byte(2) [OF long] long(1) by (auto simp: utf8_mask_def word_le_nat_alt)
  also have "\<dots> \<le> (2 :: nat) ^ (32 - 6 * n)" using long(1) by (intro power_increasing) auto
  finally have tail: "utf8_tail n s [] = (?x, bytes_get bytes (c + 1) n)"
    using long(1) t(3) assms(3) by (intro utf8_trailing_sound [OF t(1)]) auto
  then have "?x = drop_bit (6 * n) s" by (rule utf8_tail_rest [THEN conjunct1])
  then have "unat s div 2 ^ (6 * n) < 2 ^ (6 - n)" using x by (simp only: unat_drop)
  then have "unat s < 2 ^ (6 - n) * 2 ^ (6 * n)" by (simp add: div_less_iff_less_mult)
  also have "\<dots> = utf8_min (Suc n)" using long(1) by (auto simp: utf8_min_def)
  finally have "encode_utf8 s = ucast (utf8_lead n OR ?x) # bytes_get bytes (c + 1) n"
    using long(1) t(2) tail by (intro encode_utf8_long)
  then have e: "encode_utf8 s = bytes ! c # bytes_get bytes (c + 1) n" by (simp only: lead_byte(1) [OF long])
  moreover have "length (bytes_get bytes (c + 1) n) = n" using t(3) assms(3) by (intro length_bytes_get) simp
  ultimately show ?thesis using utf8_trailing_cursor [OF t(1)] assms(2,3) by (simp add: bytes_get_Cons)
qed

lemma next_utf8_complete:
  assumes "bytes_get bytes c (length (encode_utf8 s)) = encode_utf8 s" "c + length (encode_utf8 s) \<le> limit" "limit \<le> length bytes"
    "unat s < 0x200000"
  shows "next_utf8 bytes limit c = Some (s, c + length (encode_utf8 s))"
proof (cases "s < 0x80")
  case True
  then have e: "encode_utf8 s = [ucast s]" by (simp add: encode_utf8_def)
  then have b: "bytes ! c = ucast s" using assms by (simp add: bytes_get_Cons)
  have "ucast (ucast s :: u8) = s"
    using True by (intro byte_scalar) (simp add: word_less_nat_alt)
  then show ?thesis using True by (simp add: next_utf8_def Let_def b e not_le)
next
  case False
  have "\<exists>n. n \<in> {1, 2, 3} \<and> utf8_min n \<le> unat s \<and> unat s < utf8_min (Suc n)"
    using False assms(4)
    by (intro exI [of _ "if unat s < 0x800 then 1 else if unat s < 0x10000 then 2 else 3"]) (simp add: utf8_min_def word_less_nat_alt)
  then obtain n where n: "n \<in> {1, 2, 3}" "utf8_min n \<le> unat s" "unat s < utf8_min (Suc n)" by blast
  obtain r bs where t: "utf8_tail n s [] = (r, bs)" by fastforce
  have r: "r = drop_bit (6 * n) s" "length bs = n" using utf8_tail_rest [OF t] by simp_all
  have e: "encode_utf8 s = ucast (utf8_lead n OR r) # bs" by (rule encode_utf8_long [OF n t])
  have "unat r \<le> unat (utf8_mask n)" using n by (auto simp: r(1) unat_drop utf8_min_def utf8_mask_def)
  then have m: "r \<le> utf8_mask n" by (simp add: word_le_nat_alt)
  have b: "bytes ! c = ucast (utf8_lead n OR r)" "bs = bytes_get bytes (c + 1) n"
    using assms(1-3) e r(2) by (simp_all add: bytes_get_Cons)
  have l: "ucast (bytes ! c) = utf8_lead n + r" unfolding b(1) by (rule lead_rest(1) [OF n(1) m])
  have "utf8_lead n \<le> utf8_lead n + r \<and> utf8_lead n + r \<le> utf8_lead n + utf8_mask n"
    using n(1) m by (auto simp: utf8_lead_def utf8_mask_def word_le_nat_alt unat_word_ariths)
  moreover have "utf8_trailing bytes (c + 1) n r = Some (s, c + 1 + n)"
    using t b(2) assms(2,3) e r(2) by (intro utf8_trailing_complete) simp_all
  ultimately show ?thesis
    using n(2) assms(2) e r(2) by (subst next_utf8_lead [OF n(1)]) (simp_all add: l lead_rest(2) [OF n(1) m] not_less)
qed

subsection \<open>UTF-16\<close>

lemma read_utf16_bytes:
  "ucast (read_utf16 p off) = p ! off" "ucast (drop_bit 8 (read_utf16 p off)) = p ! (off + 1)" "unat (read_utf16 p off) < 0x10000"
proof -
  show "ucast (read_utf16 p off) = p ! off"
    unfolding read_utf16_def by (rule bit_word_eqI) (auto simp: bit_simps)
  show "ucast (drop_bit 8 (read_utf16 p off)) = p ! (off + 1)"
    unfolding read_utf16_def by (rule bit_word_eqI) (auto simp: bit_simps dest: bit_imp_le_length)
  have "take_bit 16 (read_utf16 p off) = read_utf16 p off"
    unfolding read_utf16_def by (rule bit_word_eqI) (auto simp: bit_simps dest: bit_imp_le_length)
  then have "take_bit 16 (unat (read_utf16 p off)) = unat (read_utf16 p off)" by (metis unsigned_take_bit_eq)
  then show "unat (read_utf16 p off) < 0x10000" by (simp add: take_bit_nat_eq_self_iff)
qed

definition unit_bytes :: "u32 \<Rightarrow> u8 list" where
  "unit_bytes u = [ucast u, ucast (drop_bit 8 u)]"

lemma read_utf16_unit:
  assumes "off + 2 \<le> length p"
  shows "bytes_get p off 2 = unit_bytes (read_utf16 p off)"
    "unat u < 0x10000 \<Longrightarrow> bytes_get p off 2 = unit_bytes u \<Longrightarrow> read_utf16 p off = u"
proof -
  have g: "bytes_get p off 2 = [p ! off, p ! (off + 1)]"
    using assms by (simp add: numeral_2_eq_2 bytes_get_Cons) (simp add: bytes_get_def)
  then show "bytes_get p off 2 = unit_bytes (read_utf16 p off)" by (simp add: unit_bytes_def read_utf16_bytes del: One_nat_def)
  assume u: "unat u < 0x10000" and "bytes_get p off 2 = unit_bytes u"
  then have p: "p ! off = ucast u" "p ! (off + 1) = ucast (drop_bit 8 u)" using g by (simp_all add: unit_bytes_def)
  have "read_utf16 p off = take_bit 16 u"
  proof (rule bit_word_eqI)
    fix n assume "n < LENGTH(32)"
    then show "bit (read_utf16 p off) n = bit (take_bit 16 u) n"
      unfolding read_utf16_def p by (cases "n < 8") (auto simp: bit_simps)
  qed
  then show "read_utf16 p off = u" using u by (simp add: take_small)
qed

text \<open>The two surrogates of a code point above the first plane.\<close>

lemma surrogate_split:
  assumes "unat (u :: u32) < 1024" "unat (v :: u32) < 1024"
  shows "drop_bit 10 (push_bit 10 u + v) = u" "(push_bit 10 u + v) AND 1023 = v" "unat (push_bit 10 u + v) = unat u * 1024 + unat v"
proof -
  have p: "unat (push_bit 10 u) = unat u * 1024"
    using assms(1) by (simp add: push_bit_eq_mult unat_word_ariths)
  show a: "unat (push_bit 10 u + v) = unat u * 1024 + unat v" using assms p by (simp add: unat_word_ariths)
  show "drop_bit 10 (push_bit 10 u + v) = u"
    by (rule word_eq_iff_unsigned [where 'a = nat, THEN iffD2]) (use assms a in \<open>simp add: unat_drop\<close>)
  show "(push_bit 10 u + v) AND 1023 = v" unfolding and_low_bits
    by (rule word_eq_iff_unsigned [where 'a = nat, THEN iffD2], unfold unsigned_take_bit_eq) (use assms a in \<open>simp add: take_bit_eq_mod\<close>)
qed

lemma encode_utf16_plane: "unat s < 0x10000 \<Longrightarrow> encode_utf16 s = unit_bytes s"
  by (simp add: encode_utf16_def unit_bytes_def word_less_nat_alt)

lemma encode_utf16_pair:
  "0x10000 \<le> unat s \<Longrightarrow> encode_utf16 s = unit_bytes (0xd800 + drop_bit 10 (s - 0x10000)) @ unit_bytes (0xdc00 + ((s - 0x10000) AND 1023))"
  by (simp add: encode_utf16_def unit_bytes_def word_less_nat_alt Let_def)

lemma next_utf16_sound:
  assumes "next_utf16 bytes limit c = Some (s, c')" "c < limit" "limit \<le> length bytes"
  shows "bytes_get bytes c (length (encode_utf16 s)) = encode_utf16 s \<and> c' = c + length (encode_utf16 s)"
proof -
  let ?u = "read_utf16 bytes c" and ?v = "read_utf16 bytes (c + 2)"
  have l: "c + 2 \<le> limit" using assms(1) by (simp add: next_utf16_def split: if_splits)
  show ?thesis
  proof (cases "?u \<ge> 0xd800 \<and> ?u < 0xdc00")
    case True
    then have p: "c + 4 \<le> limit" "?v \<ge> 0xdc00" "?v < 0xe000"
        "s = 0x10000 + push_bit 10 (?u - 0xd800) + (?v - 0xdc00)" "c' = c + 4"
      using assms(1) l by (auto simp: next_utf16_def Let_def not_le split: if_splits)
    let ?a = "?u - 0xd800" and ?b = "?v - 0xdc00"
    have ab: "unat ?a < 1024" "unat ?b < 1024"
      using True p(2,3) by (auto simp: unat_sub word_le_nat_alt word_less_nat_alt)
    note sp = surrogate_split [OF ab]
    define t where "t = push_bit 10 ?a + ?b"
    have t: "s = 0x10000 + t" "unat t < 0x100000" using p(4) sp(3) ab by (simp_all add: t_def add.assoc)
    then have "unat s = 0x10000 + unat t" by (simp add: unat_word_ariths)
    then have "encode_utf16 s = unit_bytes (0xd800 + ?a) @ unit_bytes (0xdc00 + ?b)"
      using sp(1,2) [folded t_def] by (subst encode_utf16_pair) (simp_all add: t(1))
    then have e: "encode_utf16 s = bytes_get bytes c 2 @ bytes_get bytes (c + 2) 2"
      using p(1) assms(3) by (simp add: read_utf16_unit(1))
    then have "encode_utf16 s = bytes_get bytes c (2 + 2)" by (simp only: bytes_get_add)
    moreover have "length (bytes_get bytes c (2 + 2)) = 4" using p(1) assms(3) by simp
    ultimately show ?thesis using p(5) by simp
  next
    case False
    then have "s = ?u" "c' = c + 2" using assms(1) l by (auto simp: next_utf16_def Let_def split: if_splits)
    then show ?thesis
      using l assms(3) read_utf16_unit(1) [of c bytes] read_utf16_bytes(3) [of bytes c]
      by (simp add: encode_utf16_plane) (simp add: unit_bytes_def numeral_2_eq_2)
  qed
qed

lemma next_utf16_complete:
  assumes "bytes_get bytes c (length (encode_utf16 s)) = encode_utf16 s" "c + length (encode_utf16 s) \<le> limit" "limit \<le> length bytes"
    "scalar_valid s"
  shows "next_utf16 bytes limit c = Some (s, c + length (encode_utf16 s))"
proof (cases "unat s < 0x10000")
  case True
  then have e: "encode_utf16 s = unit_bytes s" "length (unit_bytes s) = 2" by (simp_all add: encode_utf16_plane unit_bytes_def)
  then have "read_utf16 bytes c = s" using assms(1-3) True by (intro read_utf16_unit(2)) simp_all
  moreover have "\<not> (s \<ge> 0xd800 \<and> s < 0xdc00)" using assms(4) by (auto simp: scalar_valid_def word_le_nat_alt word_less_nat_alt)
  ultimately show ?thesis using assms(2) e by (auto simp: next_utf16_def Let_def)
next
  case False
  define t where "t = s - 0x10000"
  have t: "s = 0x10000 + t" "unat t < 0x100000"
    using assms(4) False by (simp_all add: t_def scalar_valid_def word_less_nat_alt unat_sub word_le_nat_alt)
  let ?a = "drop_bit 10 t" and ?b = "t AND 1023"
  have ab: "unat ?a < 1024" "unat ?b < 1024"
    using t(2) by (simp add: unat_drop, unfold and_low_bits unsigned_take_bit_eq, simp add: take_bit_eq_mod [where 'a = nat])
  have ts: "push_bit 10 ?a + ?b = t" unfolding and_low_bits by (rule bits_ident)
  have uv: "unat (0xd800 + ?a) = 0xd800 + unat ?a" "unat (0xdc00 + ?b) = 0xdc00 + unat ?b"
    using ab by (simp_all add: unat_word_ariths)
  have e: "encode_utf16 s = unit_bytes (0xd800 + ?a) @ unit_bytes (0xdc00 + ?b)" "length (encode_utf16 s) = 2 + 2"
    using False by (simp_all add: encode_utf16_pair t_def unit_bytes_def)
  have l: "c + 4 \<le> limit" using assms(2) e(2) by simp
  have "bytes_get bytes c 2 @ bytes_get bytes (c + 2) 2 = unit_bytes (0xd800 + ?a) @ unit_bytes (0xdc00 + ?b)"
    using assms(1) unfolding e(2) bytes_get_add by (simp only: e(1))
  then have "bytes_get bytes c 2 = unit_bytes (0xd800 + ?a) \<and> bytes_get bytes (c + 2) 2 = unit_bytes (0xdc00 + ?b)"
    using l assms(3) by (subst (asm) append_eq_append_conv) (simp_all add: unit_bytes_def)
  then have "read_utf16 bytes c = 0xd800 + ?a" "read_utf16 bytes (c + 2) = 0xdc00 + ?b"
    using l assms(3) ab uv by (auto intro!: read_utf16_unit(2))
  moreover have "\<not> limit - c < 2" "\<not> limit - (c + 2) < 2" using l by simp_all
  ultimately show ?thesis
    using l e(2) ab uv ts t(1) by (simp add: next_utf16_def Let_def word_le_nat_alt word_less_nat_alt add.assoc)
qed

subsection \<open>Any encoding\<close>

definition encode_scalar :: "turbowasm_component_string_origin \<Rightarrow> u32 \<Rightarrow> u8 list" where
  "encode_scalar origin s =
     (case origin of
        TURBOWASM_COMPONENT_STRING_ORIGIN_UTF8 \<Rightarrow> encode_utf8 s
      | TURBOWASM_COMPONENT_STRING_ORIGIN_LATIN1 \<Rightarrow> [ucast s]
      | _ \<Rightarrow> encode_utf16 s)"

text \<open>The code points that an encoding has.\<close>

definition encodable :: "turbowasm_component_string_origin \<Rightarrow> u32 \<Rightarrow> bool" where
  "encodable origin s \<longleftrightarrow> scalar_valid s \<and> (origin = TURBOWASM_COMPONENT_STRING_ORIGIN_LATIN1 \<longrightarrow> s < 0x100)"

definition encoded :: "turbowasm_component_string_origin \<Rightarrow> u32 list \<Rightarrow> u8 list" where
  "encoded origin ss = concat (map (encode_scalar origin) ss)"

lemma encoded_simps [simp]:
  "encoded origin [] = []" "encoded origin (s # ss) = encode_scalar origin s @ encoded origin ss"
  "encoded origin (ss @ ts) = encoded origin ss @ encoded origin ts"
  by (simp_all add: encoded_def)

lemma encode_utf8_nonempty [simp]: "encode_utf8 s \<noteq> []" and encode_utf16_nonempty [simp]: "encode_utf16 s \<noteq> []"
  by (auto simp: encode_utf8_def encode_utf16_def Let_def split: prod.splits)

lemma encode_scalar_nonempty [simp]: "encode_scalar origin s \<noteq> []"
  by (simp add: encode_scalar_def split: turbowasm_component_string_origin.split)

lemma encode_scalar_simps [simp]:
  "encode_scalar TURBOWASM_COMPONENT_STRING_ORIGIN_UTF8 s = encode_utf8 s"
  "encode_scalar TURBOWASM_COMPONENT_STRING_ORIGIN_UTF16 s = encode_utf16 s"
  "encode_scalar TURBOWASM_COMPONENT_STRING_ORIGIN_COMPACT_UTF16 s = encode_utf16 s"
  "encode_scalar TURBOWASM_COMPONENT_STRING_ORIGIN_LATIN1 s = [ucast s]"
  by (simp_all add: encode_scalar_def)

text \<open>A step of the scan accepts exactly the encodings of the code points.\<close>

lemma next_scalar_sound:
  assumes "next_scalar bytes limit c origin = Some (s, c')" "limit \<le> length bytes"
  shows "encodable origin s \<and> bytes_get bytes c (length (encode_scalar origin s)) = encode_scalar origin s \<and>
    c' = c + length (encode_scalar origin s)"
proof -
  have c: "c < limit" using assms(1) by (simp add: next_scalar_def split: if_splits)
  show ?thesis
  proof (cases "origin = TURBOWASM_COMPONENT_STRING_ORIGIN_LATIN1")
    case True
    then have "s = ucast (bytes ! c)" "c' = c + 1" using assms(1) by (auto simp: next_scalar_def split: if_splits)
    then show ?thesis using True c assms(2) unat_less_exp [of "bytes ! c"]
      by (simp add: encodable_def scalar_valid_def byte_scalar bytes_get_Cons word_less_nat_alt unsigned_ucast_eq take_bit_nat_eq_self)
         (simp add: bytes_get_def)
  next
    case False
    then have v: "scalar_valid s" "(if origin \<noteq> TURBOWASM_COMPONENT_STRING_ORIGIN_UTF8 then next_utf16 bytes limit c else next_utf8 bytes limit c) = Some (s, c')"
      using assms(1) by (auto simp: next_scalar_def split: if_splits option.splits prod.splits)
    then show ?thesis
      using False c assms(2) next_utf8_sound [of bytes limit c s c'] next_utf16_sound [of bytes limit c s c']
      by (cases origin) (simp_all add: encodable_def)
  qed
qed

lemma next_scalar_complete:
  assumes "encodable origin s" "bytes_get bytes c (length (encode_scalar origin s)) = encode_scalar origin s"
    "c + length (encode_scalar origin s) \<le> limit" "limit \<le> length bytes"
  shows "next_scalar bytes limit c origin = Some (s, c + length (encode_scalar origin s))"
proof -
  have c: "c < limit" using assms(3) by (metis encode_scalar_nonempty le_add1 length_0_conv less_le_trans less_add_same_cancel1 neq0_conv)
  have "unat s < 0x200000" using assms(1) by (auto simp: encodable_def scalar_valid_def word_less_nat_alt)
  then show ?thesis
  proof (cases "origin = TURBOWASM_COMPONENT_STRING_ORIGIN_LATIN1")
    case True
    then have "bytes ! c = ucast s" "unat s < 256" using assms c by (simp_all add: bytes_get_Cons encodable_def word_less_nat_alt)
    then show ?thesis using True c by (simp add: next_scalar_def byte_scalar)
  next
    case False
    then show ?thesis
      using assms c \<open>unat s < 0x200000\<close> next_utf8_complete [of bytes c s limit] next_utf16_complete [of bytes c s limit]
      by (cases origin) (simp_all add: next_scalar_def encodable_def)
  qed
qed

end
