(* ===== verification/TW_String_Laws.thy ===== *)
theory TW_String_Laws
  imports TW_Unicode
begin

text \<open>
  Lifted strings: the two scans of the bytes, the bounds of a region of the guest, and which strings are lifted. Then
  the measure of a string that the host owns: the prefixes, the number of code points and of UTF-16 units.
\<close>

section \<open>Lifting\<close>

text \<open>The scan of bytes that encode code points, up to a limit.\<close>

lemma scan_limit:
  assumes "bytes_get raw c (limit - c) = encoded origin (s # ss)" "encodable origin s" "limit \<le> length raw"
  shows "next_scalar raw limit c origin = Some (s, c + length (encode_scalar origin s))" "c < limit"
    "bytes_get raw (c + length (encode_scalar origin s)) (limit - (c + length (encode_scalar origin s))) = encoded origin ss"
proof -
  let ?e = "encode_scalar origin s"
  have c: "c < limit" using assms(1) by (cases "c < limit") (simp_all add: bytes_get_def)
  then have "length (bytes_get raw c (limit - c)) = limit - c" using assms(3) by simp
  then have l: "c + length ?e \<le> limit" using c unfolding assms(1) by simp
  then have "limit - c = length ?e + (limit - (c + length ?e))" by simp
  then have "bytes_get raw c (length ?e) @ bytes_get raw (c + length ?e) (limit - (c + length ?e)) = ?e @ encoded origin ss"
    using assms(1) by (metis bytes_get_add encoded_simps(2))
  moreover have "length (bytes_get raw c (length ?e)) = length ?e" using l assms(3) by simp
  ultimately have "bytes_get raw c (length ?e) = ?e" "bytes_get raw (c + length ?e) (limit - (c + length ?e)) = encoded origin ss"
    by simp_all
  then show "next_scalar raw limit c origin = Some (s, c + length ?e)" "c < limit"
      "bytes_get raw (c + length ?e) (limit - (c + length ?e)) = encoded origin ss"
    using next_scalar_complete [OF assms(2) _ l assms(3)] c by simp_all
qed

lemma scan_step:
  assumes "drop c raw = encoded origin (s # ss)" "encodable origin s"
  shows "next_scalar raw (length raw) c origin = Some (s, c + length (encode_scalar origin s))" "c < length raw"
    "drop (c + length (encode_scalar origin s)) raw = encoded origin ss"
  using scan_limit [of raw c "length raw" origin s ss] assms unfolding bytes_get_all by simp_all

declare lift_size.simps [simp del] lift_encode.simps [simp del] measure_loop.simps [simp del] write_scalars.simps [simp del]

abbreviation utf8_of :: "u32 list \<Rightarrow> u8 list" where "utf8_of \<equiv> encoded TURBOWASM_COMPONENT_STRING_ORIGIN_UTF8"

lemma lift_size_complete:
  "\<lbrakk>drop c raw = encoded origin ss; list_all (encodable origin) ss\<rbrakk> \<Longrightarrow>
     lift_size raw c origin n = Some (n + length (utf8_of ss))"
proof (induction ss arbitrary: c n)
  case Nil
  then show ?case by (subst lift_size.simps) simp
next
  case (Cons s ss)
  note st = scan_step [OF Cons.prems(1)]
  have "encodable origin s" "list_all (encodable origin) ss" using Cons.prems(2) by simp_all
  then show ?case using Cons.IH [OF st(3)] by (subst lift_size.simps) (simp add: st)
qed

lemma lift_encode_complete:
  "\<lbrakk>drop c raw = encoded origin ss; list_all (encodable origin) ss\<rbrakk> \<Longrightarrow>
     lift_encode raw c origin acc = Some (acc @ utf8_of ss)"
proof (induction ss arbitrary: c acc)
  case Nil
  then show ?case by (subst lift_encode.simps) simp
next
  case (Cons s ss)
  note st = scan_step [OF Cons.prems(1)]
  have "encodable origin s" "list_all (encodable origin) ss" using Cons.prems(2) by simp_all
  then show ?case using Cons.IH [OF st(3)] by (subst lift_encode.simps) (simp add: st)
qed

lemma drop_encoded:
  assumes "bytes_get raw c (length e) = e" "drop (c + length e) raw = tl_bytes"
  shows "drop c raw = e @ tl_bytes"
  using assms unfolding bytes_get_def by (metis append_take_drop_id drop_drop add.commute)

lemma lift_size_sound:
  "lift_size raw c origin n = Some m \<Longrightarrow> \<exists>ss. list_all (encodable origin) ss \<and> drop c raw = encoded origin ss"
proof (induction raw c origin n rule: lift_size.induct)
  case (1 raw c origin n)
  show ?case
  proof (cases "c < length raw")
    case True
    then obtain s c' where s: "next_scalar raw (length raw) c origin = Some (s, c')"
        "lift_size raw c' origin (n + length (encode_utf8 s)) = Some m"
      using 1(2) by (subst (asm) lift_size.simps) (auto split: option.splits)
    then obtain ss where ss: "list_all (encodable origin) ss" "drop c' raw = encoded origin ss"
      using 1(1) [OF True s(1) refl] by blast
    have "encodable origin s" "drop c raw = encoded origin (s # ss)"
      using next_scalar_sound [OF s(1)] ss(2) by (auto intro: drop_encoded)
    then show ?thesis using ss(1) by (intro exI [of _ "s # ss"]) simp
  next
    case False
    then show ?thesis by (intro exI [of _ "[]"]) simp
  qed
qed

text \<open>Decoding the bytes of a string: it fails exactly on bytes that encode no code points.\<close>

lemma lift_decode_ok:
  assumes "raw = encoded origin ss" "list_all (encodable origin) ss"
  shows "lift_decode grant raw origin =
     (if origin = TURBOWASM_COMPONENT_STRING_ORIGIN_UTF8 \<or> ss = [] \<or> grant (length (utf8_of ss))
      then Inr \<lparr>string_data = utf8_of ss, string_origin = origin\<rparr> else Inl TURBOWASM_OUT_OF_MEMORY)"
proof -
  have d: "drop 0 raw = encoded origin ss" using assms(1) by simp
  have "length (utf8_of ss) = 0 \<longleftrightarrow> ss = []" by (cases ss) simp_all
  then show ?thesis
    unfolding lift_decode_def lift_size_complete [OF d assms(2)] lift_encode_complete [OF d assms(2)] by (auto simp: assms(1))
qed

lemma lift_decode_bad:
  assumes "\<And>ss. list_all (encodable origin) ss \<Longrightarrow> raw \<noteq> encoded origin ss"
  shows "lift_decode grant raw origin = Inl TURBOWASM_TRAPPED"
proof -
  have "lift_size raw 0 origin 0 = None"
    using assms lift_size_sound [of raw 0 origin 0] by (cases "lift_size raw 0 origin 0") auto
  then show ?thesis by (simp add: lift_decode_def)
qed

subsection \<open>The memory of a call\<close>

text \<open>The memory of a call is an unshared memory of a well-formed heap; these are its bytes.\<close>

definition guest_memory :: "turbowasm_component_canonical_memory \<Rightarrow> instance_heap \<Rightarrow> memory_id \<Rightarrow> bool" where
  "guest_memory memory h x \<longleftrightarrow>
     wf_heap h \<and> memory_target h (canon_instance memory) (canon_memory_index memory) = Some (Inr x) \<and> \<not> mem_shared (mem_at h x)"

abbreviation guest_bytes :: "instance_heap \<Rightarrow> memory_id \<Rightarrow> u8 list" where
  "guest_bytes h x \<equiv> mem_data (mem_at h x)"

definition region_ok :: "turbowasm_component_canonical_memory \<Rightarrow> nat \<Rightarrow> u64 \<Rightarrow> nat \<Rightarrow> u64 \<Rightarrow> bool" where
  "region_ok memory total_bytes pointer n alignment \<longleftrightarrow>
     pointer mod alignment = 0 \<and> (pointer_type memory = TURBOWASM_COMPONENT_POINTER_I32 \<longrightarrow> unat pointer < 2 ^ 32) \<and>
     unat pointer + n \<le> total_bytes"

lemma string_bounds_guest:
  assumes "guest_memory memory h x"
  shows "string_bounds memory pointer n alignment h =
     Some (h, if region_ok memory (length (guest_bytes h x)) pointer (unat n) alignment then Inr () else Inl TURBOWASM_TRAPPED)"
proof -
  have w: "memory_target h (canon_instance memory) (canon_memory_index memory) = Some (Inr x)" "wf_memory (mem_at h x)" "\<not> mem_shared (mem_at h x)"
    using assms unfolding guest_memory_def by (blast, blast intro: wf_heap_target, blast)
  have big: "pointer > 0xffffffff \<longleftrightarrow> \<not> unat pointer < 2 ^ 32" by (auto simp: word_less_nat_alt)
  show ?thesis
    by (auto simp: string_bounds_def guest_fail_def region_ok_def big no_word_above_max memory_bounds_wf [OF w])
qed

lemma memory_read_wf:
  assumes "wf_heap h" "memory_target h i k = Some (Inr x)" "n < 2 ^ 64"
  shows "turbowasm_instance_memory_read_bytes h i k address offset n =
     Some (if unat address + unat offset + n \<le> length (guest_bytes h x)
           then (TURBOWASM_OK, bytes_get (guest_bytes h x) (unat address + unat offset) n) else (TURBOWASM_TRAPPED, []))"
proof -
  have "unat (of_nat n :: u64) = n" using assms(3) by (simp add: unat_of_nat)
  then show ?thesis
    using wf_heap_target [OF assms(1,2)] assms(2) by (simp add: turbowasm_instance_memory_read_bytes_def storage_range_wf)
qed

lemma lift_width: "lift_shape memory tagged_length = (origin, width, alignment, units) \<Longrightarrow> width \<in> {1, 2}"
  by (auto simp: lift_shape_def split: if_splits)

lemma lift_units:
  assumes "width \<in> {1, 2 :: u64}"
  shows "units > of_nat TW_STRING_MAX_BYTES div width \<longleftrightarrow> unat units * unat width > TW_STRING_MAX_BYTES"
    "\<not> units > of_nat TW_STRING_MAX_BYTES div width \<Longrightarrow> unat (units * width) = unat units * unat width"
  using assms by (auto simp: word_less_nat_alt unat_div unat_word_ariths not_less)

lemma lift_eq:
  assumes "guest_memory memory h x" "lift_shape memory tagged_length = (origin, width, alignment, units)"
  shows "turbowasm_component_string_lift grant memory pointer tagged_length h =
     Some (h, let n = unat units * unat width in
       if n > TW_STRING_MAX_BYTES \<or> \<not> region_ok memory (length (guest_bytes h x)) pointer n alignment then Inl TURBOWASM_TRAPPED
       else if n \<noteq> 0 \<and> \<not> grant n then Inl TURBOWASM_OUT_OF_MEMORY
       else lift_decode grant (bytes_get (guest_bytes h x) (unat pointer) n) origin)"
proof (cases "units > of_nat TW_STRING_MAX_BYTES div width")
  case True
  then show ?thesis
    using lift_units(1) [OF lift_width [OF assms(2)], of units]
    by (simp add: turbowasm_component_string_lift_def memory_valid_def turbowasm_component_string_encoding_valid_def assms(2) guest_fail_def)
       (metis turbowasm_component_string_encoding.exhaust turbowasm_component_pointer_type.exhaust)
next
  case False
  note u = lift_units [OF lift_width [OF assms(2)], of units]
  have v: "memory_valid memory"
    by (cases "string_encoding memory"; cases "pointer_type memory")
       (simp_all add: memory_valid_def turbowasm_component_string_encoding_valid_def)
  let ?n = "unat units * unat width"
  have n: "unat (units * width) = ?n" "\<not> ?n > TW_STRING_MAX_BYTES" using False u by simp_all
  have z: "units * width = 0 \<longleftrightarrow> ?n = 0" by (simp add: unat_eq_0 flip: n(1))
  have g: "wf_heap h" "memory_target h (canon_instance memory) (canon_memory_index memory) = Some (Inr x)"
    using assms(1) by (simp_all add: guest_memory_def)
  have r: "turbowasm_instance_memory_read_bytes h (canon_instance memory) (canon_memory_index memory) pointer 0 ?n =
      Some (TURBOWASM_OK, bytes_get (guest_bytes h x) (unat pointer) ?n)"
    if "region_ok memory (length (guest_bytes h x)) pointer ?n alignment"
    using that n(2) by (subst memory_read_wf [OF g]) (simp_all add: region_ok_def)
  have e: "bytes_get (guest_bytes h x) (unat pointer) 0 = []" by (simp add: bytes_get_def)
  show ?thesis
    using False n v r e unfolding turbowasm_component_string_lift_def assms(2)
    by (auto simp: guest_then_def guest_fail_def string_bounds_guest [OF assms(1)] Let_def z)
qed

text \<open>
  C9. A lifted string. It lies in the guest memory as the options and the tag of its length say. The call traps when
  the bytes are too many, misaligned or not all in the memory, or when they are not the encoding of Unicode scalar
  values in their shortest form; otherwise, memory permitting, it returns the UTF-8 form of exactly these values.
  The memory stays as it is.
\<close>

theorem string_lift_correct:
  fixes pointer :: u64
  assumes "guest_memory memory h x" "lift_shape memory tagged_length = (origin, width, alignment, units)"
  defines "n \<equiv> unat units * unat width"
  defines "raw \<equiv> take n (drop (unat pointer) (guest_bytes h x))"
  defines "fits \<equiv> n < 2 ^ 28 \<and> region_ok memory (length (guest_bytes h x)) pointer n alignment"
  shows "(fits \<and> raw = encoded origin ss \<and> list_all (encodable origin) ss \<longrightarrow>
       turbowasm_component_string_lift (\<lambda>_. True) memory pointer tagged_length h =
         Some (h, Inr \<lparr>string_data = utf8_of ss, string_origin = origin\<rparr>)) \<and>
     (\<not> fits \<or> (\<nexists>ss. raw = encoded origin ss \<and> list_all (encodable origin) ss) \<longrightarrow>
       turbowasm_component_string_lift (\<lambda>_. True) memory pointer tagged_length h = Some (h, Inl TURBOWASM_TRAPPED)) \<and>
     (turbowasm_component_string_lift grant memory pointer tagged_length h =
        turbowasm_component_string_lift (\<lambda>_. True) memory pointer tagged_length h \<or>
      turbowasm_component_string_lift grant memory pointer tagged_length h = Some (h, Inl TURBOWASM_OUT_OF_MEMORY))"
proof -
  let ?data = "bytes_get (guest_bytes h x) (unat pointer) n"
  have raw: "raw = ?data" by (simp add: raw_def bytes_get_def)
  have eq: "turbowasm_component_string_lift g memory pointer tagged_length h =
      Some (h, if \<not> fits then Inl TURBOWASM_TRAPPED else if n \<noteq> 0 \<and> \<not> g n then Inl TURBOWASM_OUT_OF_MEMORY
               else lift_decode g raw origin)" for g
    unfolding lift_eq [OF assms(1,2)] Let_def n_def [symmetric] raw fits_def by (rule arg_cong [of _ _ "\<lambda>r. Some (h, r)"]) auto
  have same: "lift_decode grant raw origin = lift_decode (\<lambda>_. True) raw origin \<or> lift_decode grant raw origin = Inl TURBOWASM_OUT_OF_MEMORY"
    by (simp add: lift_decode_def split: option.split)
  have ok: "raw = encoded origin ss \<and> list_all (encodable origin) ss \<Longrightarrow>
      lift_decode (\<lambda>_. True) raw origin = Inr \<lparr>string_data = utf8_of ss, string_origin = origin\<rparr>"
    by (simp add: lift_decode_ok)
  have bad: "(\<nexists>ss. raw = encoded origin ss \<and> list_all (encodable origin) ss) \<Longrightarrow> lift_decode (\<lambda>_. True) raw origin = Inl TURBOWASM_TRAPPED"
    by (rule lift_decode_bad) blast
  show ?thesis unfolding eq using ok bad same by simp
qed

definition lift_memory :: turbowasm_component_canonical_memory where
  "lift_memory =
     \<lparr>canon_instance = 8, canon_memory_index = 0, pointer_type = TURBOWASM_COMPONENT_POINTER_I32,
      string_encoding = TURBOWASM_COMPONENT_STRING_LATIN1_UTF16, guest_realloc = None\<rparr>"

lemma string_lift_correct_witness:
  "turbowasm_component_string_lift (\<lambda>_. True) lift_memory 4 3 sample_heap =
     Some (sample_heap, Inr \<lparr>string_data = [0, 0, 0], string_origin = TURBOWASM_COMPONENT_STRING_ORIGIN_LATIN1\<rparr>)"
proof -
  have g: "guest_memory lift_memory sample_heap (7, 0)"
    using wf_sample_heap sample_target(2) sample_at
    by (simp add: guest_memory_def lift_memory_def sample_memory_def cleared_memory_def)
  have s: "lift_shape lift_memory 3 = (TURBOWASM_COMPONENT_STRING_ORIGIN_LATIN1, 1, 2, 3)"
    by (simp add: lift_shape_def lift_memory_def utf16_tag_def)
  have r: "replicate 3 0 = [0, 0, 0 :: u8]" by (simp add: numeral_3_eq_3)
  show ?thesis
    using string_lift_correct [OF g s, where pointer = 4 and ss = "[0, 0, 0]" and grant = "\<lambda>_. True"]
    by (simp add: r sample_at region_ok_def encodable_def scalar_valid_def encode_utf8_def sample_memory_def)
qed

section \<open>Measuring\<close>

definition code_units :: "u32 list \<Rightarrow> nat" where
  "code_units ss = sum_list (map (\<lambda>s. if s < 0x10000 then 1 else 2) ss)"

definition ascii_part :: "u32 list \<Rightarrow> u32 list" where "ascii_part = takeWhile (\<lambda>s. s < 0x80)"
definition latin1_part :: "u32 list \<Rightarrow> u32 list" where "latin1_part = takeWhile (\<lambda>s. s < 0x100)"

abbreviation latin1_of :: "u32 list \<Rightarrow> u8 list" where "latin1_of \<equiv> encoded TURBOWASM_COMPONENT_STRING_ORIGIN_LATIN1"
abbreviation utf16_of :: "u32 list \<Rightarrow> u8 list" where "utf16_of \<equiv> encoded TURBOWASM_COMPONENT_STRING_ORIGIN_UTF16"

lemma length_encode_utf8:
  "length (encode_utf8 s) = (if s < 0x80 then 1 else if s < 0x800 then 2 else if s < 0x10000 then 3 else 4)"
proof -
  have "length bs = n" if "utf8_tail n s [] = (r, bs)" for n r bs using utf8_tail_rest [OF that] by simp
  then show ?thesis by (auto simp: encode_utf8_def Let_def split: prod.split)
qed

lemma length_encode_utf16: "length (encode_utf16 s) = (if s < 0x10000 then 2 else 4)"
  by (simp add: encode_utf16_def Let_def)

lemma code_units_simps [simp]: "code_units [] = 0" "code_units (s # ss) = (if s < 0x10000 then 1 else 2) + code_units ss"
  by (simp_all add: code_units_def)

lemma length_utf16_of [simp]: "length (utf16_of ss) = 2 * code_units ss"
  by (induction ss) (simp_all add: length_encode_utf16)

lemma length_latin1_of [simp]: "length (latin1_of ss) = length ss"
  by (induction ss) simp_all

lemma length_code_units: "length ss \<le> code_units ss" "code_units ss \<le> length (utf8_of ss)" "length (utf8_of ss) \<le> 3 * code_units ss"
proof -
  show "length ss \<le> code_units ss" by (induction ss) auto
  have *: "(if s < 0x10000 then 1 else 2) \<le> length (encode_utf8 s) \<and> length (encode_utf8 s) \<le> 3 * (if s < 0x10000 then 1 else 2)" for s
    by (simp add: length_encode_utf8 word_less_nat_alt)
  have "code_units ss \<le> length (utf8_of ss) \<and> length (utf8_of ss) \<le> 3 * code_units ss"
  proof (induction ss)
    case (Cons s ss)
    then show ?case using * [of s] by simp
  qed simp
  then show "code_units ss \<le> length (utf8_of ss)" "length (utf8_of ss) \<le> 3 * code_units ss" by simp_all
qed

lemma latin1_lengths:
  assumes "list_all (\<lambda>s. s < 0x100) ss"
  shows "code_units ss = length ss" "length (utf8_of ss) \<le> 2 * length ss"
proof -
  have "code_units ss = length ss \<and> length (utf8_of ss) \<le> 2 * length ss"
    using assms by (induction ss) (auto simp: length_encode_utf8 word_less_nat_alt)
  then show "code_units ss = length ss" "length (utf8_of ss) \<le> 2 * length ss" by simp_all
qed

lemma ascii_length: "length (utf8_of (ascii_part ss)) = length (ascii_part ss)"
  by (induction ss) (simp_all add: ascii_part_def length_encode_utf8)

lemma length_ascii_part: "length (ascii_part ss) \<le> length ss" and length_latin1_part: "length (latin1_part ss) \<le> length ss"
  by (simp_all add: ascii_part_def latin1_part_def length_takeWhile_le)

lemma whole_part: "list_all (\<lambda>s. s < 0x80) ss \<Longrightarrow> ascii_part ss = ss" "list_all (\<lambda>s. s < 0x100) ss \<Longrightarrow> latin1_part ss = ss"
  by (simp_all add: ascii_part_def latin1_part_def list_all_iff)

text \<open>What the scan has found after the code points \<open>ss\<close> of a string of \<open>total_bytes\<close> bytes.\<close>

definition scanned :: "nat \<Rightarrow> u32 list \<Rightarrow> string_measure \<Rightarrow> bool" where
  "scanned total_bytes ss m \<longleftrightarrow>
     measure_scalars m = length ss \<and> utf16_units m = code_units ss \<and>
     ascii_prefix m = (if list_all (\<lambda>s. s < 0x80) ss then total_bytes else length (utf8_of (ascii_part ss))) \<and>
     measure_latin1 m = list_all (\<lambda>s. s < 0x100) ss \<and>
     (\<not> measure_latin1 m \<longrightarrow> latin1_prefix m = length (latin1_part ss) \<and> latin1_prefix_bytes m = length (utf8_of (latin1_part ss)))"

lemma takeWhile_snoc: "takeWhile P (xs @ [x]) = (if list_all P xs then xs @ (if P x then [x] else []) else takeWhile P xs)"
  by (induction xs) simp_all

lemma code_units_snoc: "code_units (ss @ ts) = code_units ss + code_units ts"
  by (simp add: code_units_def)

lemma utf8_of_takeWhile: "length (utf8_of (takeWhile P ss)) \<le> length (utf8_of ss)"
  by (induction ss) simp_all

lemma scanned_step:
  assumes "scanned total_bytes ss m" "length (utf8_of ss) < total_bytes"
  shows "scanned total_bytes (ss @ [s]) (measure_scalar total_bytes (length (utf8_of ss)) s m)"
proof -
  have "length (utf8_of (ascii_part ss)) < total_bytes"
    using assms(2) utf8_of_takeWhile [of "\<lambda>s. s < 0x80" ss] by (simp add: ascii_part_def)
  moreover have "takeWhile (\<lambda>s. s < 0x80) ss = ss" if "list_all (\<lambda>s. s < 0x80) ss" using that by (simp add: list_all_iff)
  ultimately show ?thesis
    using assms by (auto simp: scanned_def measure_scalar_def Let_def takeWhile_snoc code_units_snoc ascii_part_def latin1_part_def not_less not_le)
qed

lemma measure_loop_scan:
  assumes "string_d = utf8_of (ss @ ts)" "list_all scalar_valid (ss @ ts)" "scanned (length string_d) ss m"
  shows "\<exists>m'. measure_loop string_d (length (utf8_of ss)) m = Some m' \<and> scanned (length string_d) (ss @ ts) m'"
  using assms
proof (induction ts arbitrary: ss m)
  case Nil
  then show ?case by (subst measure_loop.simps) simp
next
  case (Cons t ts)
  have d: "drop (length (utf8_of ss)) string_d = utf8_of (t # ts)" using Cons.prems(1) by simp
  have v: "encodable TURBOWASM_COMPONENT_STRING_ORIGIN_UTF8 t" using Cons.prems(2) by (simp add: encodable_def)
  have st: "next_scalar string_d (length string_d) (length (utf8_of ss)) TURBOWASM_COMPONENT_STRING_ORIGIN_UTF8 =
      Some (t, length (utf8_of (ss @ [t])))" "length (utf8_of ss) < length string_d"
    using scan_step [OF d v] by simp_all
  have "scanned (length string_d) (ss @ [t]) (measure_scalar (length string_d) (length (utf8_of ss)) t m)"
    by (rule scanned_step [OF Cons.prems(3) st(2)])
  then show ?case using Cons.prems(1,2) Cons.IH [of "ss @ [t]"] st by (subst measure_loop.simps) simp
qed

lemma measure_loop_sound:
  assumes "measure_loop d c m = Some m'" shows "\<exists>ss. list_all scalar_valid ss \<and> drop c d = utf8_of ss"
  using assms
proof (induction d c m rule: measure_loop.induct)
  case (1 d c m)
  show ?case
  proof (cases "c < length d")
    case True
    then obtain s c' where s: "next_scalar d (length d) c TURBOWASM_COMPONENT_STRING_ORIGIN_UTF8 = Some (s, c')"
        "measure_loop d c' (measure_scalar (length d) c s m) = Some m'"
      using 1(2) by (subst (asm) measure_loop.simps) (auto split: option.splits)
    then obtain ss where ss: "list_all scalar_valid ss" "drop c' d = utf8_of ss" using 1(1) [OF True s(1) refl] by blast
    have "scalar_valid s" "drop c d = utf8_of (s # ss)"
      using next_scalar_sound [OF s(1)] ss(2) by (auto simp: encodable_def intro: drop_encoded)
    then show ?thesis using ss(1) by (intro exI [of _ "s # ss"]) simp
  next
    case False
    then show ?thesis by (intro exI [of _ "[]"]) simp
  qed
qed

text \<open>The units of the encoding a string came from.\<close>

definition source_length :: "turbowasm_component_string_origin \<Rightarrow> u32 list \<Rightarrow> nat" where
  "source_length origin ss =
     (case origin of
        TURBOWASM_COMPONENT_STRING_ORIGIN_UTF8 \<Rightarrow> length (utf8_of ss)
      | TURBOWASM_COMPONENT_STRING_ORIGIN_LATIN1 \<Rightarrow> length ss
      | _ \<Rightarrow> code_units ss)"

lemma measure_string_inv:
  assumes "measure_string string = Inr m"
  obtains ss where "string_data string = utf8_of ss" "list_all (encodable (string_origin string)) ss"
    "measure_scalars m = length ss" "utf16_units m = code_units ss" "ascii_prefix m = length (utf8_of (ascii_part ss))"
    "measure_latin1 m \<longleftrightarrow> list_all (\<lambda>s. s < 0x100) ss" "latin1_prefix m = length (latin1_part ss)"
    "latin1_prefix_bytes m = length (utf8_of (latin1_part ss))" "length (string_data string) < 2 ^ 29" "source_length (string_origin string) ss < 2 ^ 28"
proof -
  define d where "d = string_data string"
  define m0 where "m0 = \<lparr>measure_scalars = 0, utf16_units = 0, ascii_prefix = length d, latin1_prefix = 0, latin1_prefix_bytes = 0, measure_latin1 = True\<rparr>"
  obtain r where r: "measure_loop d 0 m0 = Some r" using assms by (auto simp: measure_string_def Let_def d_def m0_def split: if_splits option.splits)
  obtain ss where ss: "list_all scalar_valid ss" "d = utf8_of ss" using measure_loop_sound [OF r] by auto
  have sc: "scanned (length d) ss r"
    using measure_loop_scan [of d "[]" ss m0] ss r by (simp add: scanned_def m0_def ascii_part_def)
  have m: "m = (if measure_latin1 r then r\<lparr>latin1_prefix := measure_scalars r, latin1_prefix_bytes := length d\<rparr> else r)"
      "string_origin string = TURBOWASM_COMPONENT_STRING_ORIGIN_LATIN1 \<Longrightarrow> measure_latin1 r"
    using assms r by (auto simp: measure_string_def Let_def d_def [symmetric] m0_def [symmetric] split: if_splits)
  have a: "ascii_prefix m = length (utf8_of (ascii_part ss))" "latin1_prefix m = length (latin1_part ss)"
      "latin1_prefix_bytes m = length (utf8_of (latin1_part ss))"
    using sc m(1) ss(2) by (auto simp: scanned_def whole_part)
  have lim: "length d \<le> TW_STRING_MAX_BYTES * 2"
  proof (rule ccontr)
    assume "\<not> ?thesis"
    then have "measure_string string = Inl TURBOWASM_INVALID_ARGUMENT" by (simp add: measure_string_def Let_def d_def [symmetric])
    then show False using assms by simp
  qed
  have src: "(if string_origin string = TURBOWASM_COMPONENT_STRING_ORIGIN_UTF8 then length d
      else if string_origin string = TURBOWASM_COMPONENT_STRING_ORIGIN_LATIN1 then measure_scalars r else utf16_units r * 2) \<le> TW_STRING_MAX_BYTES"
  proof (rule ccontr)
    assume "\<not> ?thesis"
    then have "measure_string string = Inl TURBOWASM_INVALID_ARGUMENT"
      unfolding measure_string_def Let_def d_def [symmetric] m0_def [symmetric] r by (simp split: if_splits)
    then show False using assms by simp
  qed
  have sl: "source_length (string_origin string) ss < 2 ^ 28"
    using src sc ss(2) by (cases "string_origin string") (simp_all add: source_length_def scanned_def)
  have dl: "length d < 2 ^ 29" using lim by simp
  show thesis
    using sc m a sl dl ss by (intro that [of ss]) (auto simp: d_def scanned_def encodable_def list_all_iff)
qed

end
