(* ===== verification/TW_String_Lower.thy ===== *)
theory TW_String_Lower
  imports TW_String_Laws
begin

text \<open>
  Lowered strings. The region that the guest allocates is described by the bytes it begins with; every step of the
  lowering (a new region, the bytes behind what is there, the change of width) has its effect on these bytes. The
  result is the encoding that the guest asked for, and lifting it returns the string.
\<close>

section \<open>Lowering\<close>

subsection \<open>Actions on the guest\<close>

text \<open>
  An action ends in a state that satisfies \<open>Q\<close> if it ends well; when it \<open>must\<close>, it does end well.
\<close>

definition ends :: "bool \<Rightarrow> 'a guest_action \<Rightarrow> instance_heap \<Rightarrow> ('a \<Rightarrow> instance_heap \<Rightarrow> bool) \<Rightarrow> bool" where
  "ends must m h Q \<longleftrightarrow> (case m h of Some (h', Inr a) \<Rightarrow> Q a h' | _ \<Rightarrow> \<not> must)"

lemma ends_return: "Q a h \<Longrightarrow> ends must (guest_return a) h Q"
  by (simp add: ends_def guest_return_def)

lemma ends_then:
  assumes "ends must m h P" "\<And>a h'. P a h' \<Longrightarrow> ends must (f a) h' Q"
  shows "ends must (guest_then m f) h Q"
  using assms by (fastforce simp: ends_def guest_then_def split: option.splits prod.splits sum.splits)

lemma ends_mono: "ends must m h P \<Longrightarrow> (\<And>a h'. P a h' \<Longrightarrow> Q a h') \<Longrightarrow> (must' \<longrightarrow> must) \<Longrightarrow> ends must' m h Q"
  by (fastforce simp: ends_def split: option.splits prod.splits sum.splits)

lemma ends_if: "(b \<Longrightarrow> ends must m h Q) \<Longrightarrow> (\<not> b \<Longrightarrow> ends must n h Q) \<Longrightarrow> ends must (if b then m else n) h Q"
  by simp

text \<open>
  The allocator of the guest: the bytes that its memory has at least, and the regions that it has issued and not taken back.
  Which ones these are is recorded somewhere in the guest, but not in the bytes of the regions: writing into a region
  leaves it issued.
\<close>

record guest_allocator =
  least_bytes :: nat
  issued :: "instance_heap \<Rightarrow> u64 \<Rightarrow> u64 \<Rightarrow> bool"

definition guest_room :: "guest_allocator \<Rightarrow> turbowasm_component_canonical_memory \<Rightarrow> instance_heap \<Rightarrow> memory_id \<Rightarrow> bool" where
  "guest_room alloc memory h x \<longleftrightarrow> guest_memory memory h x \<and> least_bytes alloc \<le> length (guest_bytes h x)"

definition writes_keep :: "guest_allocator \<Rightarrow> memory_id \<Rightarrow> bool" where
  "writes_keep alloc x \<longleftrightarrow>
     (\<forall>h p n offset bs. issued alloc h p n \<and> unat p + unat n \<le> length (guest_bytes h x) \<and> offset + length bs \<le> unat n \<longrightarrow>
        issued alloc (mem_store h x (unat p + offset) bs) p n)"

text \<open>
  What the calling convention asks of the reallocation function of the guest. It is called for a new region, or for one that it
  issued. The memory of the call stays that memory, with at least \<open>least_bytes\<close>, the new region is issued, and the bytes of
  the old region are found in the new one, as many as both have. A granted request ends well, with a region that is
  aligned and lies in the memory.
\<close>

definition realloc_contract ::
    "(nat \<Rightarrow> bool) \<Rightarrow> guest_allocator \<Rightarrow> turbowasm_component_canonical_memory \<Rightarrow> memory_id \<Rightarrow> (u64 \<Rightarrow> u64 \<Rightarrow> u64 \<Rightarrow> u64 \<Rightarrow> u64 guest_action) \<Rightarrow> bool" where
  "realloc_contract grants alloc memory x realloc \<longleftrightarrow> writes_keep alloc x \<and>
     (\<forall>h p old alignment n. guest_room alloc memory h x \<and> (p = 0 \<and> old = 0 \<or> issued alloc h p old) \<and>
          unat p + unat old \<le> length (guest_bytes h x) \<longrightarrow>
        ends (grants (unat n)) (realloc p old alignment n) h (\<lambda>p' h'.
          guest_room alloc memory h' x \<and> issued alloc h' p' n \<and>
          (grants (unat n) \<longrightarrow> region_ok memory (length (guest_bytes h' x)) p' (unat n) alignment) \<and>
          (unat p' + unat n \<le> length (guest_bytes h' x) \<longrightarrow>
             (let kept = min (unat old) (unat n) in
              bytes_get (guest_bytes h' x) (unat p') kept = bytes_get (guest_bytes h x) (unat p) kept))))"

lemma realloc_contractD:
  "\<lbrakk>realloc_contract grants alloc memory x realloc; guest_room alloc memory h x; p = 0 \<and> old = 0 \<or> issued alloc h p old;
     unat p + unat old \<le> length (guest_bytes h x)\<rbrakk> \<Longrightarrow>
     ends (grants (unat n)) (realloc p old alignment n) h (\<lambda>p' h'.
          guest_room alloc memory h' x \<and> issued alloc h' p' n \<and>
          (grants (unat n) \<longrightarrow> region_ok memory (length (guest_bytes h' x)) p' (unat n) alignment) \<and>
          (unat p' + unat n \<le> length (guest_bytes h' x) \<longrightarrow>
             (let kept = min (unat old) (unat n) in
              bytes_get (guest_bytes h' x) (unat p') kept = bytes_get (guest_bytes h x) (unat p) kept)))"
  unfolding realloc_contract_def by blast

lemma realloc_contract_writes: "realloc_contract grants alloc memory x realloc \<Longrightarrow> writes_keep alloc x"
  unfolding realloc_contract_def by blast

text \<open>The region of the guest string holds the bytes \<open>buf\<close>.\<close>

definition holds :: "guest_allocator \<Rightarrow> turbowasm_component_canonical_memory \<Rightarrow> memory_id \<Rightarrow> u64 \<Rightarrow> guest_string \<Rightarrow> instance_heap \<Rightarrow> u8 list \<Rightarrow> bool" where
  "holds alloc memory x alignment guest h buf \<longleftrightarrow>
     guest_room alloc memory h x \<and> writes_keep alloc x \<and>
     (guest_pointer guest = 0 \<and> guest_capacity guest = 0 \<or> issued alloc h (guest_pointer guest) (guest_capacity guest)) \<and>
     length buf = unat (guest_capacity guest) \<and>
     region_ok memory (length (guest_bytes h x)) (guest_pointer guest) (length buf) alignment \<and>
     bytes_get (guest_bytes h x) (unat (guest_pointer guest)) (length buf) = buf"

lemma holds_empty: "guest_room alloc memory h x \<Longrightarrow> writes_keep alloc x \<Longrightarrow> holds alloc memory x 1 \<lparr>guest_pointer = 0, guest_capacity = 0\<rparr> h []"
  by (simp add: holds_def region_ok_def bytes_get_def)

lemma resize_holds:
  assumes "realloc_contract grants alloc memory x realloc" "guest_realloc memory = Some realloc"
    "holds alloc memory x a guest h buf" "n < 2 ^ 32"
  shows "ends (grants n) (resize memory guest alignment (of_nat n)) h (\<lambda>guest' h'. \<exists>buf'.
     holds alloc memory x alignment guest' h' buf' \<and> length buf' = n \<and> take (min (length buf) n) buf' = take (min (length buf) n) buf)"
proof -
  have n: "unat (of_nat n :: u64) = n" "\<not> of_nat n > (0xffffffff :: u64)"
    using assms(4) by (simp_all add: unat_of_nat word_less_nat_alt)
  let ?p = "guest_pointer guest" and ?c = "guest_capacity guest"
  have g: "guest_room alloc memory h x" "unat ?p + unat ?c \<le> length (guest_bytes h x)" "length buf = unat ?c"
      "bytes_get (guest_bytes h x) (unat ?p) (length buf) = buf" "?p = 0 \<and> ?c = 0 \<or> issued alloc h ?p ?c" "writes_keep alloc x"
    using assms(3) unfolding holds_def region_ok_def by (blast, metis, blast, blast, blast, blast)
  have k: "bytes_get (guest_bytes h x) (unat ?p) (min (length buf) n) = take (min (length buf) n) buf"
    using bytes_get_take [of "min (length buf) n" "length buf" "guest_bytes h x" "unat ?p"] g(4) by simp
  let ?P = "\<lambda>p' h'. guest_room alloc memory h' x \<and> issued alloc h' p' (of_nat n) \<and> (grants n \<longrightarrow> region_ok memory (length (guest_bytes h' x)) p' n alignment) \<and>
      (unat p' + n \<le> length (guest_bytes h' x) \<longrightarrow>
         bytes_get (guest_bytes h' x) (unat p') (min (length buf) n) = take (min (length buf) n) buf)"
  have r: "ends (grants n) (realloc ?p ?c alignment (of_nat n)) h ?P"
    using realloc_contractD [OF assms(1) g(1,5,2), of "of_nat n" alignment] unfolding n(1) g(3) [symmetric] Let_def k .
  have eq: "resize memory guest alignment (of_nat n) = guest_then (realloc ?p ?c alignment (of_nat n)) (\<lambda>pointer.
      guest_then (string_bounds memory pointer (of_nat n) alignment) (\<lambda>_. guest_return \<lparr>guest_pointer = pointer, guest_capacity = of_nat n\<rparr>))"
    using n(2) assms(2) by (simp add: resize_def)
  show ?thesis unfolding eq
  proof (rule ends_then [OF r])
    fix p' h' assume a: "?P p' h'"
    then have b: "ends (grants n) (string_bounds memory p' (of_nat n) alignment) h'
        (\<lambda>_ h''. h'' = h' \<and> region_ok memory (length (guest_bytes h' x)) p' n alignment)"
      by (simp add: ends_def string_bounds_guest [OF a [THEN conjunct1, unfolded guest_room_def, THEN conjunct1]] n(1)) blast
    have "holds alloc memory x alignment \<lparr>guest_pointer = p', guest_capacity = of_nat n\<rparr> h' (bytes_get (guest_bytes h' x) (unat p') n)"
        "take (min (length buf) n) (bytes_get (guest_bytes h' x) (unat p') n) = take (min (length buf) n) buf"
        "length (bytes_get (guest_bytes h' x) (unat p') n) = n"
      if "region_ok memory (length (guest_bytes h' x)) p' n alignment"
    proof -
      have i: "unat p' + n \<le> length (guest_bytes h' x)" using that by (simp add: region_ok_def)
      show l: "length (bytes_get (guest_bytes h' x) (unat p') n) = n" using i by simp
      show "holds alloc memory x alignment \<lparr>guest_pointer = p', guest_capacity = of_nat n\<rparr> h' (bytes_get (guest_bytes h' x) (unat p') n)"
        using a that g(6) by (simp add: holds_def l n(1))
      show "take (min (length buf) n) (bytes_get (guest_bytes h' x) (unat p') n) = take (min (length buf) n) buf"
        using a i bytes_get_take [of "min (length buf) n" n "guest_bytes h' x" "unat p'"] by simp
    qed
    then show "ends (grants n) (guest_then (string_bounds memory p' (of_nat n) alignment)
        (\<lambda>_. guest_return \<lparr>guest_pointer = p', guest_capacity = of_nat n\<rparr>)) h' (\<lambda>guest' h'. \<exists>buf'.
        holds alloc memory x alignment guest' h' buf' \<and> length buf' = n \<and> take (min (length buf) n) buf' = take (min (length buf) n) buf)"
      by (intro ends_then [OF b] ends_return) blast
  qed
qed

lemma guest_write_holds:
  assumes "holds alloc memory x a guest h buf" "off + length bs \<le> length buf"
  shows "ends True (guest_write memory guest off bs) h (\<lambda>_ h'. holds alloc memory x a guest h' (bytes_put buf off bs))"
proof -
  let ?p = "unat (guest_pointer guest)" and ?i = "canon_instance memory" and ?k = "canon_memory_index memory"
  have g: "wf_heap h" "memory_target h ?i ?k = Some (Inr x)" "\<not> mem_shared (mem_at h x)" "length buf = unat (guest_capacity guest)"
      "?p + length buf \<le> length (guest_bytes h x)" "bytes_get (guest_bytes h x) ?p (length buf) = buf" "least_bytes alloc \<le> length (guest_bytes h x)"
    using assms(1) by (auto simp: holds_def region_ok_def guest_room_def guest_memory_def)
  have "length buf < 2 ^ 64" using g(4) unat_less_exp [of "guest_capacity guest"] by simp
  then have o: "unat (of_nat off :: u64) = off" "length bs < 2 ^ 64" using assms(2) by (simp_all add: unat_of_nat)
  have x: "owned h x" by (rule memory_target_owned [OF g(2)])
  let ?h = "mem_store h x (?p + off) bs"
  have w: "turbowasm_instance_memory_write_bytes h ?i ?k (guest_pointer guest) (of_nat off) bs =
      Some (TURBOWASM_OK, if bs = [] then h else ?h)"
    using memory_write_wf [OF g(1,2) o(2), of "guest_pointer guest" "of_nat off"] assms(2) g(5) o(1) by simp
  have b: "guest_room alloc memory ?h x" "guest_bytes ?h x = bytes_put (guest_bytes h x) (?p + off) bs"
    using g x assms(2) by (auto simp: guest_room_def guest_memory_def mem_at_store intro!: wf_heap_store)
  have l: "length (bytes_put buf off bs) = length buf" "length (bytes_put (guest_bytes h x) (?p + off) bs) = length (guest_bytes h x)"
    using assms(2) g(5) by (auto intro!: length_bytes_put)
  have "guest_pointer guest = 0 \<and> guest_capacity guest = 0 \<or> issued alloc ?h (guest_pointer guest) (guest_capacity guest)"
    using assms g(4,5) unfolding holds_def writes_keep_def by metis
  then have "holds alloc memory x a guest ?h (bytes_put buf off bs)"
    using assms(1) b(1) bytes_put_region [OF g(5) assms(2) g(6)] unfolding holds_def b(2) l by blast
  moreover have "bytes_put buf off [] = buf" by (simp add: bytes_put_def)
  ultimately show ?thesis
    using w assms g(4) by (auto simp: ends_def guest_write_def guest_fail_def)
qed

abbreviation unit_origin :: "bool \<Rightarrow> turbowasm_component_string_origin" where
  "unit_origin utf16 \<equiv> (if utf16 then TURBOWASM_COMPONENT_STRING_ORIGIN_UTF16 else TURBOWASM_COMPONENT_STRING_ORIGIN_LATIN1)"

lemma write_scalars_holds:
  assumes "bytes_get d c (limit - c) = utf8_of ss" "list_all (encodable (unit_origin utf16)) ss" "limit \<le> length d"
    "holds alloc memory x a guest h buf" "dest + length (encoded (unit_origin utf16) ss) \<le> length buf"
  shows "ends True (write_scalars memory guest d c limit dest utf16) h
     (\<lambda>_ h'. holds alloc memory x a guest h' (bytes_put buf dest (encoded (unit_origin utf16) ss)))"
  using assms
proof (induction ss arbitrary: c dest h buf)
  case Nil
  have "\<not> c < limit" using Nil.prems(1,3) by (metis bytes_get_def diff_is_0_eq' drop_eq_Nil2 encoded_simps(1) less_le_trans not_le take_eq_Nil zero_less_diff not_gr_zero)
  moreover have "bytes_put buf dest [] = buf" by (simp add: bytes_put_def)
  ultimately show ?case using Nil.prems(4) by (subst write_scalars.simps) (simp add: ends_return)
next
  case (Cons s ss)
  let ?e = "encode_scalar (unit_origin utf16) s"
  have v: "encodable TURBOWASM_COMPONENT_STRING_ORIGIN_UTF8 s" using Cons.prems(2) by (simp add: encodable_def)
  note st = scan_limit [OF Cons.prems(1) v Cons.prems(3)]
  have b: "(if utf16 then encode_utf16 s else [ucast s]) = ?e" by simp
  have n: "\<not> (\<not> utf16 \<and> s \<ge> 0x100)" using Cons.prems(2) by (cases utf16) (simp_all add: encodable_def not_le)
  have l: "dest + length ?e \<le> length buf" "dest + length ?e + length (encoded (unit_origin utf16) ss) \<le> length buf"
    using Cons.prems(5) by simp_all
  have rec: "ends True (write_scalars memory guest d (c + length (encode_utf8 s)) limit (dest + length ?e) utf16) h'
      (\<lambda>_ h'. holds alloc memory x a guest h' (bytes_put buf dest (encoded (unit_origin utf16) (s # ss))))"
    if "holds alloc memory x a guest h' (bytes_put buf dest ?e)" for h'
  proof -
    have "list_all (encodable (unit_origin utf16)) ss" using Cons.prems(2) by simp
    from Cons.IH [OF _ this Cons.prems(3) that, of "c + length (encode_utf8 s)" "dest + length ?e"] show ?thesis
      using st(3) l unfolding encoded_simps(2) bytes_put_put [OF l(2), symmetric] by simp
  qed
  have eq: "write_scalars memory guest d c limit dest utf16 =
      guest_then (guest_write memory guest dest ?e) (\<lambda>_. write_scalars memory guest d (c + length (encode_utf8 s)) limit (dest + length ?e) utf16)"
    using st(1,2) n unfolding b [symmetric] by (subst write_scalars.simps) (auto simp: Let_def)
  show ?case unfolding eq by (rule ends_then [OF guest_write_holds [OF Cons.prems(4) l(1)] rec])
qed

text \<open>Between one and two bytes per unit.\<close>

definition inflated :: "u8 list \<Rightarrow> u8 list" where
  "inflated bs = concat (map (\<lambda>b. [b, 0]) bs)"

lemma length_inflated [simp]: "length (inflated bs) = 2 * length bs"
  by (induction bs) (simp_all add: inflated_def)

lemma inflated_nth: "k < length bs \<Longrightarrow> inflated bs ! (2 * k) = bs ! k"
proof (induction bs arbitrary: k)
  case (Cons b bs)
  then show ?case by (cases k) (simp_all add: inflated_def)
qed simp

lemma guest_read_holds:
  assumes "holds alloc memory x a guest h buf" "off < length buf"
  shows "ends True (\<lambda>h. do { r \<leftarrow> turbowasm_instance_memory_read_bytes h (canon_instance memory) (canon_memory_index memory)
                                 (guest_pointer guest) (of_nat off) 1;
                           Some (h, case r of (status, bytes) \<Rightarrow> if status \<noteq> TURBOWASM_OK then Inl status else Inr bytes) }) h
     (\<lambda>bytes h'. h' = h \<and> bytes ! 0 = buf ! off)"
proof -
  let ?p = "unat (guest_pointer guest)"
  have g: "wf_heap h" "memory_target h (canon_instance memory) (canon_memory_index memory) = Some (Inr x)" "length buf = unat (guest_capacity guest)"
      "?p + length buf \<le> length (guest_bytes h x)" "bytes_get (guest_bytes h x) ?p (length buf) = buf"
    using assms(1) unfolding holds_def region_ok_def guest_room_def guest_memory_def by blast+
  have "length buf < 2 ^ 64" using g(3) unat_less_exp [of "guest_capacity guest"] by simp
  then have o: "unat (of_nat off :: u64) = off" using assms(2) by (simp add: unat_of_nat)
  have "bytes_get (guest_bytes h x) (?p + off) 1 ! 0 = guest_bytes h x ! (?p + off)" using assms(2) g(4) by (simp add: bytes_get_nth)
  also have "\<dots> = buf ! off" using assms(2) g(4,5) by (metis bytes_get_nth)
  finally show ?thesis using memory_read_wf [OF g(1,2), of 1 "guest_pointer guest" "of_nat off"] assms(2) g(4) o by (simp add: ends_def)
qed

lemma adjust_step:
  fixes count index :: nat and inflate :: bool
  defines "at \<equiv> (if inflate then count - index - 1 else index)"
  defines "src \<equiv> (if inflate then at else at * 2)" and "dst \<equiv> (if inflate then at * 2 else at)"
  assumes "holds alloc memory x a guest h buf" "src < length buf" "dst + (if inflate then 2 else 1) \<le> length buf"
    "\<And>h'. holds alloc memory x a guest h' (bytes_put buf dst (if inflate then [buf ! src, 0] else [buf ! src])) \<Longrightarrow>
       ends True (adjust_loop memory guest count inflate indices) h' Q"
  shows "ends True (adjust_loop memory guest count inflate (index # indices)) h Q"
proof -
  have w: "ends True (guest_write memory guest dst (if inflate then [buf ! src, 0] else [buf ! src])) h
      (\<lambda>_ h'. holds alloc memory x a guest h' (bytes_put buf dst (if inflate then [buf ! src, 0] else [buf ! src])))"
    using assms(6) by (intro guest_write_holds [OF assms(4)]) (simp split: if_splits)
  show ?thesis
    unfolding adjust_loop.simps Let_def at_def [symmetric] src_def [symmetric] dst_def [symmetric]
  proof (rule ends_then [OF guest_read_holds [OF assms(4,5)]])
    fix bytes h' assume b: "h' = h \<and> bytes ! 0 = buf ! src"
    show "ends True (guest_then (guest_write memory guest dst (if inflate then [bytes ! 0, 0] else [bytes ! 0]))
        (\<lambda>_. adjust_loop memory guest count inflate indices)) h' Q"
      using ends_then [OF w assms(7)] by (simp only: b)
  qed
qed

lemma inflate_holds:
  assumes "holds alloc memory x a guest h (bytes_put buf (2 * k) (inflated (drop k bs)))" "k \<le> length bs" "2 * length bs \<le> length buf"
    "take (length bs) buf = bs"
  shows "ends True (adjust_loop memory guest (length bs) True [length bs - k..<length bs]) h (\<lambda>_ h'. holds alloc memory x a guest h' (bytes_put buf 0 (inflated bs)))"
  using assms
proof (induction k arbitrary: h)
  case 0
  then show ?case by (simp add: ends_return)
next
  case (Suc k)
  let ?i = "length bs - Suc k" and ?buf = "bytes_put buf (2 * Suc k) (inflated (drop (Suc k) bs))"
  have up: "[?i..<length bs] = ?i # [length bs - k..<length bs]" using Suc.prems(2) by (simp add: upt_rec Suc_diff_Suc)
  have at: "length bs - ?i - 1 = k" using Suc.prems(2) by simp
  have lb: "length ?buf = length buf" using Suc.prems(2,3) by (intro length_bytes_put) simp
  have rd: "?buf ! k = bs ! k"
    using Suc.prems(2-4) by (subst bytes_put_nth) (auto simp: Suc_le_eq intro: nth_take [symmetric, THEN trans])
  have sp: "inflated (drop k bs) = [bs ! k, 0] @ inflated (drop (Suc k) bs)"
    using Suc.prems(2) by (simp add: inflated_def Cons_nth_drop_Suc [symmetric])
  have step: "bytes_put ?buf (2 * k) [bs ! k, 0] = bytes_put buf (2 * k) (inflated (drop k bs))"
    using bytes_put_before [of "2 * k" "[bs ! k, 0]" "inflated (drop (Suc k) bs)" buf] Suc.prems(2,3) unfolding sp by simp
  have "ends True (adjust_loop memory guest (length bs) True [length bs - k..<length bs]) h' (\<lambda>_ h'. holds alloc memory x a guest h' (bytes_put buf 0 (inflated bs)))"
    if "holds alloc memory x a guest h' (bytes_put ?buf (2 * k) [bs ! k, 0])" for h'
    using Suc.IH that Suc.prems(2-4) unfolding step by simp
  then show ?case
    unfolding up using Suc.prems(2,3) lb rd at by (intro adjust_step [OF Suc.prems(1)]) (simp_all add: mult.commute)
qed

lemma deflate_holds:
  assumes "holds alloc memory x a guest h (bytes_put buf 0 (take k bs))" "k \<le> length bs" "2 * length bs \<le> length buf"
    "take (2 * length bs) buf = inflated bs"
  shows "ends True (adjust_loop memory guest (length bs) False [k..<length bs]) h (\<lambda>_ h'. holds alloc memory x a guest h' (bytes_put buf 0 bs))"
  using assms
proof (induction "length bs - k" arbitrary: k h)
  case 0
  then show ?case by (simp add: ends_return)
next
  case (Suc d)
  let ?buf = "bytes_put buf 0 (take k bs)"
  have k: "k < length bs" using Suc.hyps(2) by simp
  have up: "[k..<length bs] = k # [Suc k..<length bs]" using k by (simp add: upt_rec)
  have lb: "length ?buf = length buf" using k Suc.prems(3) by (intro length_bytes_put) simp
  have "buf ! (2 * k) = inflated bs ! (2 * k)" using k Suc.prems(4) by (metis mult_less_cancel1 nth_take zero_less_numeral)
  then have rd: "?buf ! (k * 2) = bs ! k" using k Suc.prems(3) inflated_nth [OF k] by (subst bytes_put_nth) (auto simp: mult.commute)
  have step: "bytes_put ?buf k [bs ! k] = bytes_put buf 0 (take (Suc k) bs)"
    using bytes_put_put [of 0 "take k bs" "[bs ! k]" buf] k Suc.prems(3) by (simp add: take_Suc_conv_app_nth)
  have "ends True (adjust_loop memory guest (length bs) False [Suc k..<length bs]) h' (\<lambda>_ h'. holds alloc memory x a guest h' (bytes_put buf 0 bs))"
    if "holds alloc memory x a guest h' (bytes_put ?buf k [bs ! k])" for h'
    using Suc.hyps(1) [of "Suc k" h'] that Suc.hyps(2) k Suc.prems(3,4) unfolding step by simp
  then show ?case
    unfolding up using k Suc.prems(3) lb rd by (intro adjust_step [OF Suc.prems(1)]) simp_all
qed

subsection \<open>Strings in the making\<close>

text \<open>The region of the guest string begins with the bytes \<open>enc\<close>.\<close>

definition stored :: "guest_allocator \<Rightarrow> turbowasm_component_canonical_memory \<Rightarrow> memory_id \<Rightarrow> u64 \<Rightarrow> guest_string \<Rightarrow> instance_heap \<Rightarrow> u8 list \<Rightarrow> bool" where
  "stored alloc memory x alignment guest h enc \<longleftrightarrow>
     (\<exists>buf. holds alloc memory x alignment guest h buf \<and> length enc \<le> length buf \<and> take (length enc) buf = enc)"

lemma storedI: "holds alloc memory x a guest h buf \<Longrightarrow> length enc \<le> length buf \<Longrightarrow> take (length enc) buf = enc \<Longrightarrow> stored alloc memory x a guest h enc"
  unfolding stored_def by blast

lemma stored_capacity: "stored alloc memory x a guest h enc \<Longrightarrow> length enc \<le> unat (guest_capacity guest)"
  unfolding stored_def holds_def by auto

lemma stored_empty: "guest_room alloc memory h x \<Longrightarrow> writes_keep alloc x \<Longrightarrow> stored alloc memory x 1 \<lparr>guest_pointer = 0, guest_capacity = 0\<rparr> h []"
  by (rule storedI [OF holds_empty]) simp_all

lemma stored_resize:
  assumes "realloc_contract grants alloc memory x realloc" "guest_realloc memory = Some realloc"
    "stored alloc memory x a guest h enc" "length enc \<le> n" "n < 2 ^ 32" "must \<longrightarrow> grants n"
  shows "ends must (resize memory guest alignment (of_nat n)) h (\<lambda>guest' h'.
     stored alloc memory x alignment guest' h' enc \<and> unat (guest_capacity guest') = n)"
proof -
  obtain buf where b: "holds alloc memory x a guest h buf" "length enc \<le> length buf" "take (length enc) buf = enc"
    using assms(3) unfolding stored_def by blast
  show ?thesis
  proof (rule ends_mono [OF resize_holds [OF assms(1,2) b(1) assms(5)] _ assms(6)], elim exE conjE, intro conjI)
    fix guest' h' buf'
    assume h: "holds alloc memory x alignment guest' h' buf'" "length buf' = n" "take (min (length buf) n) buf' = take (min (length buf) n) buf"
    then have "take (length enc) (take (min (length buf) n) buf') = take (length enc) (take (min (length buf) n) buf)" by simp
    then have "take (length enc) buf' = enc" using b(2,3) assms(4) by (simp add: min_def split: if_splits)
    then show "stored alloc memory x alignment guest' h' enc" using h(1,2) assms(4) by (intro storedI) simp_all
    show "unat (guest_capacity guest') = n" using h(1,2) by (simp add: holds_def)
  qed
qed

lemma stored_write:
  assumes "stored alloc memory x a guest h enc" "length enc + length bs \<le> unat (guest_capacity guest)"
  shows "ends must (guest_write memory guest (length enc) bs) h (\<lambda>_ h'. stored alloc memory x a guest h' (enc @ bs))"
proof -
  obtain buf where b: "holds alloc memory x a guest h buf" "take (length enc) buf = enc" using assms(1) unfolding stored_def by blast
  have l: "length enc + length bs \<le> length buf" using assms(2) b(1) by (simp add: holds_def)
  show ?thesis
    by (rule ends_mono [OF guest_write_holds [OF b(1) l]]) (use l b(2) take_bytes_put [OF l b(2)] in \<open>auto intro!: storedI\<close>)
qed

lemma stored_write_scalars:
  assumes "stored alloc memory x a guest h enc" "bytes_get d c (limit - c) = utf8_of ss" "list_all (encodable (unit_origin utf16)) ss" "limit \<le> length d"
    "length enc + length (encoded (unit_origin utf16) ss) \<le> unat (guest_capacity guest)"
  shows "ends must (write_scalars memory guest d c limit (length enc) utf16) h
     (\<lambda>_ h'. stored alloc memory x a guest h' (enc @ encoded (unit_origin utf16) ss))"
proof -
  obtain buf where b: "holds alloc memory x a guest h buf" "take (length enc) buf = enc" using assms(1) unfolding stored_def by blast
  have l: "length enc + length (encoded (unit_origin utf16) ss) \<le> length buf" using assms(5) b(1) by (simp add: holds_def)
  show ?thesis
  proof (rule ends_mono [OF write_scalars_holds [OF assms(2-4) b(1) l]])
    fix h' assume "holds alloc memory x a guest h' (bytes_put buf (length enc) (encoded (unit_origin utf16) ss))"
    then show "stored alloc memory x a guest h' (enc @ encoded (unit_origin utf16) ss)"
      by (rule storedI) (use l take_bytes_put [OF l b(2)] in simp_all)
  qed simp
qed

lemma stored_inflate:
  assumes "stored alloc memory x a guest h bs" "2 * length bs \<le> unat (guest_capacity guest)"
  shows "ends must (adjust_latin1_prefix memory guest (length bs) True) h (\<lambda>_ h'. stored alloc memory x a guest h' (inflated bs))"
proof -
  obtain buf where b: "holds alloc memory x a guest h buf" "take (length bs) buf = bs" using assms(1) unfolding stored_def by blast
  have l: "2 * length bs \<le> length buf" using assms(2) b(1) by (simp add: holds_def)
  have "bytes_put buf (2 * length bs) (inflated (drop (length bs) bs)) = buf" by (simp add: bytes_put_def inflated_def)
  then have "ends True (adjust_loop memory guest (length bs) True [0..<length bs]) h (\<lambda>_ h'. holds alloc memory x a guest h' (bytes_put buf 0 (inflated bs)))"
    using inflate_holds [of alloc memory x a guest h buf "length bs" bs] b l by simp
  then show ?thesis
    unfolding adjust_latin1_prefix_def
    by (rule ends_mono) (use l take_bytes_put_0 [of "inflated bs" buf] in \<open>auto intro!: storedI\<close>)
qed

lemma stored_deflate:
  assumes "stored alloc memory x a guest h (inflated bs)"
  shows "ends must (adjust_latin1_prefix memory guest (length bs) False) h (\<lambda>_ h'. stored alloc memory x a guest h' bs)"
proof -
  obtain buf where b: "holds alloc memory x a guest h buf" "take (2 * length bs) buf = inflated bs" "2 * length bs \<le> length buf"
    using assms unfolding stored_def by auto
  have "bytes_put buf 0 (take 0 bs) = buf" by (simp add: bytes_put_def)
  then have "ends True (adjust_loop memory guest (length bs) False [0..<length bs]) h (\<lambda>_ h'. holds alloc memory x a guest h' (bytes_put buf 0 bs))"
    using deflate_holds [of alloc memory x a guest h buf 0 bs] b by simp
  then show ?thesis
    unfolding adjust_latin1_prefix_def
    by (rule ends_mono) (use b(3) take_bytes_put_0 [of bs buf] in \<open>auto intro!: storedI\<close>)
qed

lemma latin1_utf16: "list_all (\<lambda>s. s < 0x100) ss \<Longrightarrow> inflated (latin1_of ss) = utf16_of ss"
proof (induction ss)
  case (Cons s ss)
  then have s: "unat s < 0x100" by (simp add: word_less_nat_alt)
  have "drop_bit 8 s = 0" by (rule word_eq_iff_unsigned [where 'a = nat, THEN iffD2]) (use s in \<open>simp add: unat_drop\<close>)
  moreover have "s < 0x10000" using s by (simp add: word_less_nat_alt)
  ultimately show ?case using Cons by (simp add: inflated_def encode_utf16_def)
qed (simp add: inflated_def)

subsection \<open>The three encodings of the guest\<close>

lemma encodable_utf16: "encodable (unit_origin True) s \<longleftrightarrow> scalar_valid s" and encodable_latin1: "encodable (unit_origin False) s \<longleftrightarrow> scalar_valid s \<and> s < 0x100"
  by (simp_all add: encodable_def)

lemma resize_down:
  assumes "realloc_contract grants alloc memory x realloc" "guest_realloc memory = Some realloc"
    "stored alloc memory x a guest h enc" "length enc \<le> n" "n < 2 ^ 32" "must \<longrightarrow> grants n" "alignment = a"
  shows "ends must (if b then resize memory guest alignment (of_nat n) else guest_return guest) h (\<lambda>guest' h'. stored alloc memory x a guest' h' enc)"
proof (cases b)
  case True
  then show ?thesis using ends_mono [OF stored_resize [OF assms(1-6), of alignment]] assms(7) by simp
next
  case False
  then show ?thesis using assms(3) by (simp add: ends_return)
qed

lemma lower_utf16_stored:
  assumes "realloc_contract grants alloc memory x realloc" "guest_realloc memory = Some realloc" "stored alloc memory x a guest h []"
    "string_data string = utf8_of ss" "list_all scalar_valid ss" "utf16_units m = code_units ss"
    "code_units ss \<le> units" "units < 2 ^ 28" "must \<longrightarrow> (\<forall>n \<le> 2 * units. grants n)"
  shows "ends must (lower_utf16 memory guest string m units) h
     (\<lambda>(guest', len) h'. stored alloc memory x 2 guest' h' (utf16_of ss) \<and> len = of_nat (code_units ss))"
proof -
  have e: "of_nat units * 2 = (of_nat (2 * units) :: u64)" "of_nat (code_units ss) * 2 = (of_nat (2 * code_units ss) :: u64)"
    by (simp_all add: mult.commute)
  show ?thesis
    unfolding lower_utf16_def assms(4,6) Let_def e
  proof (intro ends_then [OF stored_resize [OF assms(1-3)]])
    fix g h' assume s: "stored alloc memory x 2 g h' [] \<and> unat (guest_capacity g) = 2 * units"
    have all: "list_all (encodable (unit_origin True)) ss" using assms(5) by (simp add: list_all_iff encodable_def)
    have w: "ends must (write_scalars memory g (utf8_of ss) 0 (length (utf8_of ss)) 0 True) h' (\<lambda>_ h'. stored alloc memory x 2 g h' (utf16_of ss))"
      using stored_write_scalars [OF s [THEN conjunct1] _ all, of "utf8_of ss" 0 "length (utf8_of ss)" must] s assms(7)
      by (simp add: bytes_get_def)
    show "ends must (guest_then (write_scalars memory g (utf8_of ss) 0 (length (utf8_of ss)) 0 True) (\<lambda>_.
        guest_then (if of_nat (2 * code_units ss) < guest_capacity g then resize memory g 2 (of_nat (2 * code_units ss)) else guest_return g) (\<lambda>g.
        guest_return (g, of_nat (code_units ss))))) h'
        (\<lambda>(guest', len) h'. stored alloc memory x 2 guest' h' (utf16_of ss) \<and> len = of_nat (code_units ss))"
      using assms(7-9) by (intro ends_then [OF w] ends_then [OF resize_down [OF assms(1,2)]] ends_return) auto
  qed (use assms(8,9) in auto)
qed

lemma ascii_part_whole: "length (utf8_of (ascii_part ss)) = length (utf8_of ss) \<Longrightarrow> ascii_part ss = ss"
proof -
  assume a: "length (utf8_of (ascii_part ss)) = length (utf8_of ss)"
  have s: "ascii_part ss @ dropWhile (\<lambda>s. s < 0x80) ss = ss" by (simp add: ascii_part_def)
  then have "length (utf8_of (ascii_part ss)) + length (utf8_of (dropWhile (\<lambda>s. s < 0x80) ss)) = length (utf8_of ss)"
    by (metis encoded_simps(3) length_append)
  then have "utf8_of (dropWhile (\<lambda>s. s < 0x80) ss) = []" using a by simp
  then have "dropWhile (\<lambda>s. s < 0x80) ss = []" by (cases "dropWhile (\<lambda>s. s < 0x80) ss") simp_all
  then show ?thesis using s by (simp only: append_Nil2)
qed

lemma utf8_of_ascii_part: "take (length (utf8_of (ascii_part ss))) (utf8_of ss) = utf8_of (ascii_part ss)"
  by (metis append_eq_conv_conj ascii_part_def encoded_simps(3) takeWhile_dropWhile_id)

lemma source_length_bounds:
  assumes "list_all (encodable origin) ss"
  shows "length ss \<le> source_length origin ss" "code_units ss \<le> source_length origin ss" "source_length origin ss \<le> length (utf8_of ss)"
    "length (utf8_of ss) \<le> source_length origin ss * (if origin = TURBOWASM_COMPONENT_STRING_ORIGIN_LATIN1 then 2 else 3)"
proof -
  have "list_all (\<lambda>s. s < 0x100) ss" if "origin = TURBOWASM_COMPONENT_STRING_ORIGIN_LATIN1"
    using assms that by (simp add: list_all_iff encodable_def)
  then show "length ss \<le> source_length origin ss" "code_units ss \<le> source_length origin ss" "source_length origin ss \<le> length (utf8_of ss)"
      "length (utf8_of ss) \<le> source_length origin ss * (if origin = TURBOWASM_COMPONENT_STRING_ORIGIN_LATIN1 then 2 else 3)"
    using length_code_units [of ss] latin1_lengths [of ss] by (cases origin; simp add: source_length_def)+
qed

lemma ascii_source:
  assumes "ascii_part ss = ss" "list_all (encodable origin) ss" shows "source_length origin ss = length (utf8_of ss)"
  using assms(1) ascii_length [of ss] source_length_bounds [OF assms(2)] by simp

text \<open>The part behind the prefix \<open>take p d\<close> is written into a wider region, which then shrinks to the string.\<close>

lemma utf8_widened:
  assumes "realloc_contract grants alloc memory x realloc" "guest_realloc memory = Some realloc" "stored alloc memory x 1 guest h (take p d)"
    "p \<le> length d" "length d \<le> n" "n < 2 ^ 32" "must \<longrightarrow> grants n \<and> grants (length d)"
  shows "ends must (guest_then (resize memory guest 1 (of_nat n)) (\<lambda>guest.
       guest_then (guest_write memory guest p (drop p d)) (\<lambda>_.
       if unat (guest_capacity guest) > length d then resize memory guest 1 (of_nat (length d)) else guest_return guest))) h
     (\<lambda>guest' h'. stored alloc memory x 1 guest' h' d)"
proof -
  have lp: "length (take p d) = p" using assms(4) by simp
  have re: "ends must (resize memory guest 1 (of_nat n)) h (\<lambda>g h'. stored alloc memory x 1 g h' (take p d) \<and> unat (guest_capacity g) = n)"
    using assms(4-7) by (intro stored_resize [OF assms(1-3)]) (auto simp: lp)
  have wr: "ends must (guest_write memory g p (drop p d)) h' (\<lambda>_ h'. stored alloc memory x 1 g h' d)"
    if "stored alloc memory x 1 g h' (take p d) \<and> unat (guest_capacity g) = n" for g h'
    using stored_write [OF that [THEN conjunct1], of "drop p d" must] that assms(4,5) unfolding lp append_take_drop_id by simp
  have dn: "ends must (if unat (guest_capacity g) > length d then resize memory g 1 (of_nat (length d)) else guest_return g) h'
      (\<lambda>g h'. stored alloc memory x 1 g h' d)" if "stored alloc memory x 1 g h' d" for g h'
    using assms(5-7) by (intro resize_down [OF assms(1,2) that]) auto
  show ?thesis by (rule ends_then [OF re ends_then [OF wr dn]])
qed

lemma lower_utf8_stored:
  assumes "realloc_contract grants alloc memory x realloc" "guest_realloc memory = Some realloc" "stored alloc memory x 1 guest h []"
    "string_data string = utf8_of ss" "list_all (encodable (string_origin string)) ss" "ascii_prefix m = length (utf8_of (ascii_part ss))"
    "units = source_length (string_origin string) ss" "units < 2 ^ 28" "length (utf8_of ss) < 2 ^ 29" "must \<longrightarrow> (\<forall>n \<le> 3 * length (utf8_of ss). grants n)"
  shows "ends must (lower_utf8 memory guest string m units) h
     (\<lambda>(guest', len) h'. stored alloc memory x 1 guest' h' (utf8_of ss) \<and> len = of_nat (length (utf8_of ss)))"
proof -
  let ?d = "utf8_of ss"
  define p where "p = (if string_origin string = TURBOWASM_COMPONENT_STRING_ORIGIN_UTF8 then length ?d else ascii_prefix m)"
  define f :: nat where "f = (if string_origin string = TURBOWASM_COMPONENT_STRING_ORIGIN_LATIN1 then 2 else 3)"
  have f: "of_nat units * (if string_origin string = TURBOWASM_COMPONENT_STRING_ORIGIN_LATIN1 then 2 else 3) = (of_nat (units * f) :: u64)"
    by (simp add: f_def)
  note b = source_length_bounds [OF assms(5), folded assms(7), folded f_def]
  have f3: "f \<le> 3" by (simp add: f_def)
  have uf: "units * f \<le> 3 * length ?d" using mult_le_mono [OF b(3) f3] by (simp only: mult.commute)
  have "units * f \<le> units * 3" by (rule mult_le_mono2 [OF f3])
  also have "units * 3 < 2 ^ 32" using assms(8) by simp
  finally have uf2: "units * f < 2 ^ 32" .
  have p: "p \<le> units" "p \<le> length ?d"
    using b ascii_length [of ss] length_ascii_part [of ss] assms(6,7) by (auto simp: p_def source_length_def)
  have re: "ends must (resize memory guest 1 (of_nat units)) h (\<lambda>g h'. stored alloc memory x 1 g h' [] \<and> unat (guest_capacity g) = units)"
    using assms(8,10) b by (intro stored_resize [OF assms(1-3)]) auto
  have wr: "ends must (if p \<noteq> 0 then guest_write memory g 0 (take p ?d) else guest_return ()) h' (\<lambda>_ h'. stored alloc memory x 1 g h' (take p ?d))"
    if "stored alloc memory x 1 g h' [] \<and> unat (guest_capacity g) = units" for g h'
    using stored_write [OF that [THEN conjunct1], of "take p ?d" must] that p by (cases "p = 0") (simp_all add: ends_return min_def)
  have wide: "ends must (guest_then (resize memory g 1 (of_nat (units * f))) (\<lambda>g.
       guest_then (guest_write memory g p (drop p ?d)) (\<lambda>_.
       if unat (guest_capacity g) > length ?d then resize memory g 1 (of_nat (length ?d)) else guest_return g))) h'
     (\<lambda>g h'. stored alloc memory x 1 g h' ?d)" if "stored alloc memory x 1 g h' (take p ?d)" for g h'
    using assms(9,10) uf uf2 b(4) p(2) by (intro utf8_widened [OF assms(1,2) that]) auto
  have rest: "ends must (if p \<noteq> length ?d then guest_then (resize memory g 1 (of_nat (units * f))) (\<lambda>g.
       guest_then (guest_write memory g p (drop p ?d)) (\<lambda>_.
       if unat (guest_capacity g) > length ?d then resize memory g 1 (of_nat (length ?d)) else guest_return g)) else guest_return g) h'
     (\<lambda>g h'. stored alloc memory x 1 g h' ?d)" if "stored alloc memory x 1 g h' (take p ?d)" for g h'
    using that by (intro ends_if wide ends_return) simp_all
  show ?thesis
    unfolding lower_utf8_def assms(4) Let_def p_def [symmetric] f
    by (rule ends_then [OF re ends_then [OF wr ends_then [OF rest]]], assumption+) (rule ends_return, simp)
qed

text \<open>Bytes, alignment and length of a lowered string.\<close>

definition lowered_bytes :: "turbowasm_component_canonical_memory \<Rightarrow> u32 list \<Rightarrow> u8 list" where
  "lowered_bytes memory ss =
     (case string_encoding memory of
        TURBOWASM_COMPONENT_STRING_UTF8 \<Rightarrow> utf8_of ss
      | TURBOWASM_COMPONENT_STRING_UTF16 \<Rightarrow> utf16_of ss
      | TURBOWASM_COMPONENT_STRING_LATIN1_UTF16 \<Rightarrow> if list_all (\<lambda>s. s < 0x100) ss then latin1_of ss else utf16_of ss)"

definition lowered_alignment :: "turbowasm_component_canonical_memory \<Rightarrow> turbowasm_component_string_origin \<Rightarrow> u32 list \<Rightarrow> u64" where
  "lowered_alignment memory origin ss =
     (case string_encoding memory of
        TURBOWASM_COMPONENT_STRING_UTF8 \<Rightarrow> 1
      | TURBOWASM_COMPONENT_STRING_UTF16 \<Rightarrow> 2
      | TURBOWASM_COMPONENT_STRING_LATIN1_UTF16 \<Rightarrow>
          if list_all (\<lambda>s. s < 0x100) ss \<and> origin = TURBOWASM_COMPONENT_STRING_ORIGIN_COMPACT_UTF16 then 1 else 2)"

definition lowered_length :: "turbowasm_component_canonical_memory \<Rightarrow> u32 list \<Rightarrow> u64" where
  "lowered_length memory ss =
     (case string_encoding memory of
        TURBOWASM_COMPONENT_STRING_UTF8 \<Rightarrow> of_nat (length (utf8_of ss))
      | TURBOWASM_COMPONENT_STRING_UTF16 \<Rightarrow> of_nat (code_units ss)
      | TURBOWASM_COMPONENT_STRING_LATIN1_UTF16 \<Rightarrow>
          if list_all (\<lambda>s. s < 0x100) ss then of_nat (length ss) else of_nat (code_units ss) OR utf16_tag memory)"

lemma latin1_part_split: "latin1_part ss @ dropWhile (\<lambda>s. s < 0x100) ss = ss" "list_all (\<lambda>s. s < 0x100) (latin1_part ss)"
  by (auto simp: latin1_part_def list_all_iff dest: set_takeWhileD)

lemma list_all_part: "list_all P ss \<Longrightarrow> list_all P (latin1_part ss) \<and> list_all P (dropWhile (\<lambda>s. s < 0x100) ss)"
  by (metis latin1_part_split(1) list_all_append)

lemma encodable_part:
  assumes "list_all scalar_valid ss"
  shows "list_all (encodable (unit_origin False)) (latin1_part ss)" "list_all (encodable (unit_origin True)) (dropWhile (\<lambda>s. s < 0x100) ss)"
  using list_all_part [OF assms] latin1_part_split(2) [of ss] by (simp_all add: list_all_iff encodable_def)

lemma utf8_of_parts:
  "bytes_get (utf8_of ss) 0 (length (utf8_of (latin1_part ss)) - 0) = utf8_of (latin1_part ss)"
  "bytes_get (utf8_of ss) (length (utf8_of (latin1_part ss))) (length (utf8_of ss) - length (utf8_of (latin1_part ss))) =
     utf8_of (dropWhile (\<lambda>s. s < 0x100) ss)"
  "length (utf8_of (latin1_part ss)) \<le> length (utf8_of ss)" "code_units (latin1_part ss) + code_units (dropWhile (\<lambda>s. s < 0x100) ss) = code_units ss"
proof -
  have s: "utf8_of ss = utf8_of (latin1_part ss) @ utf8_of (dropWhile (\<lambda>s. s < 0x100) ss)"
    by (metis encoded_simps(3) latin1_part_split(1))
  show "bytes_get (utf8_of ss) 0 (length (utf8_of (latin1_part ss)) - 0) = utf8_of (latin1_part ss)"
    "bytes_get (utf8_of ss) (length (utf8_of (latin1_part ss))) (length (utf8_of ss) - length (utf8_of (latin1_part ss))) =
     utf8_of (dropWhile (\<lambda>s. s < 0x100) ss)" "length (utf8_of (latin1_part ss)) \<le> length (utf8_of ss)"
    unfolding s by (simp_all add: bytes_get_def)
  show "code_units (latin1_part ss) + code_units (dropWhile (\<lambda>s. s < 0x100) ss) = code_units ss"
    by (metis code_units_snoc latin1_part_split(1))
qed

text \<open>From Latin-1 to UTF-16 behind the first code point that Latin-1 does not have.\<close>

lemma compact_wide_stored:
  assumes "realloc_contract grants alloc memory x realloc" "guest_realloc memory = Some realloc"
    "stored alloc memory x 2 guest h (latin1_of (latin1_part ss))" "list_all scalar_valid ss"
    "code_units ss \<le> units" "units < 2 ^ 28" "must \<longrightarrow> (\<forall>n \<le> 2 * units. grants n)"
  shows "ends must (guest_then (resize memory guest 2 (of_nat (2 * units))) (\<lambda>guest.
          guest_then (adjust_latin1_prefix memory guest (length (latin1_part ss)) True) (\<lambda>_.
          guest_then (write_scalars memory guest (utf8_of ss) (length (utf8_of (latin1_part ss))) (length (utf8_of ss)) (2 * length (latin1_part ss)) True) (\<lambda>_.
          if guest_capacity guest > of_nat (2 * code_units ss) then resize memory guest 2 (of_nat (2 * code_units ss)) else guest_return guest)))) h
     (\<lambda>guest' h'. stored alloc memory x 2 guest' h' (utf16_of ss))"
proof -
  let ?l = "latin1_part ss" and ?w = "dropWhile (\<lambda>s. s < 0x100) ss"
  have len: "length ?l + code_units ?w = code_units ss" "utf16_of ?l @ utf16_of ?w = utf16_of ss"
    using utf8_of_parts(4) [of ss] latin1_lengths(1) [OF latin1_part_split(2)] latin1_part_split(1) by (simp, metis encoded_simps(3))
  have re: "ends must (resize memory guest 2 (of_nat (2 * units))) h
      (\<lambda>guest' h'. stored alloc memory x 2 guest' h' (latin1_of ?l) \<and> unat (guest_capacity guest') = 2 * units)"
    using assms(5-7) len(1) by (intro stored_resize [OF assms(1-3)]) auto
  have infl: "ends must (adjust_latin1_prefix memory g (length ?l) True) h' (\<lambda>_ h'. stored alloc memory x 2 g h' (utf16_of ?l))"
    if "stored alloc memory x 2 g h' (latin1_of ?l) \<and> unat (guest_capacity g) = 2 * units" for g h'
    using stored_inflate [OF that [THEN conjunct1], of must] that assms(5) len(1) latin1_utf16 [OF latin1_part_split(2), of ss] by simp
  have wr: "ends must (write_scalars memory g (utf8_of ss) (length (utf8_of ?l)) (length (utf8_of ss)) (2 * length ?l) True) h' (\<lambda>_ h'. stored alloc memory x 2 g h' (utf16_of ss))"
    if "stored alloc memory x 2 g h' (utf16_of ?l)" "unat (guest_capacity g) = 2 * units" for g h'
    using stored_write_scalars [OF that(1) utf8_of_parts(2) encodable_part(2) [OF assms(4)] order.refl, of must] that(2) assms(5) len
      latin1_lengths(1) [OF latin1_part_split(2), of ss] by simp
  have dn: "ends must (if guest_capacity g > of_nat (2 * code_units ss) then resize memory g 2 (of_nat (2 * code_units ss)) else guest_return g) h'
      (\<lambda>guest' h'. stored alloc memory x 2 guest' h' (utf16_of ss))" if "stored alloc memory x 2 g h' (utf16_of ss)" for g h'
    using assms(5-7) by (intro resize_down [OF assms(1,2) that]) auto
  show ?thesis
  proof (rule ends_then [OF re])
    fix g h' assume s: "stored alloc memory x 2 g h' (latin1_of ?l) \<and> unat (guest_capacity g) = 2 * units"
    show "ends must (guest_then (adjust_latin1_prefix memory g (length ?l) True) (\<lambda>_.
          guest_then (write_scalars memory g (utf8_of ss) (length (utf8_of ?l)) (length (utf8_of ss)) (2 * length ?l) True) (\<lambda>_.
          if guest_capacity g > of_nat (2 * code_units ss) then resize memory g 2 (of_nat (2 * code_units ss)) else guest_return g))) h'
        (\<lambda>guest' h'. stored alloc memory x 2 guest' h' (utf16_of ss))"
      by (rule ends_then [OF infl [OF s]], rule ends_then [OF wr dn]) (simp_all add: s)
  qed
qed

lemma guest_then_assoc: "guest_then (guest_then m f) g = guest_then m (\<lambda>a. guest_then (f a) g)"
  by (auto simp: guest_then_def fun_eq_iff split: option.split prod.split sum.split)

text \<open>A string that came from the compact encoding is written as UTF-16 first.\<close>

lemma compact_narrowed:
  assumes "realloc_contract grants alloc memory x realloc" "guest_realloc memory = Some realloc" "stored alloc memory x 2 guest h (utf16_of ss)"
    "list_all (\<lambda>s. s < 0x100) ss" "length ss < 2 ^ 28" "must \<longrightarrow> grants (length ss)"
  shows "ends must (guest_then (adjust_latin1_prefix memory guest (length ss) False) (\<lambda>_. resize memory guest 1 (of_nat (length ss)))) h
     (\<lambda>guest' h'. stored alloc memory x 1 guest' h' (latin1_of ss))"
proof (rule ends_then)
  show "ends must (adjust_latin1_prefix memory guest (length ss) False) h (\<lambda>_ h'. stored alloc memory x 2 guest h' (latin1_of ss))"
    using stored_deflate [of alloc memory x 2 guest h "latin1_of ss" must] assms(3) latin1_utf16 [OF assms(4)] by simp
  show "ends must (resize memory guest 1 (of_nat (length ss))) h' (\<lambda>guest' h'. stored alloc memory x 1 guest' h' (latin1_of ss))"
    if "stored alloc memory x 2 guest h' (latin1_of ss)" for h'
    using ends_mono [OF stored_resize [OF assms(1,2) that, of "length ss" must 1]] assms(5,6) by simp
qed

lemmas lowered_defs = lowered_bytes_def lowered_alignment_def lowered_length_def

lemma lower_compact_stored:
  assumes "realloc_contract grants alloc memory x realloc" "guest_realloc memory = Some realloc" "stored alloc memory x 1 guest h []"
    "string_data string = utf8_of ss" "list_all (encodable (string_origin string)) ss"
    "measure_scalars m = length ss" "utf16_units m = code_units ss" "measure_latin1 m \<longleftrightarrow> list_all (\<lambda>s. s < 0x100) ss"
    "latin1_prefix m = length (latin1_part ss)" "latin1_prefix_bytes m = length (utf8_of (latin1_part ss))"
    "units = source_length (string_origin string) ss" "units < 2 ^ 28" "must \<longrightarrow> (\<forall>n \<le> 2 * units. grants n)"
    "string_encoding memory = TURBOWASM_COMPONENT_STRING_LATIN1_UTF16"
  shows "ends must (lower_compact memory guest string m units) h
     (\<lambda>(guest', len) h'. stored alloc memory x (lowered_alignment memory (string_origin string) ss) guest' h' (lowered_bytes memory ss) \<and>
        len = lowered_length memory ss)" (is "ends must _ h ?Q")
proof -
  note b = source_length_bounds [OF assms(5), folded assms(11)]
  have v: "list_all scalar_valid ss" using assms(5) by (simp add: list_all_iff encodable_def)
  have e: "of_nat units * 2 = (of_nat (2 * units) :: u64)" "of_nat (code_units ss) * 2 = (of_nat (2 * code_units ss) :: u64)"
    "length (latin1_part ss) * 2 = 2 * length (latin1_part ss)" by (simp_all add: mult.commute)
  show ?thesis
  proof (cases "string_origin string = TURBOWASM_COMPONENT_STRING_ORIGIN_COMPACT_UTF16")
    case True
    note low = lower_utf16_stored [OF assms(1-4) v assms(7) b(2) assms(12,13)]
    have "ends must (if \<not> list_all (\<lambda>s. s < 0x100) ss then guest_return (g, of_nat (code_units ss) OR utf16_tag memory)
        else guest_then (guest_then (adjust_latin1_prefix memory g (length ss) False) (\<lambda>_. resize memory g 1 (of_nat (length ss))))
          (\<lambda>g. guest_return (g, of_nat (length ss)))) h' ?Q" if "stored alloc memory x 2 g h' (utf16_of ss)" for g h'
      using assms(12-14) b(1) True that
      by (intro ends_if ends_then [OF compact_narrowed [OF assms(1,2) that]] ends_return) (auto simp: lowered_defs)
    then show ?thesis
      using True unfolding lower_compact_def Let_def assms(6,8) guest_then_assoc by (auto intro!: ends_then [OF low])
  next
    case False
    have re: "ends must (resize memory guest 2 (of_nat units)) h (\<lambda>g h'. stored alloc memory x 2 g h' [] \<and> unat (guest_capacity g) = units)"
      using assms(12,13) by (intro stored_resize [OF assms(1-3)]) auto
    have wr: "ends must (write_scalars memory g (utf8_of ss) 0 (length (utf8_of (latin1_part ss))) 0 False) h' (\<lambda>_ h'. stored alloc memory x 2 g h' (latin1_of (latin1_part ss)))"
      if "stored alloc memory x 2 g h' [] \<and> unat (guest_capacity g) = units" for g h'
      using stored_write_scalars [OF that [THEN conjunct1] utf8_of_parts(1) encodable_part(1) [OF v] utf8_of_parts(3), of must] that b(1)
        length_latin1_part [of ss] by simp
    have wide: "ends must (guest_then (guest_then (resize memory g 2 (of_nat (2 * units))) (\<lambda>guest.
          guest_then (adjust_latin1_prefix memory guest (length (latin1_part ss)) True) (\<lambda>_.
          guest_then (write_scalars memory guest (utf8_of ss) (length (utf8_of (latin1_part ss))) (length (utf8_of ss)) (2 * length (latin1_part ss)) True) (\<lambda>_.
          if guest_capacity guest > of_nat (2 * code_units ss) then resize memory guest 2 (of_nat (2 * code_units ss)) else guest_return guest))))
          (\<lambda>guest. guest_return (guest, of_nat (code_units ss) OR utf16_tag memory))) h' ?Q"
      if "stored alloc memory x 2 g h' (latin1_of (latin1_part ss))" "\<not> list_all (\<lambda>s. s < 0x100) ss" for g h'
      using that(2) assms(14) by (intro ends_then [OF compact_wide_stored [OF assms(1,2) that(1) v b(2) assms(12,13)]] ends_return) (simp add: lowered_defs)
    have narrow: "ends must (guest_then (if unat (guest_capacity g) > length ss then resize memory g 2 (of_nat (length ss)) else guest_return g)
          (\<lambda>guest. guest_return (guest, of_nat (length ss)))) h' ?Q"
      if "stored alloc memory x 2 g h' (latin1_of (latin1_part ss))" "list_all (\<lambda>s. s < 0x100) ss" for g h'
      using that assms(12-14) b(1) False
      by (intro ends_then [OF resize_down [OF assms(1,2) that(1)]] ends_return) (auto simp: lowered_defs whole_part)
    show ?thesis
      using False unfolding lower_compact_def Let_def assms(4,6-10) e if_not_P [OF False]
      by (intro ends_then [OF re] ends_then [OF wr] ends_if narrow wide [unfolded guest_then_assoc]) auto
  qed
qed

subsection \<open>Any string into any guest\<close>

lemma lower_stored:
  assumes "realloc_contract grants alloc memory x realloc" "guest_realloc memory = Some realloc" "guest_room alloc memory h x"
    "measure_string string = Inr m" "must \<longrightarrow> (\<forall>n \<le> 3 * length (string_data string). grants n)"
  obtains ss where "string_data string = utf8_of ss" "list_all (encodable (string_origin string)) ss"
    "ends must (turbowasm_component_string_lower memory string) h (\<lambda>(p, len) h'. \<exists>guest. p = guest_pointer guest \<and>
       stored alloc memory x (lowered_alignment memory (string_origin string) ss) guest h' (lowered_bytes memory ss) \<and> len = lowered_length memory ss)"
proof -
  obtain ss where ss: "string_data string = utf8_of ss" "list_all (encodable (string_origin string)) ss"
      "measure_scalars m = length ss" "utf16_units m = code_units ss" "ascii_prefix m = length (utf8_of (ascii_part ss))"
      "measure_latin1 m \<longleftrightarrow> list_all (\<lambda>s. s < 0x100) ss" "latin1_prefix m = length (latin1_part ss)"
      "latin1_prefix_bytes m = length (utf8_of (latin1_part ss))" "length (string_data string) < 2 ^ 29"
      "source_length (string_origin string) ss < 2 ^ 28"
    by (rule measure_string_inv [OF assms(4)])
  define units where "units = source_length (string_origin string) ss"
  note b = source_length_bounds [OF ss(2), folded units_def]
  have units: "(if string_origin string = TURBOWASM_COMPONENT_STRING_ORIGIN_UTF8 then length (string_data string)
      else if string_origin string = TURBOWASM_COMPONENT_STRING_ORIGIN_LATIN1 then measure_scalars m else utf16_units m) = units"
    by (cases "string_origin string") (simp_all add: units_def source_length_def ss)
  have v: "memory_valid memory"
    by (cases "string_encoding memory"; cases "pointer_type memory")
       (simp_all add: memory_valid_def turbowasm_component_string_encoding_valid_def)
  have valid: "list_all scalar_valid ss" using ss(2) by (simp add: list_all_iff encodable_def)
  note start = stored_empty [OF assms(3) realloc_contract_writes [OF assms(1)]]
  have g: "must \<longrightarrow> (\<forall>n \<le> 3 * length (utf8_of ss). grants n)" "must \<longrightarrow> (\<forall>n \<le> 2 * units. grants n)"
    using assms(5) b(3) ss(1) by auto
  let ?lower = "case string_encoding memory of TURBOWASM_COMPONENT_STRING_UTF8 \<Rightarrow> lower_utf8
      | TURBOWASM_COMPONENT_STRING_UTF16 \<Rightarrow> lower_utf16 | TURBOWASM_COMPONENT_STRING_LATIN1_UTF16 \<Rightarrow> lower_compact"
  have low: "ends must (?lower memory \<lparr>guest_pointer = 0, guest_capacity = 0\<rparr> string m units) h
      (\<lambda>(guest, len) h'. stored alloc memory x (lowered_alignment memory (string_origin string) ss) guest h' (lowered_bytes memory ss) \<and>
         len = lowered_length memory ss)"
  proof (cases "string_encoding memory")
    case TURBOWASM_COMPONENT_STRING_UTF8
    then show ?thesis
      using lower_utf8_stored [OF assms(1,2) start ss(1,2,5) units_def ss(10) [folded units_def] ss(9) [unfolded ss(1)] g(1)]
      by (simp add: lowered_defs)
  next
    case TURBOWASM_COMPONENT_STRING_UTF16
    then show ?thesis
      using lower_utf16_stored [OF assms(1,2) start ss(1) valid ss(4) b(2) ss(10) [folded units_def] g(2)] by (simp add: lowered_defs)
  next
    case TURBOWASM_COMPONENT_STRING_LATIN1_UTF16
    then show ?thesis
      using lower_compact_stored [OF assms(1,2) start ss(1-4,6-8) units_def ss(10) [folded units_def] g(2)] by simp
  qed
  have eq: "turbowasm_component_string_lower memory string =
      guest_then (?lower memory \<lparr>guest_pointer = 0, guest_capacity = 0\<rparr> string m units) (\<lambda>(guest, len). guest_return (guest_pointer guest, len))"
    unfolding turbowasm_component_string_lower_def assms(4) sum.case Let_def units using v by simp
  have "ends must (turbowasm_component_string_lower memory string) h (\<lambda>(p, len) h'. \<exists>guest. p = guest_pointer guest \<and>
       stored alloc memory x (lowered_alignment memory (string_origin string) ss) guest h' (lowered_bytes memory ss) \<and> len = lowered_length memory ss)"
    unfolding eq by (rule ends_then [OF low]) (auto intro!: ends_return)
  then show thesis by (rule that [OF ss(1,2)])
qed

subsection \<open>Lifting what was lowered\<close>

definition lowered_origin :: "turbowasm_component_canonical_memory \<Rightarrow> u32 list \<Rightarrow> turbowasm_component_string_origin" where
  "lowered_origin memory ss =
     (case string_encoding memory of
        TURBOWASM_COMPONENT_STRING_UTF8 \<Rightarrow> TURBOWASM_COMPONENT_STRING_ORIGIN_UTF8
      | TURBOWASM_COMPONENT_STRING_UTF16 \<Rightarrow> TURBOWASM_COMPONENT_STRING_ORIGIN_UTF16
      | TURBOWASM_COMPONENT_STRING_LATIN1_UTF16 \<Rightarrow>
          if list_all (\<lambda>s. s < 0x100) ss then TURBOWASM_COMPONENT_STRING_ORIGIN_LATIN1 else TURBOWASM_COMPONENT_STRING_ORIGIN_COMPACT_UTF16)"

lemma compact_of: "encoded TURBOWASM_COMPONENT_STRING_ORIGIN_COMPACT_UTF16 ss = utf16_of ss"
  by (induction ss) simp_all

lemma lowered_bytes_origin: "lowered_bytes memory ss = encoded (lowered_origin memory ss) ss"
  by (simp add: lowered_bytes_def lowered_origin_def compact_of split: turbowasm_component_string_encoding.split)

lemma encodable_lowered: "list_all scalar_valid ss \<Longrightarrow> list_all (encodable (lowered_origin memory ss)) ss"
  by (auto simp: lowered_origin_def list_all_iff encodable_def split: turbowasm_component_string_encoding.split)

lemma tag_low:
  assumes "n < 2 ^ 31"
  shows "of_nat n AND utf16_tag memory = 0" "(of_nat n OR utf16_tag memory) AND utf16_tag memory \<noteq> 0"
    "(of_nat n OR utf16_tag memory) XOR utf16_tag memory = of_nat n"
proof -
  define t :: nat where "t = (if pointer_type memory = TURBOWASM_COMPONENT_POINTER_I64 then 63 else 31)"
  have t: "utf16_tag memory = push_bit t 1" "31 \<le> t" "t < 64" by (simp_all add: utf16_tag_def t_def)
  have "take_bit 31 (of_nat n :: u64) = of_nat n" using assms by (simp add: take_bit_of_nat take_bit_nat_eq_self flip: of_nat_take_bit)
  then have nb: "\<not> bit (of_nat n :: u64) t" using t(2) by (metis bit_take_bit_iff not_le)
  have tag: "bit (utf16_tag memory) j \<longleftrightarrow> j = t" for j using t(3) by (auto simp: t(1) bit_simps)
  show "of_nat n AND utf16_tag memory = 0" by (rule bit_word_eqI) (auto simp: bit_and_iff tag nb)
  have "bit ((of_nat n OR utf16_tag memory) AND utf16_tag memory) t" by (simp add: bit_and_iff bit_or_iff tag)
  then show "(of_nat n OR utf16_tag memory) AND utf16_tag memory \<noteq> 0" by (metis bit_0_eq bot_apply bot_bool_def)
  show "(of_nat n OR utf16_tag memory) XOR utf16_tag memory = of_nat n"
    by (rule bit_word_eqI) (auto simp: bit_xor_iff bit_or_iff tag nb)
qed

text \<open>The alignment that lifting asks for.\<close>

definition lifted_alignment :: "turbowasm_component_canonical_memory \<Rightarrow> u64" where
  "lifted_alignment memory = (if string_encoding memory = TURBOWASM_COMPONENT_STRING_UTF8 then 1 else 2)"

lemma lowered_shape:
  assumes "length (utf8_of ss) < 2 ^ 29"
  obtains width units where
    "lift_shape memory (lowered_length memory ss) = (lowered_origin memory ss, width, lifted_alignment memory, units)"
    "unat units * unat width = length (lowered_bytes memory ss)"
proof -
  have n: "length ss < 2 ^ 31" "code_units ss < 2 ^ 31" using assms length_code_units [of ss] by simp_all
  have u: "unat (of_nat k :: u64) = k" if "k < 2 ^ 31" for k using that by (simp add: unat_of_nat)
  show thesis
  proof (cases "string_encoding memory = TURBOWASM_COMPONENT_STRING_LATIN1_UTF16 \<and> list_all (\<lambda>s. s < 0x100) ss \<or>
      string_encoding memory = TURBOWASM_COMPONENT_STRING_UTF8")
    case True
    then show ?thesis
      using assms n u tag_low [OF n(1), of memory]
      by (intro that [of 1 "lowered_length memory ss"])
         (auto simp: lift_shape_def lowered_origin_def lowered_length_def lowered_bytes_def lifted_alignment_def)
  next
    case False
    then show ?thesis
      using assms n u tag_low [OF n(2), of memory]
      by (intro that [of 2 "of_nat (code_units ss)"])
         (cases "string_encoding memory"; auto simp: lift_shape_def lowered_origin_def lowered_length_def lowered_bytes_def lifted_alignment_def)+
  qed
qed

lemma stored_lifts:
  assumes "stored alloc memory x a guest h (lowered_bytes memory ss)" "list_all scalar_valid ss" "length (utf8_of ss) < 2 ^ 29"
  shows "turbowasm_component_string_lift (\<lambda>_. True) memory (guest_pointer guest) (lowered_length memory ss) h =
     Some (h, if length (lowered_bytes memory ss) \<le> TW_STRING_MAX_BYTES \<and> guest_pointer guest mod lifted_alignment memory = 0
              then Inr \<lparr>string_data = utf8_of ss, string_origin = lowered_origin memory ss\<rparr> else Inl TURBOWASM_TRAPPED)"
proof -
  let ?p = "guest_pointer guest" and ?n = "length (lowered_bytes memory ss)"
  obtain buf where b: "holds alloc memory x a guest h buf" "?n \<le> length buf" "take ?n buf = lowered_bytes memory ss"
    using assms(1) unfolding stored_def by blast
  then have g: "guest_memory memory h x" "region_ok memory (length (guest_bytes h x)) ?p (length buf) a"
      "bytes_get (guest_bytes h x) (unat ?p) (length buf) = buf"
    unfolding holds_def guest_room_def by blast+
  obtain width units where sh: "lift_shape memory (lowered_length memory ss) = (lowered_origin memory ss, width, lifted_alignment memory, units)"
      "unat units * unat width = ?n"
    by (rule lowered_shape [OF assms(3)])
  have "bytes_get (guest_bytes h x) (unat ?p) ?n = encoded (lowered_origin memory ss) ss"
    using b(2,3) g(3) bytes_get_take [OF b(2), of "guest_bytes h x" "unat ?p"] lowered_bytes_origin by simp
  moreover have "region_ok memory (length (guest_bytes h x)) ?p ?n (lifted_alignment memory) \<longleftrightarrow> ?p mod lifted_alignment memory = 0"
    using g(2) b(2) by (auto simp: region_ok_def)
  ultimately show ?thesis
    using lift_decode_ok [OF _ encodable_lowered [OF assms(2)], of _ memory "\<lambda>_. True"]
    unfolding lift_eq [OF g(1) sh(1)] Let_def sh(2) by auto
qed

lemma ends_must: "ends True m h Q \<Longrightarrow> \<exists>h' a b. m h = Some (h', Inr (a, b))"
  by (cases "m h") (auto simp: ends_def split: sum.splits)

lemma lowered_bytes_bound: "length (lowered_bytes memory ss) \<le> 2 * length (utf8_of ss)"
  using length_code_units [of ss] by (auto simp: lowered_bytes_def split: turbowasm_component_string_encoding.split)

text \<open>
  C8. Strings go into a guest and come back. A valid string that the host owns is the UTF-8 form of scalar values. For every
  encoding of the guest and every reallocation function that keeps its contract, what a successful lowering
  reports is lifted again as the same bytes, if its form in the guest has at most \<open>2 ^ 28 - 1\<close> bytes and its region is
  aligned as lifting asks; else lifting traps. The form in the guest has at most twice as many bytes as the UTF-8 form. The
  region is aligned so, except for Latin-1 characters that came from the compact encoding as UTF-16 and go to a
  compact guest: for these the code shrinks the region with the alignment 1. Lowering succeeds when the guest grants
  all requests up to three times the UTF-8 form.
\<close>

theorem string_lower_lift_roundtrip:
  assumes "guest_room alloc memory h x" "guest_realloc memory = Some realloc" "realloc_contract grants alloc memory x realloc"
    "turbowasm_component_string_validate string = TURBOWASM_OK"
  shows "\<exists>ss. string_data string = utf8_of ss \<and> list_all scalar_valid ss \<and>
     length (lowered_bytes memory ss) \<le> 2 * length (string_data string) \<and>
     (turbowasm_component_string_lower memory string h = Some (h', Inr (pointer, len)) \<longrightarrow>
       (pointer mod lifted_alignment memory = 0 \<or>
        string_encoding memory = TURBOWASM_COMPONENT_STRING_LATIN1_UTF16 \<and>
        string_origin string = TURBOWASM_COMPONENT_STRING_ORIGIN_COMPACT_UTF16 \<and> list_all (\<lambda>s. s < 0x100) ss) \<and>
       turbowasm_component_string_lift (\<lambda>_. True) memory pointer len h' =
         Some (h', if length (lowered_bytes memory ss) \<le> 2 ^ 28 - 1 \<and> pointer mod lifted_alignment memory = 0
                   then Inr \<lparr>string_data = string_data string, string_origin = lowered_origin memory ss\<rparr>
                   else Inl TURBOWASM_TRAPPED)) \<and>
     ((\<forall>n \<le> 3 * length (string_data string). grants n) \<longrightarrow>
       (\<exists>h' pointer len. turbowasm_component_string_lower memory string h = Some (h', Inr (pointer, len))))"
proof -
  obtain m where m: "measure_string string = Inr m"
    using assms(4) by (auto simp: turbowasm_component_string_validate_def measure_string_def Let_def split: if_splits option.splits)
  have ends: "\<exists>h' pointer len. turbowasm_component_string_lower memory string h = Some (h', Inr (pointer, len))"
    if "\<forall>n \<le> 3 * length (string_data string). grants n"
    by (rule lower_stored [OF assms(3,2,1) m, of True]) (use that in \<open>auto dest: ends_must\<close>)
  obtain ss where ss: "string_data string = utf8_of ss" "list_all (encodable (string_origin string)) ss"
    "ends False (turbowasm_component_string_lower memory string) h (\<lambda>(p, len) h'. \<exists>guest. p = guest_pointer guest \<and>
       stored alloc memory x (lowered_alignment memory (string_origin string) ss) guest h' (lowered_bytes memory ss) \<and> len = lowered_length memory ss)"
    using lower_stored [OF assms(3,2,1) m, of False] by blast
  have valid: "list_all scalar_valid ss" using ss(2) by (simp add: list_all_iff encodable_def)
  have short: "length (utf8_of ss) < 2 ^ 29" using measure_string_inv [OF m] ss(1) by metis
  have low: "(pointer mod lifted_alignment memory = 0 \<or>
        string_encoding memory = TURBOWASM_COMPONENT_STRING_LATIN1_UTF16 \<and>
        string_origin string = TURBOWASM_COMPONENT_STRING_ORIGIN_COMPACT_UTF16 \<and> list_all (\<lambda>s. s < 0x100) ss) \<and>
      turbowasm_component_string_lift (\<lambda>_. True) memory pointer len h' =
        Some (h', if length (lowered_bytes memory ss) \<le> 2 ^ 28 - 1 \<and> pointer mod lifted_alignment memory = 0
                  then Inr \<lparr>string_data = string_data string, string_origin = lowered_origin memory ss\<rparr> else Inl TURBOWASM_TRAPPED)"
    if lowered: "turbowasm_component_string_lower memory string h = Some (h', Inr (pointer, len))"
  proof -
    obtain guest where g: "pointer = guest_pointer guest" "len = lowered_length memory ss"
        "stored alloc memory x (lowered_alignment memory (string_origin string) ss) guest h' (lowered_bytes memory ss)"
      using ss(3) lowered by (auto simp: ends_def)
    have "pointer mod lowered_alignment memory (string_origin string) ss = 0"
      using g(1,3) by (auto simp: stored_def holds_def region_ok_def)
    then show ?thesis
      using stored_lifts [OF g(3) valid short] unfolding g(1,2) ss(1)
      by (auto simp: lowered_alignment_def lifted_alignment_def split: turbowasm_component_string_encoding.splits if_splits)
  qed
  show ?thesis using ss(1) valid lowered_bytes_bound [of memory ss] low ends by (intro exI [of _ ss]) simp
qed

lemma string_validate_ok:
  assumes "string_data string = utf8_of ss" "list_all (encodable (string_origin string)) ss" "2 * length (string_data string) < 2 ^ 28"
  shows "turbowasm_component_string_validate string = TURBOWASM_OK"
proof -
  define d where "d = string_data string"
  define m0 where "m0 = \<lparr>measure_scalars = 0, utf16_units = 0, ascii_prefix = length d, latin1_prefix = 0, latin1_prefix_bytes = 0, measure_latin1 = True\<rparr>"
  have v: "list_all scalar_valid ss" using assms(2) by (simp add: list_all_iff encodable_def)
  have "scanned (length d) [] m0" by (simp add: scanned_def m0_def)
  then obtain m where m: "measure_loop d 0 m0 = Some m" "scanned (length d) ss m"
    using measure_loop_scan [of d "[]" ss m0] assms(1) v by (auto simp: d_def)
  have "length ss < 2 ^ 28" "2 * code_units ss < 2 ^ 28" "length d < 2 ^ 27" using assms(3) length_code_units [of ss] assms(1) by (simp_all add: d_def)
  moreover have "string_origin string = TURBOWASM_COMPONENT_STRING_ORIGIN_LATIN1 \<Longrightarrow> measure_latin1 m"
    using m(2) assms(2) by (simp add: scanned_def list_all_iff encodable_def)
  ultimately show ?thesis
    using m unfolding turbowasm_component_string_validate_def measure_string_def Let_def d_def [symmetric] m0_def [symmetric]
    by (cases "string_origin string") (simp_all add: scanned_def)
qed

text \<open>A guest that keeps its string at address 0 and moves the bytes there.\<close>

definition sample_realloc :: "u64 \<Rightarrow> u64 \<Rightarrow> u64 \<Rightarrow> u64 \<Rightarrow> u64 guest_action" where
  "sample_realloc p old alignment n h =
     do { r \<leftarrow> turbowasm_instance_memory_copy h 8 0 0 0 p (if old \<le> n then old else n);
          Some (case r of (status, h') \<Rightarrow> (h', if status = TURBOWASM_OK then Inr 0 else Inl status)) }"

definition sample_canonical :: turbowasm_component_canonical_memory where
  "sample_canonical =
     \<lparr>canon_instance = 8, canon_memory_index = 0, pointer_type = TURBOWASM_COMPONENT_POINTER_I32,
      string_encoding = TURBOWASM_COMPONENT_STRING_LATIN1_UTF16, guest_realloc = Some sample_realloc\<rparr>"

definition sample_allocator :: guest_allocator where
  "sample_allocator = \<lparr>least_bytes = 16, issued = (\<lambda>h p n. p = 0)\<rparr>"

lemma sample_realloc_contract: "realloc_contract (\<lambda>n. n \<le> 16) sample_allocator sample_canonical (7, 0) sample_realloc"
  unfolding realloc_contract_def
proof (intro conjI allI impI)
  show "writes_keep sample_allocator (7, 0)" by (simp add: writes_keep_def sample_allocator_def)
  fix h and p old alignment n :: u64
  let ?x = "(7, 0) :: memory_id"
  define k where "k = (if old \<le> n then old else n)"
  assume a: "guest_room sample_allocator sample_canonical h ?x \<and> (p = 0 \<and> old = 0 \<or> issued sample_allocator h p old) \<and> unat p + unat old \<le> length (guest_bytes h ?x)"
  then have g: "wf_heap h" "memory_target h 8 0 = Some (Inr ?x)" "\<not> mem_shared (mem_at h ?x)" "16 \<le> length (guest_bytes h ?x)"
    by (simp_all add: guest_room_def guest_memory_def sample_canonical_def sample_allocator_def)
  have k: "unat k = min (unat old) (unat n)" by (simp add: k_def min_def word_le_nat_alt)
  define b where "b = bytes_get (guest_bytes h ?x) (unat p) (unat k)"
  define h' where "h' = (if k = 0 then h else mem_store h ?x 0 b)"
  have in_range: "unat k \<le> length (guest_bytes h ?x)" "unat p + unat k \<le> length (guest_bytes h ?x)" using a k by (simp_all add: min_def)
  then have cp: "turbowasm_instance_memory_copy h 8 0 0 0 p k = Some (TURBOWASM_OK, h')"
    using memory_copy_wf [OF g(1,2,2), where destination = 0 and source = p and len = k] by (simp add: h'_def b_def)
  have b: "length b = unat k" using in_range(2) by (simp add: b_def)
  have d: "guest_bytes h' ?x = bytes_put (guest_bytes h ?x) 0 b"
    using memory_target_owned [OF g(2)] b by (auto simp: h'_def mem_at_store bytes_put_def)
  have "guest_room sample_allocator sample_canonical h' ?x"
    using g b in_range wf_heap_store [OF g(1) memory_target_owned [OF g(2)], of 0 b] memory_target_owned [OF g(2)]
    by (simp add: h'_def guest_room_def guest_memory_def sample_canonical_def sample_allocator_def mem_at_store)
  moreover have "bytes_get (guest_bytes h' ?x) 0 (min (unat old) (unat n)) = bytes_get (guest_bytes h ?x) (unat p) (min (unat old) (unat n))"
    unfolding d k [symmetric] b_def [symmetric] using b in_range(1) by (intro bytes_get_put) simp_all
  ultimately show "ends (unat n \<le> 16) (sample_realloc p old alignment n) h (\<lambda>p' h'.
      guest_room sample_allocator sample_canonical h' ?x \<and> issued sample_allocator h' p' n \<and>
      (unat n \<le> 16 \<longrightarrow> region_ok sample_canonical (length (guest_bytes h' ?x)) p' (unat n) alignment) \<and>
      (unat p' + unat n \<le> length (guest_bytes h' ?x) \<longrightarrow>
         (let kept = min (unat old) (unat n) in bytes_get (guest_bytes h' ?x) (unat p') kept = bytes_get (guest_bytes h ?x) (unat p) kept)))"
    using g(4) unfolding sample_realloc_def ends_def k_def [symmetric] cp by (simp add: Let_def region_ok_def guest_room_def sample_allocator_def)
qed

text \<open>A string of three letters: one of ASCII, one of Latin-1 and one beyond.\<close>

lemma string_lower_lift_roundtrip_witness:
  "\<exists>h' pointer len origin.
     turbowasm_component_string_lower sample_canonical
       \<lparr>string_data = [0x68, 0xc3, 0xa9, 0xc4, 0x80], string_origin = TURBOWASM_COMPONENT_STRING_ORIGIN_UTF8\<rparr> sample_heap =
       Some (h', Inr (pointer, len)) \<and>
     turbowasm_component_string_lift (\<lambda>_. True) sample_canonical pointer len h' =
       Some (h', Inr \<lparr>string_data = [0x68, 0xc3, 0xa9, 0xc4, 0x80], string_origin = origin\<rparr>)"
proof -
  let ?s = "\<lparr>string_data = [0x68, 0xc3, 0xa9, 0xc4, 0x80], string_origin = TURBOWASM_COMPONENT_STRING_ORIGIN_UTF8\<rparr>"
  have g: "guest_room sample_allocator sample_canonical sample_heap (7, 0)"
    using wf_sample_heap sample_target(2) sample_at
    by (simp add: guest_room_def guest_memory_def sample_canonical_def sample_allocator_def sample_memory_def cleared_memory_def)
  have r: "guest_realloc sample_canonical = Some sample_realloc" by (simp add: sample_canonical_def)
  have d: "string_data ?s = utf8_of [0x68, 0xe9, 0x100]" by code_simp
  have v: "turbowasm_component_string_validate ?s = TURBOWASM_OK"
    by (rule string_validate_ok [OF d]) (simp_all add: encodable_def scalar_valid_def)
  note rt = string_lower_lift_roundtrip [OF g r sample_realloc_contract v]
  obtain h' pointer len where l: "turbowasm_component_string_lower sample_canonical ?s sample_heap = Some (h', Inr (pointer, len))"
    using rt [of sample_heap 0 0] by auto
  then have "\<exists>origin. turbowasm_component_string_lift (\<lambda>_. True) sample_canonical pointer len h' =
      Some (h', Inr \<lparr>string_data = string_data ?s, string_origin = origin\<rparr>)"
    using rt [of h' pointer len] by (auto del: mod_0_imp_dvd)
  then show ?thesis using l by auto
qed

end
