(* ===== verification/Spec2Isabelle.thy ===== *)
theory Spec2Isabelle
  imports TW_Async TW_Resource_Laws TW_Numeric_Conversions TW_Memory_Exec_Laws TW_Sha256_Laws TW_String_Lower
begin

text \<open>
  \<^bold>\<open>TurboWasm, verified parts.\<close> TurboWasm is a WebAssembly runtime in C with an interpreter, an optional compiler, linear
  memories that threads may share, the component model and WASI. A module is read and validated, an instance is
  created from it, and the interpreter (\<^verbatim>\<open>src/src/instance.c\<close>) runs its functions on an operand stack and on the
  state of the instance (\<^verbatim>\<open>src/src/instance_state.c\<close>). Components call each other through the canonical ABI:
  strings are copied between memories, resources are passed as handles of a table, and asynchronous calls
  report their progress through small notification states.

  \<^bold>\<open>Conventions.\<close> C integers are words of their width (\<open>u8\<close> to \<open>u64\<close>), so sums wrap around as in C; \<^verbatim>\<open>size_t\<close> has 64 bits.
  Indices and lengths of arrays are natural numbers. A function that fails returns its status as a value, and every early
  return of the source is a branch. Pointers between instances are addresses into a heap of instances. What the
  sources only call is a parameter: the allocator (which requests it grants), the clock, the interrupt check, the
  lock library, the destructor of a resource and the reallocation function of a guest. Loops are structural
  recursion, recursion with a measure, or \<^verbatim>\<open>partial_function\<close> where the source may loop forever (the lookup of an
  imported memory). There is no fuel, except that a blocked wait consumes a list of events, one per sleep: a
  list that is too short means that the thread still sleeps, and when it is long enough is part of the theorem.

  \<^bold>\<open>Theories.\<close>

  \<^item> \<open>TW_Prelude\<close>: types, lemmas on words, lists and byte arrays, and the locale \<open>handle_table\<close> (what a table of
    generation-tagged handles promises to its clients). \<open>TW_Value\<close>: the values of the runtime.

  \<^item> \<open>TW_Reader\<close> models \<^verbatim>\<open>reader.c\<close> and the 33-bit reader of the validator. The locale \<open>leb_format\<close> relates the loop of a
    decoder to the numbers of LEB128; its interpretations give exact acceptance, values, round trips and that a read never
    leaves its window.

  \<^item> \<open>TW_Float\<close>, \<open>TW_Numeric\<close>: the numeric instructions of \<^verbatim>\<open>instance.c\<close>, the operand stack and the numeric bridge of
    compiled code. Floats are bit patterns; results are computed exactly in integers and rounded. \<open>TW_Numeric_Bits\<close>,
    \<open>TW_Numeric_Laws\<close>, \<open>TW_Numeric_Conversions\<close>: bit counting, shifts, type soundness of the dispatch, division, and
    the trapping and saturating conversions.

  \<^item> \<open>TW_Memory\<close>: linear memories (\<^verbatim>\<open>instance_state.c\<close>, \<^verbatim>\<open>atomic.c\<close>): creation, lookup through imports, ranges, bulk
    operations, growth, atomic accesses. \<open>TW_Wait\<close>: waiting and notification, as critical sections of one
    thread and as a step relation for any number of threads. \<open>TW_Memory_Exec\<close>: the memory instructions of the interpreter.
    The invariant \<open>wf_memory\<close> relates bytes, pages, limits and waiters.

  \<^item> \<open>TW_Memory_Laws\<close>: exact bounds, stores and loads (locale \<open>le_codec\<close>), growth, bulk operations and termination of the
    lookup. \<open>TW_Atomic_Laws\<close>: the table of atomic accesses against arithmetic on numbers. \<open>TW_Wait_Laws\<close>: which waiters
    a notification wakes, the accounting of wake-ups over all interleavings, and how a wait returns.
    \<open>TW_Memory_Exec_Laws\<close>: every memory instruction keeps the invariant, and creation establishes it.

  \<^item> \<open>TW_Resource\<close>, \<open>TW_Resource_Laws\<close>: the handle table of \<^verbatim>\<open>component_resource.c\<close>: the table invariant, refinement of
    allocation, no revival of handles (an interpretation of \<open>handle_table\<close>), lending, borrow scopes and drop.

  \<^item> \<open>TW_Async\<close>: the notification states of \<^verbatim>\<open>component_async_state.c\<close>; the locale \<open>event_source\<close> is what the owner of such
    a state relies on.

  \<^item> \<open>TW_String\<close>, \<open>TW_Unicode\<close>, \<open>TW_String_Laws\<close>, \<open>TW_String_Lower\<close>: the strings of \<^verbatim>\<open>component_string.c\<close> in the three guest
    encodings: what lifting accepts and returns, and the round trip through a guest.

  \<^item> \<open>TW_Sha256\<close>, \<open>TW_Sha256_Laws\<close>: the streaming hash of \<^verbatim>\<open>sha256.c\<close> against the definition of FIPS 180-4.

  \<^bold>\<open>Assumptions.\<close> Locks are modelled as the boundaries of critical sections: the operations of a memory are atomic, and
  between the sleeps of a wait other threads may do anything that keeps the heap well formed. The reallocation
  function of a guest keeps the bytes of a region that it moves and does not move the memory of the call. The
  NaN that an operation delivers is any NaN that the standard allows. Stack, code size and the C compiler are outside the model.

  \<^bold>\<open>Not modelled.\<close> The validator and the decoders of modules and components: large, and the theorems here assume of them only the
  limits of a memory declaration. The control flow of the interpreter, tables, globals, exceptions and the garbage-collected store:
  they depend on validated types. SIMD and the compiler: their meaning lies in external libraries. The rest of the canonical
  ABI, component execution and its scheduling: of these the strings, the handle table and the notification states are here.
  WASI, the adapters and the artifact cache: input and output. The guest C library, tests and tools do not run in the host.
\<close>

end
